(* ===== verification/Prelude.thy ===== *)
theory Prelude
  imports Complex_Main "HOL-Library.Word" "HOL-Library.Monad_Syntax"
begin

text \<open>
  Shared vocabulary of the development: the fixed-width integer types of the firmware and of the
  PC program, C arrays with the bounds of their declaration, the byte views of a 32 bit value, and
  the collections of rules the component theories add to.

  A C++ operation whose behaviour the language leaves undefined (an access outside an array, a
  conversion of a float that does not fit the integer type) is the value \<^term>\<open>None\<close> of
  an option result. A theorem that an operation returns \<^term>\<open>Some\<close> is therefore a
  memory-safety statement.
\<close>

unbundle bit_operations_syntax

subsection \<open>Machine integers\<close>

type_synonym u8 = "8 word"
type_synonym u16 = "16 word"
type_synonym u32 = "32 word"

text \<open>The bounds of the signed types: \<open>int\<close> is 16 bits wide on the AVR, \<open>long\<close> 32.\<close>

definition in_i16 :: "int \<Rightarrow> bool" where
  "in_i16 i \<longleftrightarrow> - 32768 \<le> i \<and> i \<le> 32767"

definition in_i32 :: "int \<Rightarrow> bool" where
  "in_i32 i \<longleftrightarrow> - 2147483648 \<le> i \<and> i \<le> 2147483647"

subsection \<open>Rule collections\<close>

named_theorems inv_intros \<open>preservation of the component invariants\<close>
named_theorems array_simps \<open>reads and writes of bounded arrays\<close>
named_theorems wire_simps \<open>encodings and decodings of wire formats\<close>

subsection \<open>Arrays with bounds\<close>

definition aget :: "'a list \<Rightarrow> nat \<Rightarrow> 'a option" where
  "aget xs i = (if i < length xs then Some (xs ! i) else None)"

definition aset :: "'a list \<Rightarrow> nat \<Rightarrow> 'a \<Rightarrow> 'a list option" where
  "aset xs i v = (if i < length xs then Some (xs[i := v]) else None)"

lemma aget_Some_iff: "aget xs i = Some v \<longleftrightarrow> i < length xs \<and> v = xs ! i"
  by (auto simp: aget_def)

lemma aset_Some_iff: "aset xs i v = Some ys \<longleftrightarrow> i < length xs \<and> ys = xs[i := v]"
  by (auto simp: aset_def)

lemma aget_in_bounds [array_simps]: "i < length xs \<Longrightarrow> aget xs i = Some (xs ! i)"
  by (simp add: aget_def)

lemma aset_in_bounds [array_simps]: "i < length xs \<Longrightarrow> aset xs i v = Some (xs[i := v])"
  by (simp add: aset_def)

lemma aset_length: "aset xs i v = Some ys \<Longrightarrow> length ys = length xs"
  by (simp add: aset_Some_iff)

lemma aset_out_of_bounds [array_simps]: "length xs \<le> i \<Longrightarrow> aset xs i v = None"
  by (simp add: aset_def)

lemma aget_out_of_bounds [array_simps]: "length xs \<le> i \<Longrightarrow> aget xs i = None"
  by (simp add: aget_def)

text \<open>The first \<^term>\<open>n\<close> cells of an array set to one value, as a counting loop does.\<close>

definition fill :: "nat \<Rightarrow> 'a \<Rightarrow> 'a list \<Rightarrow> 'a list" where
  "fill n v xs = replicate (min n (length xs)) v @ drop n xs"

lemma length_fill [simp]: "length (fill n v xs) = length xs"
  by (simp add: fill_def)

lemma nth_fill [simp]: "i < length xs \<Longrightarrow> fill n v xs ! i = (if i < n then v else xs ! i)"
  by (auto simp: fill_def nth_append)

lemma take_fill [simp]: "n \<le> length xs \<Longrightarrow> take n (fill n v xs) = replicate n v"
  by (simp add: fill_def)

text \<open>The same loop with the bound check, and a write to a cell of a matrix.\<close>

definition fill_checked :: "nat \<Rightarrow> 'a \<Rightarrow> 'a list \<Rightarrow> 'a list option" where
  "fill_checked n v xs = (if n \<le> length xs then Some (fill n v xs) else None)"

definition matrix_set :: "'a list list \<Rightarrow> nat \<Rightarrow> nat \<Rightarrow> 'a \<Rightarrow> 'a list list option" where
  "matrix_set m i j v = do { row \<leftarrow> aget m i; row' \<leftarrow> aset row j v; aset m i row' }"

definition matrix_shape :: "nat \<Rightarrow> nat \<Rightarrow> 'a list list \<Rightarrow> bool" where
  "matrix_shape rows cols m \<longleftrightarrow> length m = rows \<and> list_all (\<lambda>row. length row = cols) m"

lemma matrix_set_in_bounds [array_simps]:
  "matrix_shape a b m \<Longrightarrow> i < a \<Longrightarrow> j < b \<Longrightarrow> matrix_set m i j v = Some (m[i := (m ! i)[j := v]])"
  by (auto simp: matrix_shape_def matrix_set_def list_all_length aget_in_bounds aset_in_bounds)

lemma matrix_set_shape:
  "matrix_shape a b m \<Longrightarrow> matrix_set m i j v = Some m' \<Longrightarrow> matrix_shape a b m'"
  by (auto simp: matrix_shape_def matrix_set_def list_all_length bind_eq_Some_conv aget_Some_iff
      aset_Some_iff nth_list_update)

subsection \<open>Signed 16 bit increment\<close>

definition i16_inc :: "int \<Rightarrow> int option" where
  "i16_inc i = (if in_i16 (i + 1) then Some (i + 1) else None)"

subsection \<open>Bytes of a 32 bit value\<close>

definition be_bytes :: "u32 \<Rightarrow> u8 list" where
  "be_bytes v = [ucast (drop_bit 24 v), ucast (drop_bit 16 v), ucast (drop_bit 8 v), ucast v]"

definition be_word :: "u8 \<Rightarrow> u8 \<Rightarrow> u8 \<Rightarrow> u8 \<Rightarrow> u32" where
  "be_word b3 b2 b1 b0 =
     push_bit 24 (ucast b3) OR push_bit 16 (ucast b2) OR push_bit 8 (ucast b1) OR ucast b0"

text \<open>Both machines (AVR and x86) are little endian: byte 0 of a union is the low byte.\<close>

definition le_bytes :: "u32 \<Rightarrow> u8 list" where
  "le_bytes v = [ucast v, ucast (drop_bit 8 v), ucast (drop_bit 16 v), ucast (drop_bit 24 v)]"

definition le_word :: "u8 \<Rightarrow> u8 \<Rightarrow> u8 \<Rightarrow> u8 \<Rightarrow> u32" where
  "le_word b0 b1 b2 b3 = be_word b3 b2 b1 b0"

lemma bit_u8_outside: "8 \<le> n \<Longrightarrow> \<not> bit (b :: u8) n"
  using bit_imp_le_length by fastforce

lemma be_word_be_bytes [wire_simps]:
  "be_word (ucast (drop_bit 24 v)) (ucast (drop_bit 16 v)) (ucast (drop_bit 8 v)) (ucast v) = v"
proof (rule bit_word_eqI)
  fix n assume n: "n < LENGTH(32)"
  consider "n < 8" | "8 \<le> n" "n < 16" | "16 \<le> n" "n < 24" | "24 \<le> n"
    by linarith
  then show "bit (be_word (ucast (drop_bit 24 v)) (ucast (drop_bit 16 v))
                   (ucast (drop_bit 8 v)) (ucast v)) n = bit v n"
    using n by cases (auto simp: be_word_def bit_simps)
qed

lemma le_word_le_bytes [wire_simps]:
  "le_word (ucast v) (ucast (drop_bit 8 v)) (ucast (drop_bit 16 v)) (ucast (drop_bit 24 v)) = v"
  by (simp add: le_word_def be_word_be_bytes)

lemma length_be_bytes [simp]: "length (be_bytes v) = 4"
  by (simp add: be_bytes_def)

lemma length_le_bytes [simp]: "length (le_bytes v) = 4"
  by (simp add: le_bytes_def)

lemma be_bytes_be_word [wire_simps]: "be_bytes (be_word a b c d) = [a, b, c, d]"
  unfolding be_bytes_def be_word_def
  by (auto intro!: bit_word_eqI simp: bit_simps bit_u8_outside [OF le_add1] bit_u8_outside)

end
