(* ===== verification/Mcp_Tables.thy ===== *)
theory Mcp_Tables
  imports Prelude
begin

text \<open>
  The constants of the CAN controller driver (\<open>mcp2515.h\<close>): registers, masks, and the bit timing tables
  with the switch of \<open>setBitrate\<close> (\<open>mcp2515.cpp\<close>) that selects from them.
\<close>

datatype can_clock = MCP_20MHZ | MCP_16MHZ | MCP_8MHZ

datatype can_speed =
    CAN_5KBPS | CAN_10KBPS | CAN_20KBPS | CAN_31K25BPS | CAN_33KBPS | CAN_40KBPS | CAN_50KBPS
  | CAN_80KBPS | CAN_83K3BPS | CAN_95KBPS | CAN_100KBPS | CAN_125KBPS | CAN_200KBPS | CAN_250KBPS
  | CAN_500KBPS | CAN_1000KBPS

datatype can_clkout = CLKOUT_DISABLE | CLKOUT_DIV1 | CLKOUT_DIV2 | CLKOUT_DIV4 | CLKOUT_DIV8

datatype mcp_error =
    ERROR_OK | ERROR_FAIL | ERROR_ALLTXBUSY | ERROR_FAILINIT | ERROR_FAILTX | ERROR_NOMSG

subsection \<open>Registers and their bits\<close>

definition MCP_RXF0SIDH :: u8 where "MCP_RXF0SIDH = 0x00"
definition MCP_RXF1SIDH :: u8 where "MCP_RXF1SIDH = 0x04"
definition MCP_RXF2SIDH :: u8 where "MCP_RXF2SIDH = 0x08"
definition MCP_CANSTAT :: u8 where "MCP_CANSTAT = 0x0E"
definition MCP_CANCTRL :: u8 where "MCP_CANCTRL = 0x0F"
definition MCP_RXF3SIDH :: u8 where "MCP_RXF3SIDH = 0x10"
definition MCP_RXF4SIDH :: u8 where "MCP_RXF4SIDH = 0x14"
definition MCP_RXF5SIDH :: u8 where "MCP_RXF5SIDH = 0x18"
definition MCP_RXM0SIDH :: u8 where "MCP_RXM0SIDH = 0x20"
definition MCP_RXM1SIDH :: u8 where "MCP_RXM1SIDH = 0x24"
definition MCP_CNF3 :: u8 where "MCP_CNF3 = 0x28"
definition MCP_CNF2 :: u8 where "MCP_CNF2 = 0x29"
definition MCP_CNF1 :: u8 where "MCP_CNF1 = 0x2A"
definition MCP_CANINTE :: u8 where "MCP_CANINTE = 0x2B"
definition MCP_CANINTF :: u8 where "MCP_CANINTF = 0x2C"
definition MCP_EFLG :: u8 where "MCP_EFLG = 0x2D"
definition MCP_TXB0CTRL :: u8 where "MCP_TXB0CTRL = 0x30"
definition MCP_TXB0SIDH :: u8 where "MCP_TXB0SIDH = 0x31"
definition MCP_TXB0DATA :: u8 where "MCP_TXB0DATA = 0x36"
definition MCP_TXB1CTRL :: u8 where "MCP_TXB1CTRL = 0x40"
definition MCP_TXB1SIDH :: u8 where "MCP_TXB1SIDH = 0x41"
definition MCP_TXB1DATA :: u8 where "MCP_TXB1DATA = 0x46"
definition MCP_TXB2CTRL :: u8 where "MCP_TXB2CTRL = 0x50"
definition MCP_TXB2SIDH :: u8 where "MCP_TXB2SIDH = 0x51"
definition MCP_TXB2DATA :: u8 where "MCP_TXB2DATA = 0x56"
definition MCP_RXB0CTRL :: u8 where "MCP_RXB0CTRL = 0x60"
definition MCP_RXB0SIDH :: u8 where "MCP_RXB0SIDH = 0x61"
definition MCP_RXB0DATA :: u8 where "MCP_RXB0DATA = 0x66"
definition MCP_RXB1CTRL :: u8 where "MCP_RXB1CTRL = 0x70"
definition MCP_RXB1SIDH :: u8 where "MCP_RXB1SIDH = 0x71"
definition MCP_RXB1DATA :: u8 where "MCP_RXB1DATA = 0x76"

lemmas register_defs = MCP_RXF0SIDH_def MCP_RXF1SIDH_def MCP_RXF2SIDH_def MCP_CANSTAT_def MCP_CANCTRL_def MCP_RXF3SIDH_def MCP_RXF4SIDH_def MCP_RXF5SIDH_def MCP_RXM0SIDH_def MCP_RXM1SIDH_def MCP_CNF3_def MCP_CNF2_def MCP_CNF1_def MCP_CANINTE_def MCP_CANINTF_def MCP_EFLG_def MCP_TXB0CTRL_def MCP_TXB0SIDH_def MCP_TXB0DATA_def MCP_TXB1CTRL_def MCP_TXB1SIDH_def MCP_TXB1DATA_def MCP_TXB2CTRL_def MCP_TXB2SIDH_def MCP_TXB2DATA_def MCP_RXB0CTRL_def MCP_RXB0SIDH_def MCP_RXB0DATA_def MCP_RXB1CTRL_def MCP_RXB1SIDH_def MCP_RXB1DATA_def

definition CANCTRL_REQOP :: u8 where "CANCTRL_REQOP = 0xE0"
definition CANCTRL_CLKEN :: u8 where "CANCTRL_CLKEN = 0x04"
definition CANCTRL_CLKPRE :: u8 where "CANCTRL_CLKPRE = 0x03"
definition CANCTRL_REQOP_NORMAL :: u8 where "CANCTRL_REQOP_NORMAL = 0x00"
definition CANCTRL_REQOP_SLEEP :: u8 where "CANCTRL_REQOP_SLEEP = 0x20"
definition CANCTRL_REQOP_LOOPBACK :: u8 where "CANCTRL_REQOP_LOOPBACK = 0x40"
definition CANCTRL_REQOP_LISTENONLY :: u8 where "CANCTRL_REQOP_LISTENONLY = 0x60"
definition CANCTRL_REQOP_CONFIG :: u8 where "CANCTRL_REQOP_CONFIG = 0x80"
definition CANSTAT_OPMOD :: u8 where "CANSTAT_OPMOD = 0xE0"
definition CNF3_SOF :: u8 where "CNF3_SOF = 0x80"
definition TXB_EXIDE_MASK :: u8 where "TXB_EXIDE_MASK = 0x08"
definition DLC_MASK :: u8 where "DLC_MASK = 0x0F"
definition RTR_MASK :: u8 where "RTR_MASK = 0x40"
definition RXBnCTRL_RXM_STDEXT :: u8 where "RXBnCTRL_RXM_STDEXT = 0x00"
definition RXBnCTRL_RXM_MASK :: u8 where "RXBnCTRL_RXM_MASK = 0x60"
definition RXBnCTRL_RTR :: u8 where "RXBnCTRL_RTR = 0x08"
definition RXB0CTRL_BUKT :: u8 where "RXB0CTRL_BUKT = 0x04"
definition RXB0CTRL_FILHIT_MASK :: u8 where "RXB0CTRL_FILHIT_MASK = 0x03"
definition RXB1CTRL_FILHIT_MASK :: u8 where "RXB1CTRL_FILHIT_MASK = 0x07"
definition RXB0CTRL_FILHIT :: u8 where "RXB0CTRL_FILHIT = 0x00"
definition RXB1CTRL_FILHIT :: u8 where "RXB1CTRL_FILHIT = 0x01"
definition STAT_RX0IF :: u8 where "STAT_RX0IF = 0x01"
definition STAT_RX1IF :: u8 where "STAT_RX1IF = 0x02"
definition STAT_RXIF_MASK :: u8 where "STAT_RXIF_MASK = STAT_RX0IF OR STAT_RX1IF"
definition TXB_ABTF :: u8 where "TXB_ABTF = 0x40"
definition TXB_MLOA :: u8 where "TXB_MLOA = 0x20"
definition TXB_TXERR :: u8 where "TXB_TXERR = 0x10"
definition TXB_TXREQ :: u8 where "TXB_TXREQ = 0x08"
definition CANINTF_RX0IF :: u8 where "CANINTF_RX0IF = 0x01"
definition CANINTF_RX1IF :: u8 where "CANINTF_RX1IF = 0x02"
definition CANINTF_TX0IF :: u8 where "CANINTF_TX0IF = 0x04"
definition CANINTF_TX1IF :: u8 where "CANINTF_TX1IF = 0x08"
definition CANINTF_TX2IF :: u8 where "CANINTF_TX2IF = 0x10"
definition CANINTF_ERRIF :: u8 where "CANINTF_ERRIF = 0x20"
definition CANINTF_MERRF :: u8 where "CANINTF_MERRF = 0x80"
definition EFLG_RX1OVR :: u8 where "EFLG_RX1OVR = 0x80"
definition EFLG_RX0OVR :: u8 where "EFLG_RX0OVR = 0x40"
definition EFLG_TXBO :: u8 where "EFLG_TXBO = 0x20"
definition EFLG_TXEP :: u8 where "EFLG_TXEP = 0x10"
definition EFLG_RXEP :: u8 where "EFLG_RXEP = 0x08"
definition EFLG_ERRORMASK :: u8 where
  "EFLG_ERRORMASK = EFLG_RX1OVR OR EFLG_RX0OVR OR EFLG_TXBO OR EFLG_TXEP OR EFLG_RXEP"
definition INSTRUCTION_WRITE :: u8 where "INSTRUCTION_WRITE = 0x02"
definition INSTRUCTION_READ :: u8 where "INSTRUCTION_READ = 0x03"
definition INSTRUCTION_BITMOD :: u8 where "INSTRUCTION_BITMOD = 0x05"
definition INSTRUCTION_READ_STATUS :: u8 where "INSTRUCTION_READ_STATUS = 0xA0"
definition INSTRUCTION_RESET :: u8 where "INSTRUCTION_RESET = 0xC0"
definition CAN_RTR_FLAG :: u32 where "CAN_RTR_FLAG = 0x40000000"
definition CAN_SFF_MASK :: u32 where "CAN_SFF_MASK = 0x7FF"
definition CAN_EFF_MASK :: u32 where "CAN_EFF_MASK = 0x1FFFFFFF"
definition CAN_MAX_DLEN :: u8 where "CAN_MAX_DLEN = 8"

lemmas instruction_defs = INSTRUCTION_WRITE_def INSTRUCTION_READ_def INSTRUCTION_BITMOD_def
  INSTRUCTION_READ_STATUS_def INSTRUCTION_RESET_def

text \<open>The register groups of the transmit and receive buffers: control, identifier, data (and flag).\<close>

record txb_regs =
  tx_CTRL :: u8
  tx_SIDH :: u8
  tx_DATA :: u8

record rxb_regs =
  rx_CTRL :: u8
  rx_SIDH :: u8
  rx_DATA :: u8
  rx_IF :: u8

datatype TXBn = TXB0 | TXB1 | TXB2
datatype RXBn = RXB0 | RXB1
datatype MASK = MASK0 | MASK1
datatype RXF = RXF0 | RXF1 | RXF2 | RXF3 | RXF4 | RXF5

definition TXB :: "TXBn \<Rightarrow> txb_regs" where
  "TXB n =
     (case n of
        TXB0 \<Rightarrow> \<lparr>tx_CTRL = MCP_TXB0CTRL, tx_SIDH = MCP_TXB0SIDH, tx_DATA = MCP_TXB0DATA\<rparr>
      | TXB1 \<Rightarrow> \<lparr>tx_CTRL = MCP_TXB1CTRL, tx_SIDH = MCP_TXB1SIDH, tx_DATA = MCP_TXB1DATA\<rparr>
      | TXB2 \<Rightarrow> \<lparr>tx_CTRL = MCP_TXB2CTRL, tx_SIDH = MCP_TXB2SIDH, tx_DATA = MCP_TXB2DATA\<rparr>)"

definition RXB :: "RXBn \<Rightarrow> rxb_regs" where
  "RXB n =
     (case n of
        RXB0 \<Rightarrow> \<lparr>rx_CTRL = MCP_RXB0CTRL, rx_SIDH = MCP_RXB0SIDH, rx_DATA = MCP_RXB0DATA, rx_IF = CANINTF_RX0IF\<rparr>
      | RXB1 \<Rightarrow> \<lparr>rx_CTRL = MCP_RXB1CTRL, rx_SIDH = MCP_RXB1SIDH, rx_DATA = MCP_RXB1DATA, rx_IF = CANINTF_RX1IF\<rparr>)"

subsection \<open>Bit timing\<close>

text \<open>The macros \<open>MCP_xMHz_yBPS_CFG1\<close> to \<open>CFG3\<close>.\<close>

definition CFG_8MHz :: "can_speed \<Rightarrow> (u8 \<times> u8 \<times> u8) option" where
  "CFG_8MHz s =
     (case s of
        CAN_1000KBPS \<Rightarrow> Some (0x00, 0x80, 0x80)
      | CAN_500KBPS \<Rightarrow> Some (0x00, 0x90, 0x82)
      | CAN_250KBPS \<Rightarrow> Some (0x00, 0xB1, 0x85)
      | CAN_200KBPS \<Rightarrow> Some (0x00, 0xB4, 0x86)
      | CAN_125KBPS \<Rightarrow> Some (0x01, 0xB1, 0x85)
      | CAN_100KBPS \<Rightarrow> Some (0x01, 0xB4, 0x86)
      | CAN_80KBPS \<Rightarrow> Some (0x01, 0xBF, 0x87)
      | CAN_50KBPS \<Rightarrow> Some (0x03, 0xB4, 0x86)
      | CAN_40KBPS \<Rightarrow> Some (0x03, 0xBF, 0x87)
      | CAN_33KBPS \<Rightarrow> Some (0x47, 0xE2, 0x85)
      | CAN_31K25BPS \<Rightarrow> Some (0x07, 0xA4, 0x84)
      | CAN_20KBPS \<Rightarrow> Some (0x07, 0xBF, 0x87)
      | CAN_10KBPS \<Rightarrow> Some (0x0F, 0xBF, 0x87)
      | CAN_5KBPS \<Rightarrow> Some (0x1F, 0xBF, 0x87)
      | _ \<Rightarrow> None)"

definition CFG_16MHz :: "can_speed \<Rightarrow> (u8 \<times> u8 \<times> u8) option" where
  "CFG_16MHz s =
     (case s of
        CAN_1000KBPS \<Rightarrow> Some (0x00, 0xD0, 0x82)
      | CAN_500KBPS \<Rightarrow> Some (0x00, 0xF0, 0x86)
      | CAN_250KBPS \<Rightarrow> Some (0x41, 0xF1, 0x85)
      | CAN_200KBPS \<Rightarrow> Some (0x01, 0xFA, 0x87)
      | CAN_125KBPS \<Rightarrow> Some (0x03, 0xF0, 0x86)
      | CAN_100KBPS \<Rightarrow> Some (0x03, 0xFA, 0x87)
      | CAN_80KBPS \<Rightarrow> Some (0x03, 0xFF, 0x87)
      | CAN_83K3BPS \<Rightarrow> Some (0x03, 0xBE, 0x07)
      | CAN_50KBPS \<Rightarrow> Some (0x07, 0xFA, 0x87)
      | CAN_40KBPS \<Rightarrow> Some (0x07, 0xFF, 0x87)
      | CAN_33KBPS \<Rightarrow> Some (0x4E, 0xF1, 0x85)
      | CAN_20KBPS \<Rightarrow> Some (0x0F, 0xFF, 0x87)
      | CAN_10KBPS \<Rightarrow> Some (0x1F, 0xFF, 0x87)
      | CAN_5KBPS \<Rightarrow> Some (0x3F, 0xFF, 0x87)
      | _ \<Rightarrow> None)"

definition CFG_20MHz :: "can_speed \<Rightarrow> (u8 \<times> u8 \<times> u8) option" where
  "CFG_20MHz s =
     (case s of
        CAN_1000KBPS \<Rightarrow> Some (0x00, 0xD9, 0x82)
      | CAN_500KBPS \<Rightarrow> Some (0x00, 0xFA, 0x87)
      | CAN_250KBPS \<Rightarrow> Some (0x41, 0xFB, 0x86)
      | CAN_200KBPS \<Rightarrow> Some (0x01, 0xFF, 0x87)
      | CAN_125KBPS \<Rightarrow> Some (0x03, 0xFA, 0x87)
      | CAN_100KBPS \<Rightarrow> Some (0x04, 0xFA, 0x87)
      | CAN_83K3BPS \<Rightarrow> Some (0x04, 0xFE, 0x87)
      | CAN_80KBPS \<Rightarrow> Some (0x04, 0xFF, 0x87)
      | CAN_50KBPS \<Rightarrow> Some (0x09, 0xFA, 0x87)
      | CAN_40KBPS \<Rightarrow> Some (0x09, 0xFF, 0x87)
      | CAN_33KBPS \<Rightarrow> Some (0x0B, 0xFF, 0x87)
      | _ \<Rightarrow> None)"

text \<open>The cases of the switch, clock by clock.\<close>

definition config_8MHZ :: "can_speed \<Rightarrow> (u8 \<times> u8 \<times> u8) option" where
  "config_8MHZ s =
     (if s \<in> {CAN_5KBPS, CAN_10KBPS, CAN_20KBPS, CAN_31K25BPS, CAN_33KBPS, CAN_40KBPS,
        CAN_50KBPS, CAN_80KBPS, CAN_100KBPS, CAN_125KBPS, CAN_200KBPS, CAN_250KBPS,
        CAN_500KBPS, CAN_1000KBPS}
      then CFG_8MHz s else None)"

definition config_16MHZ :: "can_speed \<Rightarrow> (u8 \<times> u8 \<times> u8) option" where
  "config_16MHZ s =
     (if s \<in> {CAN_5KBPS, CAN_10KBPS, CAN_20KBPS, CAN_33KBPS, CAN_40KBPS, CAN_50KBPS,
        CAN_80KBPS, CAN_83K3BPS, CAN_100KBPS, CAN_125KBPS, CAN_200KBPS, CAN_250KBPS,
        CAN_500KBPS, CAN_1000KBPS}
      then CFG_16MHz s else None)"

definition config_20MHZ :: "can_speed \<Rightarrow> (u8 \<times> u8 \<times> u8) option" where
  "config_20MHZ s =
     (if s \<in> {CAN_33KBPS, CAN_40KBPS, CAN_50KBPS, CAN_80KBPS, CAN_83K3BPS, CAN_100KBPS,
        CAN_125KBPS, CAN_200KBPS, CAN_250KBPS, CAN_500KBPS, CAN_1000KBPS}
      then CFG_20MHz s else None)"

definition bit_config :: "can_clock \<Rightarrow> can_speed \<Rightarrow> (u8 \<times> u8 \<times> u8) option" where
  "bit_config canClock canSpeed =
     (case canClock of
        MCP_8MHZ \<Rightarrow> config_8MHZ canSpeed
      | MCP_16MHZ \<Rightarrow> config_16MHZ canSpeed
      | MCP_20MHZ \<Rightarrow> config_20MHZ canSpeed)"

text \<open>
  The documented meaning of the three registers: the baud rate prescaler is in bits 0-5 of CNF1; a bit is
  one time quantum of synchronisation, the propagation segment (CNF2 bits 0-2), phase segment 1
  (bits 3-5) and phase segment 2 (CNF3 bits 0-2, when bit 7 of CNF2 selects it), each plus one; a
  quantum is twice the prescaler plus one in clock periods.
\<close>

definition clock_hz :: "can_clock \<Rightarrow> nat" where
  "clock_hz c = (case c of MCP_8MHZ \<Rightarrow> 8000000 | MCP_16MHZ \<Rightarrow> 16000000 | MCP_20MHZ \<Rightarrow> 20000000)"

definition clocks_per_bit :: "u8 \<times> u8 \<times> u8 \<Rightarrow> nat" where
  "clocks_per_bit cfg =
     (case cfg of (cfg1, cfg2, cfg3) \<Rightarrow>
        2 * (unat (take_bit 6 cfg1) + 1) *
        (1 + (unat (take_bit 3 cfg2) + 1) + (unat (take_bit 3 (drop_bit 3 cfg2)) + 1) + (unat (take_bit 3 cfg3) + 1)))"

text \<open>Three times the rate in bits per second, so that 33.3 and 83.3 kbit/s are whole numbers.\<close>

definition rate_times_3 :: "can_speed \<Rightarrow> nat" where
  "rate_times_3 s =
     (case s of
        CAN_5KBPS \<Rightarrow> 15000 | CAN_10KBPS \<Rightarrow> 30000 | CAN_20KBPS \<Rightarrow> 60000 | CAN_31K25BPS \<Rightarrow> 93750
      | CAN_33KBPS \<Rightarrow> 100000 | CAN_40KBPS \<Rightarrow> 120000 | CAN_50KBPS \<Rightarrow> 150000 | CAN_80KBPS \<Rightarrow> 240000
      | CAN_83K3BPS \<Rightarrow> 250000 | CAN_95KBPS \<Rightarrow> 285000 | CAN_100KBPS \<Rightarrow> 300000 | CAN_125KBPS \<Rightarrow> 375000
      | CAN_200KBPS \<Rightarrow> 600000 | CAN_250KBPS \<Rightarrow> 750000 | CAN_500KBPS \<Rightarrow> 1500000
      | CAN_1000KBPS \<Rightarrow> 3000000)"

text \<open>C39. The bit timing tables are exact: every entry the switch of \<open>setBitrate\<close> selects gives the nominal
  rate for that clock, in the documented meaning of the registers, and 95 kbit/s is refused for every
  clock.\<close>

theorem bit_timing_exact:
  assumes "bit_config clk s = Some cfg"
  shows "3 * clock_hz clk = rate_times_3 s * clocks_per_bit cfg \<and> s \<noteq> CAN_95KBPS"
  using assms
  by (cases clk; cases s)
    (auto simp: bit_config_def config_8MHZ_def config_16MHZ_def config_20MHZ_def CFG_8MHz_def CFG_16MHz_def
      CFG_20MHz_def clock_hz_def rate_times_3_def clocks_per_bit_def take_bit_eq_mod drop_bit_eq_div)

theorem bit_timing_exact_witness:
  "3 * clock_hz MCP_16MHZ = rate_times_3 CAN_33KBPS * clocks_per_bit (0x4E, 0xF1, 0x85)"
  using bit_timing_exact [of MCP_16MHZ CAN_33KBPS "(0x4E, 0xF1, 0x85)"]
  by (simp add: bit_config_def config_16MHZ_def CFG_16MHz_def)

end
