(* ===== verification/Can_Stream.thy ===== *)
theory Can_Stream
  imports Prelude
begin

text \<open>
  \<open>include/can_frame_stream.h\<close>: the ring buffer that the receive interrupt fills and the main loop
  drains. The interface is the locale \<open>bounded_fifo\<close>: a queue of at most \<open>cap\<close> elements, seen
  through an abstraction to a list. The ring buffer is its interpretation, and every run of puts
  and gets delivers the accepted frames in order, without loss or duplication.
\<close>

subsection \<open>CAN frames\<close>

text \<open>\<open>struct can_frame\<close> of \<open>can.h\<close>; the data array has \<open>CAN_MAX_DLEN = 8\<close> bytes.\<close>

record can_frame =
  can_id :: u32
  can_dlc :: u8
  can_data :: "u8 list"

definition frame_ok :: "can_frame \<Rightarrow> bool" where
  "frame_ok f \<longleftrightarrow> length (can_data f) = 8"

subsection \<open>The interface: a bounded queue\<close>

datatype 'a fifo_op = Put 'a | Get

text \<open>A run of operations: the elements accepted, the elements delivered, the final state.\<close>

fun fifo_run :: "('a \<Rightarrow> 's \<Rightarrow> bool \<times> 's) \<Rightarrow> ('s \<Rightarrow> 'a option \<times> 's) \<Rightarrow>
    'a fifo_op list \<Rightarrow> 's \<Rightarrow> 'a list \<times> 'a list \<times> 's" where
  "fifo_run put get [] s = ([], [], s)"
| "fifo_run put get (Put x # ops) s =
     (let (ok, s') = put x s; (acc, del, t) = fifo_run put get ops s'
      in (if ok then x # acc else acc, del, t))"
| "fifo_run put get (Get # ops) s =
     (let (r, s') = get s; (acc, del, t) = fifo_run put get ops s'
      in (acc, case r of None \<Rightarrow> del | Some x \<Rightarrow> x # del, t))"

locale bounded_fifo =
  fixes put :: "'a \<Rightarrow> 's \<Rightarrow> bool \<times> 's"
    and get :: "'s \<Rightarrow> 'a option \<times> 's"
    and contents :: "'s \<Rightarrow> 'a list"
    and invar :: "'s \<Rightarrow> bool"
    and cap :: nat
  assumes put_invar: "invar s \<Longrightarrow> invar (snd (put x s))"
    and get_invar: "invar s \<Longrightarrow> invar (snd (get s))"
    and put_room: "invar s \<Longrightarrow> length (contents s) < cap \<Longrightarrow>
          fst (put x s) \<and> contents (snd (put x s)) = contents s @ [x]"
    and put_full: "invar s \<Longrightarrow> length (contents s) = cap \<Longrightarrow> put x s = (False, s)"
    and get_empty: "invar s \<Longrightarrow> contents s = [] \<Longrightarrow> get s = (None, s)"
    and get_head: "invar s \<Longrightarrow> contents s = x # xs \<Longrightarrow>
          fst (get s) = Some x \<and> contents (snd (get s)) = xs"
    and within_cap: "invar s \<Longrightarrow> length (contents s) \<le> cap"
begin

lemma run_invar: "invar s \<Longrightarrow> invar (snd (snd (fifo_run put get ops s)))"
proof (induction ops arbitrary: s)
  case (Cons op ops)
  then show ?case
    by (cases op) (auto simp: split_beta put_invar get_invar)
qed simp

lemma run_fifo:
  "invar s \<Longrightarrow> fifo_run put get ops s = (acc, del, t) \<Longrightarrow> contents s @ acc = del @ contents t"
proof (induction ops arbitrary: s acc del t)
  case (Cons op ops)
  show ?case
  proof (cases op)
    case (Put x)
    obtain ok s' where p: "put x s = (ok, s')" by fastforce
    obtain acc' where rec: "fifo_run put get ops s' = (acc', del, t)"
      and acc: "acc = (if ok then x # acc' else acc')"
      using Cons.prems(2) by (auto simp: Put p Let_def split: prod.splits)
    have inv: "invar s'" using put_invar [OF Cons.prems(1), of x] by (simp add: p)
    have "contents s' @ acc' = contents s @ acc"
      using put_room [OF Cons.prems(1), of x] put_full [OF Cons.prems(1), of x]
        within_cap [OF Cons.prems(1)] by (cases "length (contents s) < cap") (auto simp: p acc)
    with Cons.IH [OF inv rec] show ?thesis by simp
  next
    case Get
    obtain r s' where g: "get s = (r, s')" by fastforce
    obtain del' where rec: "fifo_run put get ops s' = (acc, del', t)"
      and del: "del = (case r of None \<Rightarrow> del' | Some x \<Rightarrow> x # del')"
      using Cons.prems(2) by (auto simp: Get g Let_def split: prod.splits)
    have inv: "invar s'" using get_invar [OF Cons.prems(1)] by (simp add: g)
    have "contents s = (case r of None \<Rightarrow> [] | Some x \<Rightarrow> [x]) @ contents s'"
      using get_empty [OF Cons.prems(1)] get_head [OF Cons.prems(1)]
      by (cases "contents s") (auto simp: g)
    with Cons.IH [OF inv rec] show ?thesis by (auto simp: del split: option.splits)
  qed
qed simp

lemma run_from_empty:
  assumes "invar s" and "contents s = []" and "fifo_run put get ops s = (acc, del, t)"
  shows "acc = del @ contents t" and "length (contents t) \<le> cap"
  using run_fifo [OF assms(1,3)] within_cap [OF run_invar [OF assms(1), of ops]] assms(2,3)
  by simp_all

end

subsection \<open>The ring buffer\<close>

definition buffsize :: nat where
  "buffsize = 10"

record 'f stream =
  cf_buffer :: "'f list"
  read_index :: nat
  write_index :: nat
  write_lock :: bool

definition stream_init :: "'f list \<Rightarrow> 'f stream" where
  "stream_init buf = \<lparr>cf_buffer = buf, read_index = 0, write_index = 0, write_lock = False\<rparr>"

text \<open>The return value 1 or 0 of \<open>put\<close> is the Boolean; a failed \<open>get\<close> leaves its argument alone.\<close>

definition stream_put :: "'f \<Rightarrow> 'f stream \<Rightarrow> bool \<times> 'f stream" where
  "stream_put frame s =
     (if write_lock s then (False, s)
      else
        let s = s\<lparr>cf_buffer := (cf_buffer s)[write_index s := frame]\<rparr>;
            s = s\<lparr>write_index := write_index s + 1\<rparr>;
            s = s\<lparr>write_index := write_index s mod buffsize\<rparr>;
            s = (if write_index s = read_index s then s\<lparr>write_lock := True\<rparr> else s)
        in (True, s))"

definition stream_get :: "'f stream \<Rightarrow> 'f option \<times> 'f stream" where
  "stream_get s =
     (if \<not> write_lock s \<and> read_index s = write_index s then (None, s)
      else
        let s = (if write_lock s \<and> read_index s = write_index s then s\<lparr>write_lock := False\<rparr> else s);
            frame = cf_buffer s ! read_index s;
            s = s\<lparr>read_index := read_index s + 1\<rparr>;
            s = s\<lparr>read_index := read_index s mod buffsize\<rparr>
        in (Some frame, s))"

definition stream_ok :: "'f stream \<Rightarrow> bool" where
  "stream_ok s \<longleftrightarrow> length (cf_buffer s) = buffsize \<and> read_index s < buffsize \<and>
     write_index s < buffsize \<and> (write_lock s \<longrightarrow> read_index s = write_index s)"

definition stream_count :: "'f stream \<Rightarrow> nat" where
  "stream_count s = (if write_lock s then buffsize
     else (write_index s + buffsize - read_index s) mod buffsize)"

definition stream_contents :: "'f stream \<Rightarrow> 'f list" where
  "stream_contents s =
     map (\<lambda>i. cf_buffer s ! ((read_index s + i) mod buffsize)) [0..<stream_count s]"


subsection \<open>Index arithmetic\<close>

lemma mod_wrap: "a < 20 \<Longrightarrow> (a :: nat) mod 10 = (if a < 10 then a else a - 10)"
  by (auto simp: le_mod_geq)

lemma stream_count_le: "stream_count s \<le> buffsize"
  by (simp add: stream_count_def buffsize_def)

lemma stream_write_pos:
  "stream_ok s \<Longrightarrow> (read_index s + stream_count s) mod buffsize = write_index s"
  by (auto simp: stream_ok_def stream_count_def buffsize_def mod_wrap)

lemma stream_slots_distinct:
  assumes "stream_ok s" and "i < stream_count s" and "stream_count s < buffsize"
  shows "(read_index s + i) mod buffsize \<noteq> write_index s"
proof
  assume "(read_index s + i) mod buffsize = write_index s"
  then have "(read_index s + i) mod 10 = (read_index s + stream_count s) mod 10"
    using stream_write_pos [OF assms(1)] by (simp add: buffsize_def)
  moreover have "read_index s < 10" using assms(1) by (simp add: stream_ok_def buffsize_def)
  ultimately show False using assms(2,3) by (auto simp: buffsize_def mod_wrap split: if_splits)
qed

lemma stream_empty_iff:
  "stream_ok s \<Longrightarrow> stream_count s = 0 \<longleftrightarrow> \<not> write_lock s \<and> read_index s = write_index s"
  by (auto simp: stream_ok_def stream_count_def buffsize_def mod_wrap dvd_eq_mod_eq_0
      simp del: mod_0_imp_dvd mod_eq_0_iff_dvd split: if_splits)

lemma stream_full_iff: "stream_ok s \<Longrightarrow> stream_count s = buffsize \<longleftrightarrow> write_lock s"
  by (auto simp: stream_count_def buffsize_def)

lemma put_count:
  assumes "stream_ok s" and "\<not> write_lock s"
  shows "stream_ok (snd (stream_put f s))"
    and "stream_count (snd (stream_put f s)) = Suc (stream_count s)"
    and "read_index (snd (stream_put f s)) = read_index s"
    and "cf_buffer (snd (stream_put f s)) = (cf_buffer s)[write_index s := f]"
  using assms by (auto simp: stream_ok_def stream_count_def stream_put_def buffsize_def Let_def
      mod_wrap split: if_splits)

lemma get_count:
  assumes "stream_ok s" and "0 < stream_count s"
  shows "stream_ok (snd (stream_get s))"
    and "stream_count s = Suc (stream_count (snd (stream_get s)))"
    and "read_index (snd (stream_get s)) = (read_index s + 1) mod buffsize"
    and "cf_buffer (snd (stream_get s)) = cf_buffer s"
    and "fst (stream_get s) = Some (cf_buffer s ! read_index s)"
  using assms by (auto simp: stream_ok_def stream_count_def stream_get_def buffsize_def Let_def
      mod_wrap split: if_splits)

lemma put_contents:
  assumes "stream_ok s" and "\<not> write_lock s"
  shows "stream_contents (snd (stream_put f s)) = stream_contents s @ [f]"
proof (rule nth_equalityI)
  let ?t = "snd (stream_put f s)"
  have lt: "stream_count s < buffsize"
    using assms stream_full_iff [OF assms(1)] stream_count_le [of s] by linarith
  show "length (stream_contents ?t) = length (stream_contents s @ [f])"
    by (simp add: stream_contents_def put_count(2) [OF assms])
  fix i assume "i < length (stream_contents ?t)"
  then have i: "i < Suc (stream_count s)"
    by (simp add: stream_contents_def put_count(2) [OF assms])
  have w: "write_index s < length (cf_buffer s)" using assms(1) by (simp add: stream_ok_def)
  show "stream_contents ?t ! i = (stream_contents s @ [f]) ! i"
  proof (cases "i = stream_count s")
    case True
    then show ?thesis
      using w stream_write_pos [OF assms(1)]
      by (simp add: stream_contents_def put_count [OF assms] nth_append del: upt_Suc)
  next
    case False
    then have "i < stream_count s" using i by simp
    then show ?thesis
      using stream_slots_distinct [OF assms(1) _ lt, of i]
      by (auto simp: stream_contents_def put_count [OF assms] nth_append simp del: upt_Suc)
  qed
qed

lemma get_contents:
  assumes "stream_ok s" and "0 < stream_count s"
  shows "stream_contents s = cf_buffer s ! read_index s # stream_contents (snd (stream_get s))"
proof -
  have "read_index s mod buffsize = read_index s" using assms(1) by (simp add: stream_ok_def)
  then show ?thesis
    by (simp add: stream_contents_def get_count [OF assms] upt_conv_Cons map_Suc_upt [symmetric]
        mod_simps comp_def del: upt_Suc)
qed

interpretation ring: bounded_fifo stream_put stream_get stream_contents stream_ok buffsize
proof unfold_locales
  fix s :: "'f stream" and x :: 'f and xs
  assume ok: "stream_ok s"
  have len: "length (stream_contents s) = stream_count s" by (simp add: stream_contents_def)
  show "stream_ok (snd (stream_put x s))"
    using put_count(1) [OF ok] ok by (cases "write_lock s") (auto simp: stream_put_def)
  show "stream_ok (snd (stream_get s))"
    using get_count(1) [OF ok] stream_empty_iff [OF ok] ok
    by (cases "stream_count s = 0") (auto simp: stream_get_def)
  show "length (stream_contents s) \<le> buffsize" by (simp add: len stream_count_le)
  show "fst (stream_put x s) \<and> stream_contents (snd (stream_put x s)) = stream_contents s @ [x]"
    if "length (stream_contents s) < buffsize"
    using that put_contents [OF ok] stream_full_iff [OF ok]
    by (auto simp: len) (simp add: stream_put_def Let_def)
  show "stream_put x s = (False, s)" if "length (stream_contents s) = buffsize"
    using that stream_full_iff [OF ok] by (simp add: len stream_put_def)
  show "stream_get s = (None, s)" if "stream_contents s = []"
    using that stream_empty_iff [OF ok] len by (simp add: stream_get_def)
  show "fst (stream_get s) = Some x \<and> stream_contents (snd (stream_get s)) = xs"
    if "stream_contents s = x # xs"
    using that len get_contents [OF ok] get_count(5) [OF ok] by (simp add: len)
qed

lemma stream_init_ok: "length buf = buffsize \<Longrightarrow> stream_ok (stream_init buf)"
  by (simp add: stream_ok_def stream_init_def buffsize_def)

lemma stream_init_contents [simp]: "stream_contents (stream_init buf) = []"
  by (simp add: stream_contents_def stream_count_def stream_init_def buffsize_def)


text \<open>C20. The ring buffer between the receive interrupt and the main loop is a FIFO queue: over any
  run of puts and gets from the constructed buffer, the frames accepted are the frames delivered
  followed by the frames still stored, and at most 10 are stored.\<close>

theorem stream_fifo:
  assumes "length buf = buffsize"
    and "fifo_run stream_put stream_get ops (stream_init buf) = (acc, del, t)"
  shows "acc = del @ stream_contents t \<and> length (stream_contents t) \<le> buffsize"
  using ring.run_from_empty [OF stream_init_ok [OF assms(1)] stream_init_contents assms(2)] by blast

theorem stream_fifo_witness:
  "\<exists>t. fifo_run stream_put stream_get [Get, Put 7, Put 8, Get, Put (9 :: nat)]
         (stream_init (replicate 10 0)) = ([7, 8, 9], [7], t) \<and>
     [7, 8, 9] = [7] @ stream_contents t \<and> length (stream_contents t) \<le> buffsize"
proof -
  obtain t where t: "fifo_run stream_put stream_get [Get, Put 7, Put 8, Get, Put (9 :: nat)]
      (stream_init (replicate 10 0)) = ([7, 8, 9], [7], t)"
    by (simp add: stream_put_def stream_get_def stream_init_def buffsize_def Let_def)
  show ?thesis using t stream_fifo [OF _ t] by (simp add: buffsize_def)
qed

text \<open>A frame is refused exactly when 10 are stored, and then the buffer is unchanged; otherwise
  it is appended. No accepted frame is overwritten.\<close>

theorem stream_put_appends_or_refuses:
  assumes "stream_ok s"
  shows "stream_put x s = (if length (stream_contents s) < buffsize
     then (True, snd (stream_put x s)) else (False, s)) \<and>
     (length (stream_contents s) < buffsize \<longrightarrow>
        stream_contents (snd (stream_put x s)) = stream_contents s @ [x])"
  using ring.put_room [OF assms, of x] ring.put_full [OF assms, of x] ring.within_cap [OF assms]
  by (auto simp: prod_eq_iff)

theorem stream_put_appends_or_refuses_witness:
  "stream_put (5 :: nat) (stream_init (replicate 10 0)) =
     (True, snd (stream_put 5 (stream_init (replicate 10 0)))) \<and>
   stream_contents (snd (stream_put (5 :: nat) (stream_init (replicate 10 0)))) = [5]"
  using stream_put_appends_or_refuses [OF stream_init_ok, of "replicate 10 (0 :: nat)" 5]
  by (simp add: buffsize_def)

end
