(* ===== verification/Float32.thy ===== *)
theory Float32
  imports Prelude
begin

text \<open>
  IEEE-754 binary32 arithmetic, executable. The AVR compiler's \<open>float\<close> and \<open>double\<close> are both
  binary32; the PC program stores its samples in binary32 too. A value is its bit pattern, so the
  unions of the source (\<open>Convertion\<close>, \<open>FloatTo4Bytes\<close>, \<open>my_can_msg\<close>) are
  \<^term>\<open>f_bits\<close> and \<^term>\<open>F32\<close>.

  Every finite binary32 number is an integer multiple of \<open>2^-149\<close>. The grid integer
  \<open>fint x\<close> stands for \<open>x * 2^149\<close>; sums of grid integers are exact, products and quotients are
  fractions of grid integers, and one function rounds such a fraction to nearest, ties to even.
\<close>

datatype f32 = F32 (f_bits: u32)

subsection \<open>Fields and classes of a bit pattern\<close>

definition f_mag :: "f32 \<Rightarrow> nat" where
  "f_mag x = unat (f_bits x) mod 2 ^ 31"

definition f_neg :: "f32 \<Rightarrow> bool" where
  "f_neg x \<longleftrightarrow> 2 ^ 31 \<le> unat (f_bits x)"

definition inf_mag :: nat where
  "inf_mag = 2139095040" \<comment> \<open>\<open>255 * 2^23\<close>\<close>

definition is_nan :: "f32 \<Rightarrow> bool" where
  "is_nan x \<longleftrightarrow> inf_mag < f_mag x"

definition is_inf :: "f32 \<Rightarrow> bool" where
  "is_inf x \<longleftrightarrow> f_mag x = inf_mag"

definition is_fin :: "f32 \<Rightarrow> bool" where
  "is_fin x \<longleftrightarrow> f_mag x < inf_mag"

definition f_make :: "bool \<Rightarrow> nat \<Rightarrow> f32" where
  "f_make neg m = F32 (of_nat (if neg then 2 ^ 31 + m else m))"

definition f_nan :: f32 where
  "f_nan = F32 0x7FC00000"

definition f_inf :: "bool \<Rightarrow> f32" where
  "f_inf neg = f_make neg inf_mag"

lemma f_mag_bound: "f_mag x < 2 ^ 31"
  by (simp add: f_mag_def)

lemma f_make_fields:
  assumes "m < 2 ^ 31"
  shows "f_mag (f_make neg m) = m" and "f_neg (f_make neg m) = neg"
  using assms by (auto simp: f_make_def f_mag_def f_neg_def unat_of_nat)

subsection \<open>Values on the grid\<close>

definition mag_val :: "nat \<Rightarrow> nat" where
  "mag_val b = (let e = b div 2 ^ 23; m = b mod 2 ^ 23 in
     if e = 0 then m else (2 ^ 23 + m) * 2 ^ (e - 1))"

definition fint :: "f32 \<Rightarrow> int" where
  "fint x = (if f_neg x then - int (mag_val (f_mag x)) else int (mag_val (f_mag x)))"

definition fval :: "f32 \<Rightarrow> real" where
  "fval x = real_of_int (fint x) / 2 ^ 149"

lemma abs_fint: "\<bar>fint x\<bar> = int (mag_val (f_mag x))"
  by (simp add: fint_def)

lemma mag_val_encode:
  assumes "m \<le> 2 ^ 24" and "s = 0 \<or> 2 ^ 23 \<le> m"
  shows "mag_val (s * 2 ^ 23 + m) = m * 2 ^ s"
proof -
  consider "m < 2 ^ 23" | "2 ^ 23 \<le> m" "m < 2 ^ 24" | "m = 2 ^ 24"
    using assms(1) by linarith
  then show ?thesis
  proof cases
    case 1
    with assms(2) show ?thesis by (simp add: mag_val_def)
  next
    case 2
    define q where "q = m - 2 ^ 23"
    have q: "m = 2 ^ 23 + q" "q < 2 ^ 23" using 2 by (auto simp: q_def)
    have "s * 2 ^ 23 + m = q + (s + 1) * 2 ^ 23" using q by simp
    then have "(s * 2 ^ 23 + m) div 2 ^ 23 = s + 1" "(s * 2 ^ 23 + m) mod 2 ^ 23 = q"
      using q(2) by (simp_all only: div_mult_self1 mod_mult_self1 div_less mod_less)
    then show ?thesis using q by (simp add: mag_val_def)
  next
    case 3
    have "s * 2 ^ 23 + m = (s + 2) * 2 ^ 23" using 3 by simp
    then show ?thesis using 3 by (simp add: mag_val_def)
  qed
qed

lemma mag_val_step: "mag_val b < mag_val (Suc b)"
proof -
  define e m where "e = b div 2 ^ 23" and "m = b mod 2 ^ 23"
  have b: "b = e * 2 ^ 23 + m" and m: "m < 2 ^ 23"
    by (simp_all add: e_def m_def)
  show ?thesis
  proof (cases e)
    case 0
    then show ?thesis
      using mag_val_encode [of m 0] mag_val_encode [of "Suc m" 0] b m by simp
  next
    case (Suc s)
    have "b = s * 2 ^ 23 + (2 ^ 23 + m)" "Suc b = s * 2 ^ 23 + (2 ^ 23 + Suc m)"
      using b Suc by simp_all
    then have "mag_val b = (2 ^ 23 + m) * 2 ^ s" "mag_val (Suc b) = (2 ^ 23 + Suc m) * 2 ^ s"
      using mag_val_encode [of "2 ^ 23 + m" s] mag_val_encode [of "2 ^ 23 + Suc m" s] m
      by (simp_all only:) simp_all
    then show ?thesis by simp
  qed
qed

lemma mag_val_less_iff [simp]: "mag_val a < mag_val b \<longleftrightarrow> a < b"
proof -
  have "strict_mono mag_val" by (simp add: strict_mono_Suc_iff mag_val_step)
  then show ?thesis by (simp add: strict_mono_less)
qed

lemma mag_val_0 [simp]: "mag_val 0 = 0"
  by (simp add: mag_val_def)

lemma mag_val_pos_iff: "0 < mag_val b \<longleftrightarrow> 0 < b"
  using mag_val_less_iff [of 0 b] by simp

subsection \<open>Comparison\<close>

text \<open>
  The order key is monotone in the value and covers the infinities; both zeros have key 0.
  Comparisons with a NaN are false, as in C++.
\<close>

definition f_key :: "f32 \<Rightarrow> int" where
  "f_key x = (if f_neg x then - int (f_mag x) else int (f_mag x))"

definition f_eq :: "f32 \<Rightarrow> f32 \<Rightarrow> bool" where
  "f_eq x y \<longleftrightarrow> \<not> is_nan x \<and> \<not> is_nan y \<and> f_key x = f_key y"

instantiation f32 :: ord
begin

definition less_f32 :: "f32 \<Rightarrow> f32 \<Rightarrow> bool" where
  "x < y \<longleftrightarrow> \<not> is_nan x \<and> \<not> is_nan y \<and> f_key x < f_key y"

definition less_eq_f32 :: "f32 \<Rightarrow> f32 \<Rightarrow> bool" where
  "x \<le> y \<longleftrightarrow> \<not> is_nan x \<and> \<not> is_nan y \<and> f_key x \<le> f_key y"

instance ..

end

lemma f_not_less: "\<not> is_nan x \<Longrightarrow> \<not> is_nan y \<Longrightarrow> \<not> x < y \<longleftrightarrow> y \<le> (x :: f32)"
  by (auto simp: less_f32_def less_eq_f32_def)

lemma f_le_trans: "x \<le> y \<Longrightarrow> y \<le> z \<Longrightarrow> x \<le> (z :: f32)"
  by (auto simp: less_eq_f32_def)

lemma f_less_le_trans: "x < y \<Longrightarrow> y \<le> z \<Longrightarrow> x < (z :: f32)"
  by (auto simp: less_eq_f32_def less_f32_def)

lemma f_le_refl_iff: "x \<le> (x :: f32) \<longleftrightarrow> \<not> is_nan x"
  by (auto simp: less_eq_f32_def)

lemma f_less_imp_le: "x < y \<Longrightarrow> x \<le> (y :: f32)"
  by (auto simp: less_eq_f32_def less_f32_def)

lemma f_not_nan_of_less: "x < y \<Longrightarrow> \<not> is_nan x \<and> \<not> is_nan (y :: f32)"
  by (simp add: less_f32_def)

lemma fint_less_iff: "fint x < fint y \<longleftrightarrow> f_key x < f_key y"
proof -
  have le: "mag_val a \<le> mag_val b \<longleftrightarrow> a \<le> b" for a b
    by (simp flip: not_less)
  show ?thesis
    using mag_val_pos_iff [of "f_mag x"] mag_val_pos_iff [of "f_mag y"]
    by (auto simp: fint_def f_key_def)
qed

lemma fval_less_iff: "fval x < fval y \<longleftrightarrow> f_key x < f_key y"
  by (simp add: fval_def divide_less_cancel fint_less_iff)

lemma f_fin_not_nan: "is_fin x \<Longrightarrow> \<not> is_nan x"
  by (simp add: is_fin_def is_nan_def)

lemma f_less_fval: "is_fin x \<Longrightarrow> is_fin y \<Longrightarrow> x < y \<longleftrightarrow> fval x < fval y"
  by (simp add: less_f32_def fval_less_iff f_fin_not_nan)

lemma f_le_fval: "is_fin x \<Longrightarrow> is_fin y \<Longrightarrow> x \<le> y \<longleftrightarrow> fval x \<le> fval y"
  using f_not_less [of y x] f_less_fval [of y x] by (auto simp: f_fin_not_nan)


subsection \<open>Rounding\<close>

text \<open>
  The scale at which a magnitude with integer part \<^term>\<open>k\<close> keeps 24 significant bits. The steps
  of 64 and 8 only shorten the evaluation; \<open>fshift_bounds\<close> says what the result is.
\<close>

function fshift :: "nat \<Rightarrow> nat" where
  "fshift k =
     (if k < 2 ^ 24 then 0
      else if 2 ^ 88 \<le> k then 64 + fshift (k div 2 ^ 64)
      else if 2 ^ 32 \<le> k then 8 + fshift (k div 2 ^ 8)
      else 1 + fshift (k div 2))"
  by pat_completeness auto
termination
  by (relation "measure id") auto

declare fshift.simps [simp del]

lemma fshift_small: "k < 2 ^ 24 \<Longrightarrow> fshift k = 0"
  by (simp add: fshift.simps)

lemma div_power_add: "(k::nat) div 2 ^ (a + b) = k div 2 ^ a div 2 ^ b"
  by (simp add: power_add div_mult2_eq)

lemma fshift_bounds:
  "2 ^ 24 \<le> k \<Longrightarrow> 2 ^ 23 \<le> k div 2 ^ fshift k \<and> k div 2 ^ fshift k < 2 ^ 24"
proof (induction k rule: fshift.induct)
  case (1 k)
  note unfold = fshift.simps [of k]
  consider (big) "2 ^ 88 \<le> k" | (mid) "2 ^ 32 \<le> k" "\<not> 2 ^ 88 \<le> k" | (low) "k < 2 ^ 32"
    by linarith
  then show ?case
  proof cases
    case big
    then have "2 ^ 24 \<le> k div 2 ^ 64" by simp
    with big "1.IH"(1) "1.prems" show ?thesis by (simp add: unfold power_add div_mult2_eq)
  next
    case mid
    then have "2 ^ 24 \<le> k div 2 ^ 8" by simp
    with mid "1.IH"(2) "1.prems" show ?thesis by (simp add: unfold power_add div_mult2_eq)
  next
    case low
    have step: "fshift k = 1 + fshift (k div 2)" using low "1.prems" by (simp add: unfold)
    show ?thesis
    proof (cases "2 ^ 24 \<le> k div 2")
      case True
      with low "1.IH"(3) "1.prems" show ?thesis by (simp add: step div_mult2_eq)
    next
      case False
      with "1.prems" show ?thesis by (simp add: step fshift_small)
    qed
  qed
qed

text \<open>
  The magnitude bits of \<open>n / d\<close> (in grid units) rounded to nearest, ties to even. An exponent
  field of 255 is infinity.
\<close>

definition round_even :: "nat \<Rightarrow> nat \<Rightarrow> nat" where
  "round_even n d = (let m = n div d; r = n mod d in
     if d < 2 * r \<or> (2 * r = d \<and> odd m) then m + 1 else m)"

definition round_mag :: "nat \<Rightarrow> nat \<Rightarrow> nat" where
  "round_mag n d = (let s = fshift (n div d) in
     min inf_mag (s * 2 ^ 23 + round_even n (d * 2 ^ s)))"

definition f_round :: "bool \<Rightarrow> nat \<Rightarrow> nat \<Rightarrow> f32" where
  "f_round neg n d = f_make neg (round_mag n d)"

lemma round_even_error:
  "0 < d \<Longrightarrow> 2 * \<bar>int (round_even n d) * int d - int n\<bar> \<le> int d"
proof -
  assume d: "0 < d"
  have "n = (n div d) * d + n mod d" by simp
  then have "int n = int (n div d) * int d + int (n mod d)"
    by (metis of_nat_add of_nat_mult)
  then show ?thesis
    using d by (auto simp: round_even_def Let_def algebra_simps)
qed

lemma round_even_range: "n div d \<le> round_even n d \<and> round_even n d \<le> Suc (n div d)"
  by (simp add: round_even_def Let_def)

lemma round_mag_le: "round_mag n d \<le> inf_mag"
  by (simp add: round_mag_def Let_def)

lemma round_mantissa:
  fixes n d :: nat
  assumes "0 < d"
  defines "s \<equiv> fshift (n div d)"
  shows "round_even n (d * 2 ^ s) \<le> 2 ^ 24"
    and "s = 0 \<or> 2 ^ 23 \<le> round_even n (d * 2 ^ s)"
    and "2 ^ s * 2 ^ 23 \<le> n div d \<or> s = 0"
proof -
  have div: "n div (d * 2 ^ s) = n div d div 2 ^ s" by (simp add: div_mult2_eq)
  show "round_even n (d * 2 ^ s) \<le> 2 ^ 24"
    and "s = 0 \<or> 2 ^ 23 \<le> round_even n (d * 2 ^ s)"
    using round_even_range [of n "d * 2 ^ s"] fshift_bounds [of "n div d"]
      fshift_small [of "n div d"]
    unfolding div s_def [symmetric]
    by (cases "n div d < 2 ^ 24"; force)+
  show "2 ^ s * 2 ^ 23 \<le> n div d \<or> s = 0"
  proof (cases "n div d < 2 ^ 24")
    case True
    then show ?thesis by (simp add: s_def fshift_small)
  next
    case False
    then have "2 ^ s * 2 ^ 23 \<le> 2 ^ s * (n div d div 2 ^ s)"
      using fshift_bounds [of "n div d"] by (intro mult_le_mono2) (simp add: s_def)
    also have "\<dots> \<le> n div d" by simp
    finally show ?thesis by simp
  qed
qed

lemma mag_val_round:
  assumes "0 < d" and "round_mag n d < inf_mag"
  shows "mag_val (round_mag n d) =
         round_even n (d * 2 ^ fshift (n div d)) * 2 ^ fshift (n div d)"
proof -
  define s m where "s = fshift (n div d)" and "m = round_even n (d * 2 ^ s)"
  have "round_mag n d = s * 2 ^ 23 + m"
    using assms(2) by (simp add: round_mag_def Let_def min_def s_def m_def split: if_splits)
  moreover have "mag_val (s * 2 ^ 23 + m) = m * 2 ^ s"
    using round_mantissa(1,2) [OF assms(1), of n] by (intro mag_val_encode) (simp_all add: s_def m_def)
  ultimately show ?thesis by (simp add: s_def m_def)
qed

text \<open>
  The rounding error, in grid units: at most half a unit, or one part in \<open>2^24\<close>.
\<close>

lemma round_mag_error:
  assumes "0 < d" and "round_mag n d < inf_mag"
  shows "2 * \<bar>int (mag_val (round_mag n d)) * int d - int n\<bar> * 2 ^ 23 \<le> max (int d * 2 ^ 23) (int n)"
proof -
  define s where "s = fshift (n div d)"
  define m where "m = round_even n (d * 2 ^ s)"
  have val: "mag_val (round_mag n d) = m * 2 ^ s"
    using mag_val_round [OF assms] by (simp add: s_def m_def)
  have err: "2 * \<bar>int m * (int d * 2 ^ s) - int n\<bar> \<le> int d * 2 ^ s"
    using round_even_error [of "d * 2 ^ s" n] assms(1) by (simp add: m_def)
  have "s = 0 \<or> d * (2 ^ s * 2 ^ 23) \<le> d * (n div d)"
    using round_mantissa(3) [OF assms(1), of n] by (auto simp: s_def)
  then have "int d * 2 ^ s * 2 ^ 23 \<le> max (int d * 2 ^ 23) (int n)"
  proof
    assume "d * (2 ^ s * 2 ^ 23) \<le> d * (n div d)"
    also have "\<dots> \<le> n" by simp
    finally have "int (d * (2 ^ s * 2 ^ 23)) \<le> int n" by (simp only: of_nat_le_iff)
    then show ?thesis by (simp add: algebra_simps)
  qed simp
  moreover have "2 * \<bar>int m * (int d * 2 ^ s) - int n\<bar> * 2 ^ 23 \<le> int d * 2 ^ s * 2 ^ 23"
    using err by simp
  ultimately show ?thesis by (simp add: val algebra_simps)
qed

text \<open>A value with at most 24 significant bits is represented exactly.\<close>

lemma round_mag_exact:
  assumes d: "0 < d" and c: "c < 2 ^ 24" and t: "t < 250"
  shows "round_mag (d * (c * 2 ^ t)) d < inf_mag"
    and "mag_val (round_mag (d * (c * 2 ^ t)) d) = c * 2 ^ t"
proof -
  define k where "k = c * 2 ^ t"
  define s where "s = fshift k"
  have div: "d * k div d = k" using d by simp
  have st: "s \<le> t"
  proof (rule ccontr)
    assume "\<not> s \<le> t"
    then have "0 < s" "2 * 2 ^ t \<le> (2 ^ s :: nat)"
      using power_increasing [of "Suc t" s "2::nat"] by simp_all
    then have "2 * 2 ^ t * 2 ^ 23 \<le> (2 ^ s * 2 ^ 23 :: nat)" by simp
    also have "\<dots> \<le> k"
      using round_mantissa(3) [OF d, of "d * k"] \<open>0 < s\<close> by (simp add: s_def div)
    also have "\<dots> < 2 ^ 24 * 2 ^ t" using c by (simp add: k_def)
    finally show False by simp
  qed
  define m where "m = c * 2 ^ (t - s)"
  have k: "k = m * 2 ^ s" using st by (simp add: k_def m_def flip: power_add)
  have m: "round_even (d * k) (d * 2 ^ s) = m"
    using d by (simp add: round_even_def Let_def k)
  have "m \<le> 2 ^ 24" "s < 250" using round_mantissa(1) [OF d, of "d * k"] m st t
    by (simp_all add: div s_def)
  then have "s * 2 ^ 23 + m < inf_mag" by (simp add: inf_mag_def)
  then have mag: "round_mag (d * k) d = s * 2 ^ 23 + m"
    by (simp add: round_mag_def Let_def div m flip: s_def)
  then show "round_mag (d * (c * 2 ^ t)) d < inf_mag"
    using \<open>s * 2 ^ 23 + m < inf_mag\<close> by (simp flip: k_def)
  have lt: "round_mag (d * k) d < inf_mag"
    using \<open>s * 2 ^ 23 + m < inf_mag\<close> by (simp only: mag)
  have "mag_val (round_mag (d * k) d) = m * 2 ^ s"
    using mag_val_round [OF d lt] by (simp only: div m flip: s_def)
  then show "mag_val (round_mag (d * (c * 2 ^ t)) d) = c * 2 ^ t"
    by (simp only: k flip: k_def)
qed

lemma f_round_fields [simp]:
  "f_mag (f_round neg n d) = round_mag n d" "f_neg (f_round neg n d) = neg"
  using round_mag_le [of n d] by (simp_all add: f_round_def f_make_fields inf_mag_def)

lemma f_round_not_nan: "\<not> is_nan (f_round neg n d)"
  using round_mag_le [of n d] by (simp add: is_nan_def)

text \<open>The same error bound on real numbers, for a fraction \<open>n / d\<close> of grid units.\<close>

definition signed :: "bool \<Rightarrow> real \<Rightarrow> real" where
  "signed neg r = (if neg then - r else r)"

lemma abs_signed_diff: "\<bar>signed neg a - signed neg b\<bar> = \<bar>a - b\<bar>"
  by (auto simp: signed_def)

lemma f_round_error:
  assumes d: "0 < d" and fin: "is_fin (f_round neg n d)"
  shows "\<bar>fval (f_round neg n d) - signed neg (real n / (real d * 2 ^ 149))\<bar>
           \<le> max (1 / 2 ^ 150) (real n / (real d * 2 ^ 149) / 2 ^ 24)"
proof -
  define v where "v = mag_val (round_mag n d)"
  have "2 * \<bar>int v * int d - int n\<bar> * 2 ^ 23 \<le> max (int d * 2 ^ 23) (int n)"
    using round_mag_error [OF d, of n] fin by (simp add: is_fin_def v_def)
  then have "real_of_int (2 * \<bar>int v * int d - int n\<bar> * 2 ^ 23)
               \<le> real_of_int (max (int d * 2 ^ 23) (int n))"
    by (simp only: of_int_le_iff)
  then have err: "\<bar>real v * real d - real n\<bar> * 2 ^ 24 \<le> max (real d * 2 ^ 23) (real n)"
    by (simp add: of_int_max)
  have "fval (f_round neg n d) = signed neg (real v / 2 ^ 149)"
    by (simp add: fval_def fint_def v_def signed_def)
  then have "\<bar>fval (f_round neg n d) - signed neg (real n / (real d * 2 ^ 149))\<bar>
          = \<bar>real v / 2 ^ 149 - real n / (real d * 2 ^ 149)\<bar>"
    by (simp only: abs_signed_diff)
  also have "real v / 2 ^ 149 - real n / (real d * 2 ^ 149)
          = (real v * real d - real n) / (real d * 2 ^ 149)"
    using d by (simp add: field_simps)
  also have "\<bar>\<dots>\<bar> = \<bar>real v * real d - real n\<bar> / (real d * 2 ^ 149)"
    by (simp add: abs_divide abs_mult)
  also have "\<dots> = \<bar>real v * real d - real n\<bar> * 2 ^ 24 / (real d * 2 ^ 149 * 2 ^ 24)"
    by simp
  also have "\<dots> \<le> max (real d * 2 ^ 23) (real n) / (real d * 2 ^ 149 * 2 ^ 24)"
    using err d by (intro divide_right_mono) simp_all
  also have "\<dots> = max (1 / 2 ^ 150) (real n / (real d * 2 ^ 149) / 2 ^ 24)"
    using d by (auto simp: max_def field_simps)
  finally show ?thesis .
qed


subsection \<open>Arithmetic\<close>

text \<open>Every NaN result is the quiet NaN; a zero sum of opposite operands is \<open>+0\<close>.\<close>

definition f_add :: "f32 \<Rightarrow> f32 \<Rightarrow> f32" where
  "f_add x y =
     (if is_nan x \<or> is_nan y \<or> (is_inf x \<and> is_inf y \<and> f_neg x \<noteq> f_neg y) then f_nan
      else if is_inf x then x
      else if is_inf y then y
      else let s = fint x + fint y in
        if s = 0 then f_make (f_neg x \<and> f_neg y) 0
        else f_round (s < 0) (nat \<bar>s\<bar>) 1)"

definition f_uminus :: "f32 \<Rightarrow> f32" where
  "f_uminus x = f_make (\<not> f_neg x) (f_mag x)"

definition f_mult :: "f32 \<Rightarrow> f32 \<Rightarrow> f32" where
  "f_mult x y =
     (let neg = (f_neg x \<noteq> f_neg y) in
      if is_nan x \<or> is_nan y \<or> (is_inf x \<and> f_mag y = 0) \<or> (f_mag x = 0 \<and> is_inf y) then f_nan
      else if is_inf x \<or> is_inf y then f_inf neg
      else f_round neg (mag_val (f_mag x) * mag_val (f_mag y)) (2 ^ 149))"

definition f_divide :: "f32 \<Rightarrow> f32 \<Rightarrow> f32" where
  "f_divide x y =
     (let neg = (f_neg x \<noteq> f_neg y) in
      if is_nan x \<or> is_nan y \<or> (is_inf x \<and> is_inf y) \<or> (f_mag x = 0 \<and> f_mag y = 0) then f_nan
      else if is_inf x \<or> f_mag y = 0 then f_inf neg
      else if is_inf y then f_make neg 0
      else f_round neg (mag_val (f_mag x) * 2 ^ 149) (mag_val (f_mag y)))"

text \<open>Integer to float, decimal literals (a fraction), and the powers of ten literals use.\<close>

definition f_int :: "int \<Rightarrow> f32" where
  "f_int i = f_round (i < 0) (nat \<bar>i\<bar> * 2 ^ 149) 1"

definition f_dec :: "nat \<Rightarrow> nat \<Rightarrow> f32" where
  "f_dec n d = f_round False (n * 2 ^ 149) d"

instantiation f32 :: "{zero, one, plus, uminus, minus, times, inverse}"
begin

definition zero_f32 :: f32 where "0 = F32 0"
definition one_f32 :: f32 where "1 = f_int 1"
definition plus_f32 :: "f32 \<Rightarrow> f32 \<Rightarrow> f32" where "x + y = f_add x y"
definition uminus_f32 :: "f32 \<Rightarrow> f32" where "- x = f_uminus x"
definition minus_f32 :: "f32 \<Rightarrow> f32 \<Rightarrow> f32" where "x - y = f_add x (f_uminus y)"
definition times_f32 :: "f32 \<Rightarrow> f32 \<Rightarrow> f32" where "x * y = f_mult x y"
definition divide_f32 :: "f32 \<Rightarrow> f32 \<Rightarrow> f32" where "x div y = f_divide x y"
definition inverse_f32 :: "f32 \<Rightarrow> f32" where "inverse x = f_divide (f_int 1) x"

instance ..

end

lemmas f_arith_defs = plus_f32_def uminus_f32_def minus_f32_def times_f32_def divide_f32_def
  f_add_def f_uminus_def f_mult_def f_divide_def

text \<open>
  Float to integer truncates toward zero; a value that does not fit the type is undefined
  behaviour. The bounds are those of the target type.
\<close>

definition f_trunc :: "f32 \<Rightarrow> int" where
  "f_trunc x = sgn (fint x) * (\<bar>fint x\<bar> div 2 ^ 149)"

definition f_to_int :: "int \<Rightarrow> int \<Rightarrow> f32 \<Rightarrow> int option" where
  "f_to_int lo hi x =
     (if is_fin x \<and> lo \<le> f_trunc x \<and> f_trunc x \<le> hi then Some (f_trunc x) else None)"

text \<open>The macros \<open>abs\<close>, \<open>max\<close> and \<open>round\<close> of Arduino.h; \<open>round\<close> casts to \<open>long\<close>.\<close>

definition f_abs :: "f32 \<Rightarrow> f32" where
  "f_abs x = (if 0 < x then x else - x)"

definition f_max :: "f32 \<Rightarrow> f32 \<Rightarrow> f32" where
  "f_max a b = (if b < a then a else b)"

definition round_macro :: "f32 \<Rightarrow> int option" where
  "round_macro x = f_to_int (- 2147483648) 2147483647
     (if 0 \<le> x then x + f_dec 5 10 else x - f_dec 5 10)"

subsection \<open>Error bounds of the operations\<close>

lemma f_round_fin:
  assumes d: "0 < d" and n: "n < d * 2 ^ 249"
  shows "is_fin (f_round neg n d)"
proof -
  define s where "s = fshift (n div d)"
  have k: "n div d < 2 ^ 249" using d n by (simp add: div_less_iff_less_mult mult.commute)
  have "s < 226"
  proof (rule ccontr)
    assume "\<not> s < 226"
    then have "(2 :: nat) ^ 249 \<le> 2 ^ (s + 23)" by (intro power_increasing) simp_all
    also have "\<dots> \<le> n div d"
      using round_mantissa(3) [OF d, of n] \<open>\<not> s < 226\<close> by (auto simp: s_def power_add)
    finally show False using k by linarith
  qed
  moreover have "round_even n (d * 2 ^ s) \<le> 2 ^ 24"
    using round_mantissa(1) [OF d, of n] by (simp add: s_def)
  ultimately have "s * 2 ^ 23 + round_even n (d * 2 ^ s) < inf_mag" by (simp add: inf_mag_def)
  then show ?thesis by (simp add: is_fin_def round_mag_def Let_def flip: s_def)
qed

lemma fval_signed: "fval x = signed (f_neg x) (real (mag_val (f_mag x)) / 2 ^ 149)"
  by (simp add: fval_def fint_def signed_def)

lemma f_int_exact:
  assumes "\<bar>i\<bar> < 2 ^ 24"
  shows "is_fin (f_int i)" and "fval (f_int i) = of_int i"
proof -
  have c: "nat \<bar>i\<bar> < 2 ^ 24" using assms by simp
  have m: "round_mag (nat \<bar>i\<bar> * 2 ^ 149) 1 < inf_mag"
    "mag_val (round_mag (nat \<bar>i\<bar> * 2 ^ 149) 1) = nat \<bar>i\<bar> * 2 ^ 149"
    using round_mag_exact [of 1 "nat \<bar>i\<bar>" 149] c by simp_all
  show "is_fin (f_int i)" using m(1) by (simp add: f_int_def is_fin_def)
  have "fval (f_int i) = signed (i < 0) (real (nat \<bar>i\<bar> * 2 ^ 149) / 2 ^ 149)"
    by (simp only: f_int_def fval_signed f_round_fields m(2))
  then show "fval (f_int i) = of_int i" by (simp add: signed_def)
qed

lemma f_fin_classes: "is_fin x \<Longrightarrow> \<not> is_nan x \<and> \<not> is_inf x"
  by (auto simp: is_fin_def is_nan_def is_inf_def)

lemma f_mult_finite:
  assumes "is_fin x" "is_fin y"
  shows "x * y = f_round (f_neg x \<noteq> f_neg y) (mag_val (f_mag x) * mag_val (f_mag y)) (2 ^ 149)"
  using assms by (simp add: times_f32_def f_mult_def Let_def f_fin_classes)

lemma f_divide_finite:
  assumes "is_fin x" "is_fin y" "f_mag y \<noteq> 0"
  shows "x / y = f_round (f_neg x \<noteq> f_neg y) (mag_val (f_mag x) * 2 ^ 149) (mag_val (f_mag y))"
  using assms by (simp add: divide_f32_def f_divide_def Let_def f_fin_classes)

lemma fval_eq_0_iff: "fval x = 0 \<longleftrightarrow> f_mag x = 0"
  using mag_val_pos_iff [of "f_mag x"] by (auto simp: fval_signed signed_def)

lemma f_mult_error:
  assumes "is_fin x" "is_fin y" "\<bar>fval x * fval y\<bar> < 2 ^ 100"
  shows "is_fin (x * y)"
    and "\<bar>fval (x * y) - fval x * fval y\<bar> \<le> max (1 / 2 ^ 150) (\<bar>fval x * fval y\<bar> / 2 ^ 24)"
proof -
  define a b where "a = mag_val (f_mag x)" and "b = mag_val (f_mag y)"
  have val: "fval x * fval y = signed (f_neg x \<noteq> f_neg y) (real (a * b) / (2 ^ 149 * 2 ^ 149))"
    by (simp add: fval_signed signed_def a_def b_def)
  then have "real (a * b) / (2 ^ 149 * 2 ^ 149) < 2 ^ 100"
    using assms(3) by (simp add: signed_def split: if_splits)
  then have "real (a * b) < real (2 ^ 149 * 2 ^ 249)" by (simp add: field_simps)
  then have "a * b < 2 ^ 149 * 2 ^ 249" by (simp only: of_nat_less_iff)
  then show fin: "is_fin (x * y)"
    using assms f_round_fin [of "2 ^ 149" "a * b"] by (simp add: f_mult_finite a_def b_def)
  have "\<bar>fval x * fval y\<bar> = real (a * b) / (real (2 ^ 149) * 2 ^ 149)"
    by (simp add: val signed_def)
  then show "\<bar>fval (x * y) - fval x * fval y\<bar> \<le> max (1 / 2 ^ 150) (\<bar>fval x * fval y\<bar> / 2 ^ 24)"
    using f_round_error [of "2 ^ 149" "f_neg x \<noteq> f_neg y" "a * b"] fin assms(1,2)
    by (simp add: f_mult_finite a_def b_def val)
qed

lemma f_divide_error:
  assumes "is_fin x" "is_fin y" "fval y \<noteq> 0" "\<bar>fval x / fval y\<bar> < 2 ^ 100"
  shows "is_fin (x / y)"
    and "\<bar>fval (x / y) - fval x / fval y\<bar> \<le> max (1 / 2 ^ 150) (\<bar>fval x / fval y\<bar> / 2 ^ 24)"
proof -
  define a b where "a = mag_val (f_mag x)" and "b = mag_val (f_mag y)"
  have b: "0 < b" using assms(3) by (simp add: fval_eq_0_iff b_def mag_val_pos_iff)
  have frac: "real a / real b = real (a * 2 ^ 149) / (real b * 2 ^ 149)"
    using b by (simp add: field_simps)
  have val: "fval x / fval y = signed (f_neg x \<noteq> f_neg y) (real (a * 2 ^ 149) / (real b * 2 ^ 149))"
    by (simp only: flip: frac) (simp add: fval_signed signed_def a_def b_def)
  then have "real (a * 2 ^ 149) / (real b * 2 ^ 149) < 2 ^ 100"
    using assms(4) by (simp add: signed_def split: if_splits)
  then have "real (a * 2 ^ 149) < real (b * 2 ^ 249)" using b by (simp add: field_simps)
  then have "a * 2 ^ 149 < b * 2 ^ 249" by (simp only: of_nat_less_iff)
  then show fin: "is_fin (x / y)"
    using assms b f_round_fin [of b "a * 2 ^ 149"]
    by (simp add: f_divide_finite fval_eq_0_iff a_def b_def)
  have "\<bar>fval x / fval y\<bar> = real (a * 2 ^ 149) / (real b * 2 ^ 149)"
    by (simp add: val signed_def)
  then show "\<bar>fval (x / y) - fval x / fval y\<bar> \<le> max (1 / 2 ^ 150) (\<bar>fval x / fval y\<bar> / 2 ^ 24)"
    using f_round_error [of b "f_neg x \<noteq> f_neg y" "a * 2 ^ 149"] fin assms(1-3) b
    by (simp add: f_divide_finite fval_eq_0_iff a_def b_def val)
qed

lemma f_add_error:
  assumes "is_fin x" "is_fin y" "\<bar>fval x + fval y\<bar> < 2 ^ 100"
  shows "is_fin (x + y)"
    and "\<bar>fval (x + y) - (fval x + fval y)\<bar> \<le> max (1 / 2 ^ 150) (\<bar>fval x + fval y\<bar> / 2 ^ 24)"
proof -
  define s where "s = fint x + fint y"
  have val: "fval x + fval y = of_int s / 2 ^ 149" by (simp add: s_def fval_def add_divide_distrib)
  have sum: "x + y = (if s = 0 then f_make (f_neg x \<and> f_neg y) 0 else f_round (s < 0) (nat \<bar>s\<bar>) 1)"
    using assms(1,2) by (simp add: plus_f32_def f_add_def Let_def f_fin_classes s_def)
  have "\<bar>real_of_int s\<bar> / 2 ^ 149 < 2 ^ 100" using assms(3) by (simp add: val)
  then have "real_of_int \<bar>s\<bar> < real_of_int (2 ^ 249)" by (simp add: field_simps)
  then have "\<bar>s\<bar> < 2 ^ 249" by (simp only: of_int_less_iff)
  then have fin: "is_fin (f_round (s < 0) (nat \<bar>s\<bar>) 1)" by (intro f_round_fin) (simp_all add: nat_less_iff)
  have zero: "is_fin (f_make b 0)" "fval (f_make b 0) = 0" for b
    using f_make_fields [of 0 b] by (simp_all add: is_fin_def inf_mag_def fval_eq_0_iff)
  show "is_fin (x + y)" using fin zero by (simp add: sum)
  have abs: "signed (s < 0) (real (nat \<bar>s\<bar>) / (real 1 * 2 ^ 149)) = fval x + fval y"
    by (simp add: val signed_def)
  have mag: "\<bar>fval x + fval y\<bar> = real (nat \<bar>s\<bar>) / (real 1 * 2 ^ 149)" by (simp add: val)
  show "\<bar>fval (x + y) - (fval x + fval y)\<bar> \<le> max (1 / 2 ^ 150) (\<bar>fval x + fval y\<bar> / 2 ^ 24)"
  proof (cases "s = 0")
    case True
    then show ?thesis using val zero by (simp add: sum)
  next
    case False
    then show ?thesis
      using f_round_error [of 1 "s < 0" "nat \<bar>s\<bar>", OF _ fin, unfolded abs, folded mag]
      by (simp only: sum if_False zero_less_one simp_thms)
  qed
qed

subsection \<open>Evaluation\<close>

text \<open>
  Evaluation of closed float terms by the simplifier: each intermediate number is an argument of
  an auxiliary function, so that it is computed once.
\<close>

definition mag_val_aux :: "nat \<Rightarrow> nat \<Rightarrow> nat" where
  "mag_val_aux e m = (if e = 0 then m else (2 ^ 23 + m) * 2 ^ (e - 1))"

definition round_even_aux :: "nat \<Rightarrow> nat \<Rightarrow> nat \<Rightarrow> nat" where
  "round_even_aux m r d = (if d < 2 * r then m + 1 else if 2 * r = d \<and> odd m then m + 1 else m)"

definition round_mag_aux :: "nat \<Rightarrow> nat \<Rightarrow> nat \<Rightarrow> nat" where
  "round_mag_aux s n d = min inf_mag (s * 2 ^ 23 + round_even n (d * 2 ^ s))"

definition f_add_aux :: "int \<Rightarrow> bool \<Rightarrow> f32" where
  "f_add_aux s z = (if s = 0 then f_make z 0 else f_round (s < 0) (nat \<bar>s\<bar>) 1)"

lemma mag_val_eval: "mag_val b = mag_val_aux (b div 2 ^ 23) (b mod 2 ^ 23)"
  by (simp add: mag_val_def mag_val_aux_def Let_def)

lemma round_even_eval: "round_even n d = round_even_aux (n div d) (n mod d) d"
  by (simp add: round_even_def round_even_aux_def Let_def)

lemma round_mag_eval: "round_mag n d = round_mag_aux (fshift (n div d)) n d"
  by (simp add: round_mag_def round_mag_aux_def Let_def)

lemma f_add_eval: "f_add x y =
     (if is_nan x \<or> is_nan y \<or> (is_inf x \<and> is_inf y \<and> f_neg x \<noteq> f_neg y) then f_nan
      else if is_inf x then x
      else if is_inf y then y
      else f_add_aux (fint x + fint y) (f_neg x \<and> f_neg y))"
  by (simp add: f_add_def f_add_aux_def Let_def)

lemma f_mult_eval: "f_mult x y =
     (if is_nan x \<or> is_nan y \<or> (is_inf x \<and> f_mag y = 0) \<or> (f_mag x = 0 \<and> is_inf y) then f_nan
      else if is_inf x \<or> is_inf y then f_inf (f_neg x \<noteq> f_neg y)
      else f_round (f_neg x \<noteq> f_neg y) (mag_val (f_mag x) * mag_val (f_mag y)) (2 ^ 149))"
  by (simp add: f_mult_def Let_def)

lemma f_divide_eval: "f_divide x y =
     (if is_nan x \<or> is_nan y \<or> (is_inf x \<and> is_inf y) \<or> (f_mag x = 0 \<and> f_mag y = 0) then f_nan
      else if is_inf x \<or> f_mag y = 0 then f_inf (f_neg x \<noteq> f_neg y)
      else if is_inf y then f_make (f_neg x \<noteq> f_neg y) 0
      else f_round (f_neg x \<noteq> f_neg y) (mag_val (f_mag x) * 2 ^ 149) (mag_val (f_mag y)))"
  by (simp add: f_divide_def Let_def)

lemmas f_eval = plus_f32_def uminus_f32_def minus_f32_def times_f32_def divide_f32_def
  f_add_eval f_add_aux_def f_uminus_def f_mult_eval f_divide_eval f_int_def f_dec_def f_round_def
  round_mag_eval round_mag_aux_def round_even_eval round_even_aux_def fshift.simps
  mag_val_eval mag_val_aux_def inf_mag_def f_make_def f_mag_def f_neg_def is_nan_def is_inf_def
  is_fin_def fint_def less_f32_def less_eq_f32_def f_key_def f_eq_def f_nan_def f_inf_def
  f_to_int_def f_trunc_def round_macro_def f_max_def f_abs_def zero_f32_def one_f32_def

subsection \<open>The C mathematics library and 16 bit \<open>int\<close>\<close>

text \<open>
  The functions of \<open>math.h\<close> are parameters: their accuracy is not specified.
\<close>

record libm =
  powf :: "f32 \<Rightarrow> f32 \<Rightarrow> f32"
  log10f :: "f32 \<Rightarrow> f32"
  logf :: "f32 \<Rightarrow> f32"
  expf :: "f32 \<Rightarrow> f32"

definition f_to_i16 :: "f32 \<Rightarrow> int option" where
  "f_to_i16 x = f_to_int (- 32768) 32767 x"

definition i16_sub :: "int \<Rightarrow> int \<Rightarrow> int option" where
  "i16_sub a b = (if in_i16 (a - b) then Some (a - b) else None)"

definition f_ulong :: "u32 \<Rightarrow> f32" where
  "f_ulong t = f_int (uint t)"

subsection \<open>Small integers as floats\<close>

lemma f_int_facts:
  assumes "\<bar>i\<bar> < 2 ^ 24"
  shows "is_fin (f_int i)" "fval (f_int i) = of_int i" "\<not> is_nan (f_int i)"
  using f_int_exact [OF assms] f_fin_classes by simp_all

lemma fint_f_int: "\<bar>i\<bar> < 2 ^ 24 \<Longrightarrow> fint (f_int i) = i * 2 ^ 149"
  using f_int_facts(2) [of i] by (simp add: fval_def field_simps flip: of_int_eq_iff)

lemma f_trunc_f_int: "\<bar>i\<bar> < 2 ^ 24 \<Longrightarrow> f_trunc (f_int i) = i"
  by (simp add: f_trunc_def fint_f_int abs_mult sgn_mult sgn_mult_abs)

lemma f_to_i16_f_int: "\<bar>i\<bar> < 2 ^ 15 \<Longrightarrow> f_to_i16 (f_int i) = Some i"
  using f_trunc_f_int [of i] f_int_facts(1) [of i] by (auto simp: f_to_i16_def f_to_int_def)

lemma f_trunc_mono: "fint x \<le> fint y \<Longrightarrow> f_trunc x \<le> f_trunc y"
proof -
  have "sgn a * (\<bar>a\<bar> div d) \<le> sgn b * (\<bar>b\<bar> div d)" if "a \<le> b" "0 < d" for a b d :: int
    using that pos_imp_zdiv_nonneg_iff [of d "- a"] pos_imp_zdiv_nonneg_iff [of d b]
      zdiv_mono1 [of a b d] zdiv_mono1 [of "- b" "- a" d]
    by (auto simp: sgn_if abs_if)
  then show "fint x \<le> fint y \<Longrightarrow> f_trunc x \<le> f_trunc y" by (simp add: f_trunc_def)
qed

lemma f_le_fint: "is_fin x \<Longrightarrow> is_fin y \<Longrightarrow> x \<le> y \<longleftrightarrow> fint x \<le> fint y"
  using f_le_fval [of x y] by (simp add: fval_def divide_le_cancel)

text \<open>A value between two integers has its truncation between them.\<close>

lemma f_trunc_between:
  assumes "f_int lo \<le> x" "x \<le> f_int hi" "\<bar>lo\<bar> < 2 ^ 15" "\<bar>hi\<bar> < 2 ^ 15"
  shows "is_fin x" and "lo \<le> f_trunc x" and "f_trunc x \<le> hi"
proof -
  have fin: "is_fin (f_int lo)" "is_fin (f_int hi)" using assms(3,4) f_int_facts(1) by simp_all
  have key: "f_key (f_int lo) \<le> f_key x" "f_key x \<le> f_key (f_int hi)" "\<not> is_nan x"
    using assms(1,2) by (simp_all add: less_eq_f32_def)
  show x: "is_fin x"
    using key fin by (auto simp: is_fin_def f_key_def is_nan_def split: if_splits)
  show "lo \<le> f_trunc x" "f_trunc x \<le> hi"
    using f_trunc_mono [of "f_int lo" x] f_trunc_mono [of x "f_int hi"] assms fin x
    by (simp_all add: f_le_fint f_trunc_f_int)
qed

lemma f_to_i16_between:
  assumes "f_int lo \<le> x" "x \<le> f_int hi" "\<bar>lo\<bar> < 2 ^ 15" "\<bar>hi\<bar> < 2 ^ 15"
  shows "\<exists>r. f_to_i16 x = Some r \<and> lo \<le> r \<and> r \<le> hi"
  using f_trunc_between [OF assms] assms(3,4) by (auto simp: f_to_i16_def f_to_int_def)

subsection \<open>Approximation with a common bound\<close>

lemma approx_bound: "max (1 / 2 ^ 150) (e / 2 ^ 24) \<le> B / 2 ^ 24" if "e \<le> B" "1 \<le> B" for e B :: real
  using that by simp

lemma f_add_approx:
  assumes "is_fin x" "is_fin y" "\<bar>fval x + fval y\<bar> \<le> B" "1 \<le> B" "B \<le> 2 ^ 90"
  shows "is_fin (x + y)" and "\<bar>fval (x + y) - (fval x + fval y)\<bar> \<le> B / 2 ^ 24"
proof -
  have "\<bar>fval x + fval y\<bar> < 2 ^ 100" using assms(3,5) by simp
  note e = f_add_error [OF assms(1,2) this]
  show "is_fin (x + y)" by (rule e(1))
  show "\<bar>fval (x + y) - (fval x + fval y)\<bar> \<le> B / 2 ^ 24"
    by (rule order_trans [OF e(2) approx_bound]) (use assms in simp_all)
qed

lemma fval_uminus: "fval (- x) = - fval x" and fin_uminus: "is_fin (- x) = is_fin x"
  using f_make_fields [OF f_mag_bound [of x], of "\<not> f_neg x"]
  by (simp_all add: uminus_f32_def f_uminus_def is_fin_def fval_signed signed_def)

lemma f_minus_alt: "x - y = x + - (y :: f32)"
  by (simp add: minus_f32_def plus_f32_def uminus_f32_def)

lemma f_diff_approx:
  assumes "is_fin x" "is_fin y" "\<bar>fval x - fval y\<bar> \<le> B" "1 \<le> B" "B \<le> 2 ^ 90"
  shows "is_fin (x - y)" and "\<bar>fval (x - y) - (fval x - fval y)\<bar> \<le> B / 2 ^ 24"
  using f_add_approx [of x "- y" B] assms by (simp_all add: f_minus_alt fval_uminus fin_uminus)

lemma f_mult_approx:
  assumes "is_fin x" "is_fin y" "\<bar>fval x * fval y\<bar> \<le> B" "1 \<le> B" "B \<le> 2 ^ 90"
  shows "is_fin (x * y)" and "\<bar>fval (x * y) - fval x * fval y\<bar> \<le> B / 2 ^ 24"
proof -
  have "\<bar>fval x * fval y\<bar> < 2 ^ 100" using assms(3,5) by simp
  note e = f_mult_error [OF assms(1,2) this]
  show "is_fin (x * y)" by (rule e(1))
  show "\<bar>fval (x * y) - fval x * fval y\<bar> \<le> B / 2 ^ 24"
    by (rule order_trans [OF e(2) approx_bound]) (use assms in simp_all)
qed

lemma f_divide_approx:
  assumes "is_fin x" "is_fin y" "fval y \<noteq> 0" "\<bar>fval x / fval y\<bar> \<le> B" "1 \<le> B" "B \<le> 2 ^ 90"
  shows "is_fin (x / y)" and "\<bar>fval (x / y) - fval x / fval y\<bar> \<le> B / 2 ^ 24"
proof -
  have "\<bar>fval x / fval y\<bar> < 2 ^ 100" using assms(4,6) by simp
  note e = f_divide_error [OF assms(1-3) this]
  show "is_fin (x / y)" by (rule e(1))
  show "\<bar>fval (x / y) - fval x / fval y\<bar> \<le> B / 2 ^ 24"
    by (rule order_trans [OF e(2) approx_bound]) (use assms in simp_all)
qed

lemma f_int_approx:
  assumes "\<bar>i\<bar> \<le> 2 ^ 80"
  shows "is_fin (f_int i)" and "\<bar>fval (f_int i) - of_int i\<bar> \<le> max 1 \<bar>of_int i\<bar> / 2 ^ 24"
proof -
  have lt: "nat \<bar>i\<bar> * 2 ^ 149 < 1 * 2 ^ 249"
  proof -
    have "nat \<bar>i\<bar> \<le> 2 ^ 80" using assms by (simp add: nat_le_iff)
    then have "nat \<bar>i\<bar> * 2 ^ 149 \<le> 2 ^ 80 * 2 ^ 149" by (intro mult_le_mono1)
    also have "\<dots> < (1 :: nat) * 2 ^ 249" by simp
    finally show ?thesis .
  qed
  show fin: "is_fin (f_int i)" unfolding f_int_def by (rule f_round_fin [OF _ lt]) simp
  have val: "signed (i < 0) (real (nat \<bar>i\<bar> * 2 ^ 149) / (real 1 * 2 ^ 149)) = of_int i"
    by (simp add: signed_def)
  have mag: "real (nat \<bar>i\<bar> * 2 ^ 149) / (real 1 * 2 ^ 149) = \<bar>of_int i\<bar>" by simp
  have "\<bar>fval (f_int i) - of_int i\<bar> \<le> max (1 / 2 ^ 150) (\<bar>of_int i\<bar> / 2 ^ 24)"
    using f_round_error [OF _ fin [unfolded f_int_def], unfolded val mag]
    by (simp add: f_int_def signed_def split: if_splits)
  also have "\<dots> \<le> max 1 \<bar>of_int i\<bar> / 2 ^ 24" by (intro approx_bound) simp_all
  finally show "\<bar>fval (f_int i) - of_int i\<bar> \<le> max 1 \<bar>of_int i\<bar> / 2 ^ 24" .
qed

end
