(* ===== verification/Wire.thy ===== *)
theory Wire
  imports Float32
begin

text \<open>
  The byte formats shared by the components: \<open>Command\<close> (\<open>command.cpp\<close>, the same class in the firmware
  and in the PC program), the union \<open>Convertion\<close>, and \<open>SerialFrequentDataPacket\<close> of \<open>serialComm.h\<close>.
  The contract of a fixed-size format is the locale \<open>codec\<close>, interpreted on each of them.
\<close>

subsection \<open>The contract of a fixed-size encoding\<close>

locale codec =
  fixes enc :: "'a \<Rightarrow> u8 list"
    and dec :: "u8 list \<Rightarrow> 'a option"
    and width :: nat
  assumes enc_width: "length (enc x) = width"
    and dec_enc: "dec (enc x @ rest) = Some x"
    and dec_short: "length bs < width \<Longrightarrow> dec bs = None"
begin

lemma dec_enc_exact: "dec (enc x) = Some x"
  using dec_enc [of x "[]"] by simp

lemma enc_inject: "enc x = enc y \<longleftrightarrow> x = y"
  using dec_enc_exact by (metis option.inject)

text \<open>A decoder ignores what follows, so an encoding can sit at the front of a larger buffer.\<close>

lemma dec_prefix: "take width bs = enc x \<Longrightarrow> dec bs = Some x"
  using dec_enc [of x "drop width bs"] by (metis append_take_drop_id)

lemma enc_append_inject: "enc x @ r = enc y @ s \<longleftrightarrow> x = y \<and> r = s"
  by (auto simp: append_eq_append_conv enc_width enc_inject)

end

subsection \<open>The union \<open>Convertion\<close>\<close>

text \<open>\<open>valueBytes\<close> read as \<open>value32b\<close> or \<open>valueFloat\<close>, and back (little endian).\<close>

definition conv_of_bytes :: "u8 list \<Rightarrow> u32 option" where
  "conv_of_bytes bs =
     (if length bs < 4 then None else Some (le_word (bs ! 0) (bs ! 1) (bs ! 2) (bs ! 3)))"

definition float_of_bytes :: "u8 list \<Rightarrow> f32 option" where
  "float_of_bytes bs = map_option F32 (conv_of_bytes bs)"

definition float_bytes :: "f32 \<Rightarrow> u8 list" where
  "float_bytes v = le_bytes (f_bits v)"

interpretation conv: codec le_bytes conv_of_bytes 4
  by unfold_locales (simp_all add: conv_of_bytes_def le_bytes_def le_word_le_bytes)

interpretation conv_float: codec float_bytes float_of_bytes 4
  by unfold_locales
    (simp_all add: float_bytes_def float_of_bytes_def conv.enc_width conv.dec_enc conv.dec_short)

subsection \<open>Commands\<close>

record command =
  cmd :: u8 \<comment> \<open>\<open>int8_t\<close>\<close>
  destination :: u8
  cmd_value :: u32

definition char_code :: "char \<Rightarrow> u8" where
  "char_code c = of_char c"

definition command_default :: command where
  "command_default = \<lparr>cmd = 0, destination = 0, cmd_value = 0\<rparr>"

text \<open>\<open>char\<close> is signed on both machines, so \<open>value = t\<close> extends the sign.\<close>

definition setType :: "u8 \<Rightarrow> command \<Rightarrow> command" where
  "setType t c = c\<lparr>cmd_value := scast t\<rparr>"

definition getType :: "command \<Rightarrow> u8" where
  "getType c = ucast (cmd_value c)"

definition setFloatValue :: "f32 \<Rightarrow> command \<Rightarrow> command" where
  "setFloatValue v c = c\<lparr>cmd_value := f_bits v\<rparr>"

definition getFloatValue :: "command \<Rightarrow> f32" where
  "getFloatValue c = F32 (cmd_value c)"

definition command_type :: "u8 \<Rightarrow> u8 \<Rightarrow> u8 \<Rightarrow> command" where
  "command_type c d t = setType t (command_default\<lparr>cmd := c, destination := d\<rparr>)"

definition command_float :: "u8 \<Rightarrow> u8 \<Rightarrow> f32 \<Rightarrow> command" where
  "command_float c d v = setFloatValue v (command_default\<lparr>cmd := c, destination := d\<rparr>)"

definition command_of_buffer :: "u8 list \<Rightarrow> command option" where
  "command_of_buffer buffer =
     (if length buffer < 6 then None
      else Some \<lparr>cmd = buffer ! 1, destination = buffer ! 0,
        cmd_value = push_bit 24 (ucast (buffer ! 2)) OR push_bit 16 (ucast (buffer ! 3)) OR
          push_bit 8 (ucast (buffer ! 4)) OR ucast (buffer ! 5)\<rparr>)"

definition toByteArray :: "command \<Rightarrow> u8 list" where
  "toByteArray c =
     [destination c, cmd c, ucast (drop_bit 24 (cmd_value c) AND 0xFF),
      ucast (drop_bit 16 (cmd_value c) AND 0xFF), ucast (drop_bit 8 (cmd_value c) AND 0xFF),
      ucast (cmd_value c AND 0xFF)]"

lemma and_0xFF: "w AND 0xFF = take_bit 8 (w :: u32)"
  by (simp add: take_bit_eq_mask mask_eq_exp_minus_1)

lemma ucast_low_byte [wire_simps]: "(ucast (w AND 0xFF) :: u8) = ucast (w :: u32)"
  unfolding and_0xFF by (rule bit_word_eqI) (auto simp: bit_simps)

lemma toByteArray_alt:
  "toByteArray c = destination c # cmd c # be_bytes (cmd_value c)"
  by (simp add: toByteArray_def be_bytes_def ucast_low_byte)

interpretation cmd_codec: codec toByteArray command_of_buffer 6
proof unfold_locales
  fix c :: command and rest :: "u8 list"
  show "length (toByteArray c) = 6" by (simp add: toByteArray_def)
  show "command_of_buffer (toByteArray c @ rest) = Some c"
    using be_word_be_bytes [of "cmd_value c"]
    by (simp add: toByteArray_alt command_of_buffer_def be_bytes_def be_word_def)
qed (simp add: command_of_buffer_def)

text \<open>A command survives the wire: parsing the six bytes of \<open>toByteArray\<close>, whatever follows
  them in the buffer (two stale bytes of a CAN frame, the next serial bytes), gives it back.\<close>

theorem command_roundtrip: "command_of_buffer (toByteArray c @ rest) = Some c"
  by (rule cmd_codec.dec_enc)

lemma getType_setType: "getType (setType t c) = t"
  unfolding getType_def setType_def
  by (rule bit_word_eqI) (auto simp: bit_simps)

subsection \<open>Frequent data packets\<close>

record freq_packet =
  fp_node :: u8
  iluminanceShort :: u16
  fp_pwm :: u8 \<comment> \<open>declared \<open>int8_t\<close>; written back as a byte\<close>

text \<open>\<open>iluminance * 10\<close> cast to \<open>uint16_t\<close>: undefined when it does not fit.\<close>

definition freq_packet_make :: "u8 \<Rightarrow> f32 \<Rightarrow> u8 \<Rightarrow> freq_packet option" where
  "freq_packet_make node iluminance pwm = do {
     i \<leftarrow> f_to_int 0 65535 (iluminance * f_int 10);
     Some \<lparr>fp_node = node, iluminanceShort = of_int i, fp_pwm = pwm\<rparr>
   }"

text \<open>\<open>value16b\<close> is 32 bits wide in this header, so the read takes two bytes the constructor never
  wrote; the cast to \<open>uint16_t\<close> drops them. They are the parameter \<open>stale\<close>.\<close>

definition freq_packet_of_buffer :: "u8 \<Rightarrow> u8 \<Rightarrow> u8 list \<Rightarrow> freq_packet option" where
  "freq_packet_of_buffer stale2 stale3 buffer =
     (if length buffer < 6 then None
      else Some \<lparr>fp_node = buffer ! 0,
        iluminanceShort = ucast (le_word (buffer ! 1) (buffer ! 2) stale2 stale3),
        fp_pwm = buffer ! 5\<rparr>)"

definition freq_bytes :: "freq_packet \<Rightarrow> u8 list" where
  "freq_bytes p =
     (let b = le_bytes (ucast (iluminanceShort p)) in [fp_node p, b ! 0, b ! 1, fp_pwm p])"

definition freq_serial :: "freq_packet \<Rightarrow> u8 list" where
  "freq_serial p =
     (let b = le_bytes (ucast (iluminanceShort p))
      in [255, char_code (CHR ''F''), fp_node p, b ! 0, b ! 1, fp_pwm p])"

lemma short_bytes [wire_simps]:
  "(ucast (le_word (ucast (ucast s :: u32)) (ucast (drop_bit 8 (ucast s :: u32))) x y) :: u16) = s"
  unfolding le_word_def be_word_def
  by (rule bit_word_eqI) (auto simp: bit_simps)

text \<open>The buffer constructor does not invert \<open>toByteArray\<close>: it takes the duty cycle from byte 5,
  while \<open>toByteArray\<close> puts it in byte 3, so a packet read back from a CAN data field is the packet
  sent only when the two stale bytes happen to agree.\<close>

theorem freq_packet_reads_wrong_byte:
  assumes "length rest = 4"
  shows "freq_packet_of_buffer x y (freq_bytes p @ rest) = Some (p\<lparr>fp_pwm := rest ! 1\<rparr>)"
  using assms
  by (simp add: freq_packet_of_buffer_def freq_bytes_def Let_def le_bytes_def nth_append short_bytes)

theorem freq_packet_reads_wrong_byte_witness:
  "freq_packet_of_buffer 0 0 (freq_bytes \<lparr>fp_node = 3, iluminanceShort = 305, fp_pwm = 128\<rparr> @ [0, 7, 0, 0])
     = Some \<lparr>fp_node = 3, iluminanceShort = 305, fp_pwm = 7\<rparr>"
  using freq_packet_reads_wrong_byte
    [of "[0, 7, 0, 0]" 0 0 "\<lparr>fp_node = 3, iluminanceShort = 305, fp_pwm = 128\<rparr>"] by simp

end
