(* ===== verification/Registry.thy ===== *)
theory Registry
  imports Prelude
begin

text \<open>
  The node registry of \<open>main.cpp\<close>: \<open>nodesList\<close> (ascending, 0 marks a free place),
  \<open>nodeIndexOnGainMatrix\<close> (the position of each id) and \<open>numTotalNodes\<close>, with
  \<open>registerNewNode\<close>, \<open>resetGlob\<close> and \<open>checkIfNodeExists\<close>. The loops index the arrays with their
  declared bounds (7 places, 21 ids); an access outside is \<^term>\<open>None\<close>. The prints and the
  message to the PC that end \<open>registerNewNode\<close> are added where the node is composed.
\<close>

definition MAX_NUM_NODES :: nat where "MAX_NUM_NODES = 7"
definition MAX_NODE_ID :: nat where "MAX_NODE_ID = 20"

record registry =
  nodesList :: "u8 list"
  nodeIndexOnGainMatrix :: "u8 list"
  numTotalNodes :: u8

definition registry_boot :: registry where
  "registry_boot = \<lparr>nodesList = replicate MAX_NUM_NODES 0,
     nodeIndexOnGainMatrix = replicate (MAX_NODE_ID + 1) 0, numTotalNodes = 0\<rparr>"

abbreviation node_count :: "registry \<Rightarrow> nat" where
  "node_count r \<equiv> unat (numTotalNodes r)"

definition members :: "registry \<Rightarrow> u8 list" where
  "members r = take (node_count r) (nodesList r)"

subsection \<open>Operations\<close>

text \<open>
  The outer loop up to its \<open>break\<close>: the first place with a larger id or a free one. The counter is
  a \<open>uint8_t\<close> compared with \<open>numTotalNodes + 1\<close>; it cannot wrap, because the read of
  \<open>nodesList[7]\<close> comes first.
\<close>

function find_place :: "nat \<Rightarrow> u8 \<Rightarrow> nat \<Rightarrow> u8 list \<Rightarrow> nat option option" where
  "find_place n nid i nodes =
     (if i < n + 1 then do {
        v \<leftarrow> aget nodes i;
        if nid < v \<or> v = 0 then Some (Some i) else find_place n nid (i + 1) nodes
      } else Some None)"
  by pat_completeness auto
termination by (relation "measure (\<lambda>(n, nid, i, nodes). n + 1 - i)") auto

text \<open>The inner loop: moves the elements from \<open>j\<close> on one place down, up to a free place.\<close>

function shift_down :: "nat \<Rightarrow> nat \<Rightarrow> u8 \<Rightarrow> u8 list \<Rightarrow> u8 list option" where
  "shift_down n j oldVal nodes =
     (if j < n + 1 then do {
        v \<leftarrow> aget nodes j;
        nodes' \<leftarrow> aset nodes j oldVal;
        if v = 0 then Some nodes' else shift_down n (j + 1) v nodes'
      } else Some nodes)"
  by pat_completeness auto
termination by (relation "measure (\<lambda>(n, j, v, nodes). n + 1 - j)") auto

text \<open>The last loop rebuilds the index of every listed id.\<close>

function index_nodes :: "nat \<Rightarrow> nat \<Rightarrow> u8 list \<Rightarrow> u8 list \<Rightarrow> u8 list option" where
  "index_nodes n i nodes idx =
     (if i < n then do {
        nid \<leftarrow> aget nodes i;
        idx' \<leftarrow> aset idx (unat nid) (of_nat i);
        index_nodes n (i + 1) nodes idx'
      } else Some idx)"
  by pat_completeness auto
termination by (relation "measure (\<lambda>(n, i, nodes, idx). n - i)") auto

declare find_place.simps [simp del] shift_down.simps [simp del] index_nodes.simps [simp del]

definition insert_node :: "nat \<Rightarrow> u8 \<Rightarrow> u8 list \<Rightarrow> u8 list option" where
  "insert_node n nid nodes = do {
     place \<leftarrow> find_place n nid 0 nodes;
     (case place of
        None \<Rightarrow> Some nodes
      | Some i \<Rightarrow> do {
          oldVal \<leftarrow> aget nodes i;
          nodes' \<leftarrow> shift_down n (i + 1) oldVal nodes;
          aset nodes' i nid
        })
   }"

definition registerNewNode :: "u8 \<Rightarrow> registry \<Rightarrow> registry option" where
  "registerNewNode nid r = do {
     nodes \<leftarrow> insert_node (node_count r) nid (nodesList r);
     let n = numTotalNodes r + 1;
     idx \<leftarrow> index_nodes (unat n) 0 nodes (nodeIndexOnGainMatrix r);
     Some \<lparr>nodesList = nodes, nodeIndexOnGainMatrix = idx, numTotalNodes = n\<rparr>
   }"

definition checkIfNodeExists :: "u8 \<Rightarrow> registry \<Rightarrow> bool" where
  "checkIfNodeExists dest r = list_ex (\<lambda>v. dest = v) (members r)"

fun clear_nodes :: "nat \<Rightarrow> nat \<Rightarrow> u8 list \<times> u8 list \<Rightarrow> (u8 list \<times> u8 list) option" where
  "clear_nodes 0 i s = Some s"
| "clear_nodes (Suc k) i (nodes, idx) = do {
     nid \<leftarrow> aget nodes i;
     idx' \<leftarrow> aset idx (unat nid) 0;
     nodes' \<leftarrow> aset nodes i 0;
     clear_nodes k (i + 1) (nodes', idx')
   }"

definition resetGlob :: "u8 \<Rightarrow> registry \<Rightarrow> registry option" where
  "resetGlob nodeId r = do {
     (nodes, idx) \<leftarrow> clear_nodes (node_count r) 0 (nodesList r, nodeIndexOnGainMatrix r);
     registerNewNode nodeId \<lparr>nodesList = nodes, nodeIndexOnGainMatrix = idx, numTotalNodes = 0\<rparr>
   }"

fun register_all :: "u8 list \<Rightarrow> registry \<Rightarrow> registry option" where
  "register_all [] r = Some r"
| "register_all (nid # ids) r = do { r' \<leftarrow> registerNewNode nid r; register_all ids r' }"

subsection \<open>Well-formedness\<close>

definition valid_id :: "u8 \<Rightarrow> bool" where
  "valid_id nid \<longleftrightarrow> nid \<noteq> 0 \<and> unat nid \<le> MAX_NODE_ID"

text \<open>The layout the loops rely on, with duplicates allowed.\<close>

definition registry_shape :: "registry \<Rightarrow> bool" where
  "registry_shape r \<longleftrightarrow>
     length (nodesList r) = MAX_NUM_NODES \<and>
     length (nodeIndexOnGainMatrix r) = MAX_NODE_ID + 1 \<and>
     node_count r \<le> MAX_NUM_NODES \<and>
     nodesList r = members r @ replicate (MAX_NUM_NODES - node_count r) 0 \<and>
     sorted (members r) \<and> list_all valid_id (members r)"

definition registry_ok :: "registry \<Rightarrow> bool" where
  "registry_ok r \<longleftrightarrow> registry_shape r \<and> distinct (members r) \<and>
     (\<forall>i < node_count r. nodeIndexOnGainMatrix r ! unat (members r ! i) = of_nat i)"


subsection \<open>The sorted insertion\<close>

lemma insort_split:
  "sorted xs \<Longrightarrow> nid \<notin> set xs \<Longrightarrow>
   insort nid xs = takeWhile (\<lambda>v. v < nid) xs @ nid # dropWhile (\<lambda>v. v < nid) (xs :: u8 list)"
  by (induction xs) auto

text \<open>The code puts an id after its equals, so a repeated id is inserted a second time.\<close>

definition insert_sorted :: "u8 \<Rightarrow> u8 list \<Rightarrow> u8 list" where
  "insert_sorted nid xs = takeWhile (\<lambda>v. v \<le> nid) xs @ nid # dropWhile (\<lambda>v. v \<le> nid) xs"

lemma find_place_spec:
  assumes "0 \<notin> set ys" and "i = length xs" and "n = length xs + length ys"
  shows "find_place n nid i (xs @ ys @ 0 # zs) = Some (Some (i + length (takeWhile (\<lambda>v. v \<le> nid) ys)))"
  using assms
proof (induction ys arbitrary: i xs)
  case Nil
  then show ?case by (subst find_place.simps) (simp add: aget_in_bounds)
next
  case (Cons y ys)
  have "find_place n nid (i + 1) ((xs @ [y]) @ ys @ 0 # zs)
      = Some (Some (i + 1 + length (takeWhile (\<lambda>v. v \<le> nid) ys)))"
    using Cons.prems by (intro Cons.IH) auto
  then show ?case
    using Cons.prems
    by (subst find_place.simps) (auto simp: aget_in_bounds)
qed

lemma shift_down_spec:
  assumes "0 \<notin> set ys" and "j = length xs" and "length xs + length ys \<le> n"
  shows "shift_down n j v (xs @ ys @ 0 # zs) = Some (xs @ v # ys @ zs)"
  using assms
proof (induction ys arbitrary: j v xs)
  case Nil
  then show ?case
    by (subst shift_down.simps) (simp add: aget_in_bounds aset_in_bounds)
next
  case (Cons y ys)
  have "shift_down n (j + 1) y ((xs @ [v]) @ ys @ 0 # zs) = Some ((xs @ [v]) @ y # ys @ zs)"
    using Cons.prems by (intro Cons.IH) auto
  then show ?case
    using Cons.prems
    by (subst shift_down.simps) (simp add: aget_in_bounds aset_in_bounds)
qed

lemma insert_node_spec:
  assumes "0 \<notin> set ys" and "n = length ys"
  shows "insert_node n nid (ys @ 0 # zs) = Some (insert_sorted nid ys @ zs)"
proof -
  define as bs where "as = takeWhile (\<lambda>v. v \<le> nid) ys" and "bs = dropWhile (\<lambda>v. v \<le> nid) ys"
  have ys: "ys = as @ bs" and spec: "insert_sorted nid ys = as @ nid # bs"
    by (simp_all add: as_def bs_def insert_sorted_def)
  have find: "find_place n nid 0 (ys @ 0 # zs) = Some (Some (length as))"
    using find_place_spec [of ys 0 "[]" n nid zs] assms by (simp add: as_def)
  show ?thesis
  proof (cases bs)
    case Nil
    then have "shift_down n (length as + 1) 0 (as @ 0 # zs) = Some (as @ 0 # zs)"
      using assms(2) by (subst shift_down.simps) (simp add: ys)
    with find Nil show ?thesis
      unfolding insert_node_def spec by (simp add: ys aget_in_bounds aset_in_bounds)
  next
    case (Cons b cs)
    have "shift_down n (length as + 1) b ((as @ [b]) @ cs @ 0 # zs) = Some ((as @ [b]) @ b # cs @ zs)"
      using assms Cons by (intro shift_down_spec) (auto simp: ys)
    with find Cons show ?thesis
      unfolding insert_node_def spec by (simp add: ys aget_in_bounds aset_in_bounds)
  qed
qed

lemma length_insert_sorted [simp]: "length (insert_sorted nid xs) = Suc (length xs)"
proof -
  have "length xs = length (takeWhile (\<lambda>v. v \<le> nid) xs) + length (dropWhile (\<lambda>v. v \<le> nid) xs)"
    by (metis length_append takeWhile_dropWhile_id)
  then show ?thesis by (simp add: insert_sorted_def)
qed

lemma set_insert_sorted [simp]: "set (insert_sorted nid xs) = insert nid (set xs)"
proof -
  have "set (insert_sorted nid xs)
      = insert nid (set (takeWhile (\<lambda>v. v \<le> nid) xs @ dropWhile (\<lambda>v. v \<le> nid) xs))"
    by (simp only: insert_sorted_def set_append list.set Un_insert_right)
  then show ?thesis by (simp only: takeWhile_dropWhile_id)
qed

lemma insert_sorted_simps:
  "insert_sorted nid [] = [nid]"
  "insert_sorted nid (x # xs) = (if x \<le> nid then x # insert_sorted nid xs else nid # x # xs)"
  by (simp_all add: insert_sorted_def)

lemma insert_sorted_insort:
  "nid \<notin> set xs \<Longrightarrow> insert_sorted nid xs = insort nid xs"
  by (induction xs) (auto simp: insert_sorted_simps)

lemma sorted_insert_sorted: "sorted xs \<Longrightarrow> sorted (insert_sorted nid xs)"
proof (induction xs)
  case (Cons x xs)
  then show ?case by (cases "x \<le> nid") (auto simp: insert_sorted_simps)
qed (simp add: insert_sorted_simps)

subsection \<open>The index loop\<close>

lemma index_nodes_spec:
  assumes "list_all valid_id ys" and "i = length xs" and "n = length xs + length ys"
    and "length idx = MAX_NODE_ID + 1"
  shows "\<exists>idx'. index_nodes n i (xs @ ys @ zs) idx = Some idx' \<and> length idx' = length idx \<and>
     (\<forall>k. k \<notin> unat ` set ys \<longrightarrow> idx' ! k = idx ! k) \<and>
     (distinct ys \<longrightarrow> (\<forall>j < length ys. idx' ! unat (ys ! j) = of_nat (i + j)))"
  using assms
proof (induction ys arbitrary: i xs idx)
  case Nil
  then show ?case by (subst index_nodes.simps) simp
next
  case (Cons y ys)
  have y: "unat y < length idx" using Cons.prems(1,4) by (simp add: valid_id_def)
  have "\<exists>idx'. index_nodes n (i + 1) ((xs @ [y]) @ ys @ zs) (idx[unat y := of_nat i]) = Some idx' \<and>
     length idx' = length (idx[unat y := of_nat i]) \<and>
     (\<forall>k. k \<notin> unat ` set ys \<longrightarrow> idx' ! k = idx[unat y := of_nat i] ! k) \<and>
     (distinct ys \<longrightarrow> (\<forall>j < length ys. idx' ! unat (ys ! j) = of_nat ((i + 1) + j)))"
    using Cons.prems by (intro Cons.IH) auto
  then obtain idx' where idx': "index_nodes n (i + 1) (xs @ y # ys @ zs) (idx[unat y := of_nat i]) = Some idx'"
    "length idx' = length idx"
    "\<And>k. k \<notin> unat ` set ys \<Longrightarrow> idx' ! k = idx[unat y := of_nat i] ! k"
    "distinct ys \<Longrightarrow> \<forall>j < length ys. idx' ! unat (ys ! j) = of_nat (Suc (i + j))"
    by auto
  have step: "index_nodes n i (xs @ (y # ys) @ zs) idx = Some idx'"
    using Cons.prems idx'(1) y
    by (subst index_nodes.simps) (simp add: aget_in_bounds aset_in_bounds)
  have head: "idx' ! unat y = of_nat i" if "y \<notin> set ys"
  proof -
    have "unat y \<notin> unat ` set ys" using that by (metis imageE word_unat_eq_iff)
    then show ?thesis using idx'(3) [of "unat y"] y by simp
  qed
  have rest: "idx' ! k = idx ! k" if "k \<notin> unat ` set (y # ys)" for k
    using idx'(3) [of k] that by (simp add: nth_list_update)
  have "idx' ! unat ((y # ys) ! j) = of_nat (i + j)" if "distinct (y # ys)" "j < length (y # ys)" for j
    using that head idx'(4) by (cases j) auto
  with step idx'(2) rest show ?case by blast
qed

subsection \<open>Registration\<close>

lemma members_length [simp]: "registry_shape r \<Longrightarrow> length (members r) = node_count r"
  by (simp add: registry_shape_def members_def)

lemma zero_not_member: "list_all valid_id xs \<Longrightarrow> 0 \<notin> set xs"
  by (auto simp: list_all_iff valid_id_def)

lemma registerNewNode_spec:
  assumes shape: "registry_shape r" and room: "node_count r < MAX_NUM_NODES" and new: "valid_id nid"
  shows "\<exists>r'. registerNewNode nid r = Some r' \<and> registry_shape r' \<and>
     node_count r' = Suc (node_count r) \<and> members r' = insert_sorted nid (members r) \<and>
     (distinct (members r') \<longrightarrow> registry_ok r')"
proof -
  define n where "n = node_count r"
  define ms where "ms = members r"
  have len: "length ms = n" using shape by (simp add: ms_def n_def)
  have vs: "list_all valid_id ms" and srt: "sorted ms"
    using shape by (simp_all add: registry_shape_def ms_def)
  have nodes: "nodesList r = ms @ 0 # replicate (6 - n) 0"
    using shape room by (simp add: registry_shape_def ms_def n_def MAX_NUM_NODES_def
        Suc_diff_Suc flip: replicate_Suc)
  have ins: "insert_node n nid (nodesList r) = Some (insert_sorted nid ms @ replicate (6 - n) 0)"
    unfolding nodes using zero_not_member [OF vs] len by (intro insert_node_spec) simp_all
  have cnt: "unat (numTotalNodes r + 1) = Suc n"
    using room by (simp add: n_def MAX_NUM_NODES_def unat_word_ariths)
  have valid: "list_all valid_id (insert_sorted nid ms)"
    using vs new by (simp add: list_all_iff)
  obtain idx' where idx': "index_nodes (Suc n) 0 (insert_sorted nid ms @ replicate (6 - n) 0)
      (nodeIndexOnGainMatrix r) = Some idx'" "length idx' = MAX_NODE_ID + 1"
    "distinct (insert_sorted nid ms) \<longrightarrow>
       (\<forall>j < Suc n. idx' ! unat (insert_sorted nid ms ! j) = of_nat j)"
    using index_nodes_spec [of "insert_sorted nid ms" 0 "[]" "Suc n" "nodeIndexOnGainMatrix r"
        "replicate (6 - n) 0"] valid len shape by (auto simp: registry_shape_def)
  define r' where "r' = \<lparr>nodesList = insert_sorted nid ms @ replicate (6 - n) 0,
     nodeIndexOnGainMatrix = idx', numTotalNodes = numTotalNodes r + 1\<rparr>"
  have reg: "registerNewNode nid r = Some r'"
    by (simp add: registerNewNode_def Let_def ins cnt idx'(1) r'_def flip: n_def)
  have mem: "members r' = insert_sorted nid ms"
    by (simp add: members_def r'_def cnt len)
  have shape': "registry_shape r'"
    using room idx'(2) srt valid len
    by (simp add: registry_shape_def mem cnt sorted_insert_sorted)
      (simp add: r'_def cnt MAX_NUM_NODES_def n_def [symmetric])
  have "registry_ok r'" if "distinct (members r')"
    using shape' that idx'(3) by (simp add: registry_ok_def mem) (simp add: r'_def cnt)
  with reg shape' mem cnt show ?thesis by (auto simp: r'_def n_def ms_def)
qed


lemma register_fresh_aux:
  assumes "registry_ok r" and "node_count r < MAX_NUM_NODES" and "valid_id nid"
    and "nid \<notin> set (members r)"
  shows "\<exists>r'. registerNewNode nid r = Some r' \<and> registry_ok r' \<and>
     members r' = insort nid (members r) \<and> node_count r' = Suc (node_count r)"
proof -
  have "registry_shape r" "distinct (members r)" using assms(1) by (simp_all add: registry_ok_def)
  moreover have "distinct (insert_sorted nid (members r))"
    using assms(4) calculation(2) by (simp add: insert_sorted_insort distinct_insort)
  ultimately show ?thesis
    using registerNewNode_spec [OF _ assms(2,3)] assms(4) by (auto simp: insert_sorted_insort)
qed


lemma registry_boot_ok: "registry_ok registry_boot"
  by (simp add: registry_ok_def registry_shape_def members_def registry_boot_def
      MAX_NUM_NODES_def MAX_NODE_ID_def)

definition registry_example :: registry where
  "registry_example = \<lparr>nodesList = [2, 9] @ replicate 5 0,
     nodeIndexOnGainMatrix = (replicate 21 0)[9 := 1], numTotalNodes = 2\<rparr>"

lemma registry_example_ok:
  "registry_ok registry_example" "node_count registry_example = 2"
  "members registry_example = [2, 9]"
  by (auto simp: registry_ok_def registry_shape_def members_def registry_example_def valid_id_def
      MAX_NUM_NODES_def MAX_NODE_ID_def less_2_cases_iff)


subsection \<open>Agreement on the node order\<close>

lemma register_all_sorted:
  assumes "registry_ok r" and "distinct nids" and "list_all valid_id nids"
    and "set nids \<inter> set (members r) = {}" and "node_count r + length nids \<le> MAX_NUM_NODES"
  shows "\<exists>r'. register_all nids r = Some r' \<and> registry_ok r' \<and>
     set (members r') = set (members r) \<union> set nids \<and> node_count r' = node_count r + length nids"
  using assms
proof (induction nids arbitrary: r)
  case (Cons nid nids)
  obtain r1 where r1: "registerNewNode nid r = Some r1" "registry_ok r1"
    "members r1 = insort nid (members r)" "node_count r1 = Suc (node_count r)"
    using register_fresh_aux [of r nid] Cons.prems by auto
  then show ?case using Cons.IH [of r1] Cons.prems by (auto simp: set_insort_key)
qed simp


text \<open>C28. Agreement: whatever the order in which the wake-up broadcasts arrive, a node that
  registers a set of ids ends with the same ascending list, so all nodes of the network index the
  gain matrix the same way.\<close>

theorem register_order_independent:
  assumes "distinct nids" and "list_all valid_id nids" and "length nids \<le> MAX_NUM_NODES"
  shows "\<exists>r. register_all nids registry_boot = Some r \<and> registry_ok r \<and>
     members r = sorted_list_of_set (set nids)"
proof -
  have boot: "members registry_boot = []" "node_count registry_boot = 0"
    by (simp_all add: members_def registry_boot_def)
  obtain r where r: "register_all nids registry_boot = Some r" "registry_ok r"
    "set (members r) = set nids"
    using register_all_sorted [OF registry_boot_ok assms(1,2)] assms(3) by (auto simp: boot)
  then have "sorted (members r)" "distinct (members r)"
    by (simp_all add: registry_ok_def registry_shape_def)
  then have "members r = sorted_list_of_set (set nids)"
    using r(3) by (metis sorted_list_of_set.idem_if_sorted_distinct)
  with r show ?thesis by blast
qed

theorem register_order_independent_witness:
  "\<exists>r. register_all [9, 2, 5] registry_boot = Some r \<and> registry_ok r \<and>
     members r = sorted_list_of_set (set [9, 2, 5])"
  by (rule register_order_independent) (simp_all add: valid_id_def MAX_NUM_NODES_def MAX_NODE_ID_def)

subsection \<open>What the code does not guard against\<close>

text \<open>A wake-up of an id that is already listed (a node that restarts and broadcasts again)
  lists it twice and counts it as one more node: there is no duplicate check.\<close>

theorem register_duplicate_counts_twice:
  assumes "registry_ok r" and "node_count r < MAX_NUM_NODES" and "nid \<in> set (members r)"
  shows "\<exists>r'. registerNewNode nid r = Some r' \<and> node_count r' = Suc (node_count r) \<and>
     set (members r') = set (members r) \<and> \<not> distinct (members r')"
proof -
  have shape: "registry_shape r" using assms(1) by (simp add: registry_ok_def)
  then have "valid_id nid" using assms(3) by (auto simp: registry_shape_def list_all_iff)
  then obtain r' where r': "registerNewNode nid r = Some r'" "registry_shape r'"
    "node_count r' = Suc (node_count r)" "members r' = insert_sorted nid (members r)"
    using registerNewNode_spec [OF shape assms(2)] by blast
  have "card (set (members r')) < length (members r')"
    using r' assms(3) shape card_length [of "members r"] by (simp add: insert_absorb)
  then have "\<not> distinct (members r')" by (auto simp: distinct_card)
  with r' assms(3) show ?thesis by (auto simp: insert_absorb)
qed

theorem register_duplicate_counts_twice_witness:
  "\<exists>r'. registerNewNode 9 registry_example = Some r' \<and>
     node_count r' = Suc (node_count registry_example) \<and>
     set (members r') = set (members registry_example) \<and> \<not> distinct (members r')"
  by (rule register_duplicate_counts_twice) (simp_all add: registry_example_ok MAX_NUM_NODES_def)

lemma find_place_full:
  assumes "0 \<notin> set ys" and "i = length xs" and "n = length xs + length ys"
  shows "find_place n nid i (xs @ ys) = (if \<forall>v \<in> set ys. v \<le> nid then None
     else Some (Some (i + length (takeWhile (\<lambda>v. v \<le> nid) ys))))"
  using assms
proof (induction ys arbitrary: i xs)
  case Nil
  then show ?case by (subst find_place.simps) (simp add: aget_out_of_bounds)
next
  case (Cons y ys)
  have "find_place n nid (i + 1) ((xs @ [y]) @ ys) = (if \<forall>v \<in> set ys. v \<le> nid then None
     else Some (Some (i + 1 + length (takeWhile (\<lambda>v. v \<le> nid) ys))))"
    using Cons.prems by (intro Cons.IH) auto
  then show ?case
    using Cons.prems by (subst find_place.simps) (auto simp: aget_in_bounds)
qed

lemma shift_down_full:
  assumes "0 \<notin> set ys" and "j = length xs" and "n = length xs + length ys"
  shows "shift_down n j v (xs @ ys) = None"
  using assms
proof (induction ys arbitrary: j v xs)
  case Nil
  then show ?case by (subst shift_down.simps) (simp add: aget_out_of_bounds)
next
  case (Cons y ys)
  have "shift_down n (j + 1) y ((xs @ [v]) @ ys) = None"
    using Cons.prems by (intro Cons.IH) auto
  then show ?case
    using Cons.prems by (subst shift_down.simps) (simp add: aget_in_bounds aset_in_bounds)
qed

text \<open>An eighth registration leaves the bounds of \<open>nodesList\<close>: the code has no check of
  \<open>MAX_NUM_NODES\<close>, so the access is undefined behaviour whatever the id.\<close>

theorem register_full_undefined:
  assumes "registry_shape r" and "node_count r = MAX_NUM_NODES"
  shows "registerNewNode nid r = None"
proof -
  define ys where "ys = nodesList r"
  have ys: "length ys = 7" "0 \<notin> set ys"
    using assms by (auto simp: registry_shape_def ys_def MAX_NUM_NODES_def list_all_iff valid_id_def)
  define as where "as = takeWhile (\<lambda>v. v \<le> nid) ys"
  have find: "find_place 7 nid 0 ys = (if \<forall>v \<in> set ys. v \<le> nid then None else Some (Some (length as)))"
    using find_place_full [of ys 0 "[]" 7 nid] ys by (simp add: as_def)
  have "insert_node 7 nid ys = None"
  proof (cases "\<forall>v \<in> set ys. v \<le> nid")
    case True
    with find show ?thesis by (simp add: insert_node_def)
  next
    case False
    then obtain b bs where bs: "dropWhile (\<lambda>v. v \<le> nid) ys = b # bs"
      by (metis dropWhile_eq_Nil_conv list.exhaust)
    then have split: "ys = (as @ [b]) @ bs" by (metis append.assoc append_Cons append_Nil as_def takeWhile_dropWhile_id)
    have "shift_down 7 (length as + 1) b ((as @ [b]) @ bs) = None"
      using ys by (intro shift_down_full) (auto simp: split)
    moreover have "find_place 7 nid 0 ys = Some (Some (length as))" using find False by simp
    ultimately show ?thesis by (simp add: insert_node_def split aget_in_bounds)
  qed
  then show ?thesis using assms(2) by (simp add: registerNewNode_def ys_def MAX_NUM_NODES_def)
qed

definition registry_seven :: registry where
  "registry_seven = \<lparr>nodesList = [1, 2, 3, 4, 5, 6, 7],
     nodeIndexOnGainMatrix = [0, 0, 1, 2, 3, 4, 5, 6] @ replicate 13 0, numTotalNodes = 7\<rparr>"

theorem register_full_undefined_witness: "registerNewNode 8 registry_seven = None"
  by (rule register_full_undefined)
    (simp_all add: registry_shape_def members_def registry_seven_def valid_id_def
      MAX_NUM_NODES_def MAX_NODE_ID_def)


subsection \<open>Reset\<close>

lemma clear_nodes_spec:
  assumes "list_all valid_id ys" and "i = length xs" and "length idx = MAX_NODE_ID + 1"
  shows "\<exists>idx'. clear_nodes (length ys) i (xs @ ys @ zs, idx)
           = Some (xs @ replicate (length ys) 0 @ zs, idx') \<and> length idx' = length idx"
  using assms
proof (induction ys arbitrary: i xs idx)
  case (Cons y ys)
  have "\<exists>idx'. clear_nodes (length ys) (i + 1) ((xs @ [0]) @ ys @ zs, idx[unat y := 0])
      = Some ((xs @ [0]) @ replicate (length ys) 0 @ zs, idx') \<and> length idx' = length (idx[unat y := 0])"
    using Cons.prems by (intro Cons.IH) auto
  then show ?case
    using Cons.prems by (auto simp: aget_in_bounds aset_in_bounds valid_id_def)
qed simp

text \<open>A reset forgets every other node: from any registry the loops can handle, duplicates
  included, the registry is well formed again and lists this node alone.\<close>

theorem reset_registry:
  assumes "registry_shape r" and "valid_id nodeId"
  shows "\<exists>r'. resetGlob nodeId r = Some r' \<and> registry_ok r' \<and> members r' = [nodeId]"
proof -
  define n where "n = node_count r"
  have len: "length (members r) = n" using assms(1) by (simp add: n_def)
  have nodes: "nodesList r = members r @ replicate (7 - n) 0" and le: "n \<le> 7"
    using assms(1) by (simp_all add: registry_shape_def n_def MAX_NUM_NODES_def)
  obtain idx' where idx': "clear_nodes n 0 (nodesList r, nodeIndexOnGainMatrix r)
      = Some (replicate n 0 @ replicate (7 - n) 0, idx')" "length idx' = MAX_NODE_ID + 1"
    using clear_nodes_spec [of "members r" 0 "[]" "nodeIndexOnGainMatrix r" "replicate (7 - n) 0"]
      assms(1) by (auto simp: registry_shape_def len nodes [symmetric] simp flip: n_def)
  define r0 where "r0 = \<lparr>nodesList = replicate 7 0, nodeIndexOnGainMatrix = idx', numTotalNodes = 0\<rparr>"
  have r0: "registry_shape r0" "node_count r0 = 0" "members r0 = []"
    using idx'(2) by (simp_all add: registry_shape_def members_def r0_def MAX_NUM_NODES_def)
  have "resetGlob nodeId r = registerNewNode nodeId r0"
    using idx'(1) le by (simp add: resetGlob_def r0_def flip: n_def replicate_add)
  then show ?thesis
    using registerNewNode_spec [OF r0(1) _ assms(2)] r0
    by (auto simp: MAX_NUM_NODES_def insert_sorted_simps)
qed

theorem reset_registry_witness:
  "\<exists>r'. resetGlob 9 registry_example = Some r' \<and> registry_ok r' \<and> members r' = [9]"
proof (rule reset_registry)
  show "registry_shape registry_example"
    using registry_example_ok(1) by (simp add: registry_ok_def)
qed (simp add: valid_id_def MAX_NODE_ID_def)

lemma checkIfNodeExists_iff: "checkIfNodeExists d r \<longleftrightarrow> d \<in> set (members r)"
  by (auto simp: checkIfNodeExists_def list_ex_iff)

end
