(* ===== verification/Can_Send.thy ===== *)
theory Can_Send
  imports Can_Stream Wire Registry
begin

text \<open>
  What a node does to its devices, and the sending half of \<open>communication.cpp\<close>. \<open>io\<close> is the frame
  buffer \<open>sendingFrame\<close>, which keeps its data bytes from one message to the next, and the log of the
  device operations in order. The MCP2515 driver is the parameter \<open>drv\<close>: the error code
  \<open>sendMessage\<close> returns (0 is \<open>ERROR_OK\<close>), which may depend on everything done before.
\<close>

datatype effect =
    CanTx can_frame
  | SerialWrite u8
  | SerialPrint string
  | SerialPrintInt int
  | SerialPrintHex u32
  | SerialPrintFloat f32 nat \<comment> \<open>value and number of decimals\<close>
  | SerialNewline
  | SerialFlush
  | AnalogWrite int \<comment> \<open>on \<open>LED_PIN\<close>\<close>
  | DigitalWrite int \<comment> \<open>on \<open>LED_PIN\<close>\<close>
  | EepromPut nat f32

record io =
  sendingFrame :: can_frame
  log :: "effect list"

type_synonym driver = "effect list \<Rightarrow> can_frame \<Rightarrow> u8"

definition emit :: "effect list \<Rightarrow> io \<Rightarrow> io" where
  "emit es s = s\<lparr>log := log s @ es\<rparr>"

definition io_boot :: io where
  "io_boot = \<lparr>sendingFrame = \<lparr>can_id = 0, can_dlc = 0, can_data = replicate 8 0\<rparr>, log = []\<rparr>"

subsection \<open>Message identifiers\<close>

definition CAN_EFF_FLAG :: u32 where "CAN_EFF_FLAG = 0x80000000"

definition CAN_WAKEUP_BROADCAST :: u8 where "CAN_WAKEUP_BROADCAST = 1"
definition CAN_CALIB_READY :: u8 where "CAN_CALIB_READY = 2"
definition CAN_CALIB_LED_ON :: u8 where "CAN_CALIB_LED_ON = 3"
definition CAN_DO_CONSENSUS :: u8 where "CAN_DO_CONSENSUS = 5"
definition CAN_CONSENSUS :: u8 where "CAN_CONSENSUS = 6"
definition CAN_IS_HUB_NODE :: u8 where "CAN_IS_HUB_NODE = 10"
definition CAN_NO_LONGER_IS_HUB_NODE :: u8 where "CAN_NO_LONGER_IS_HUB_NODE = 11"
definition CAN_FREQUENT_DATA :: u8 where "CAN_FREQUENT_DATA = 12"
definition CAN_COMMANDS_REQUEST :: u8 where "CAN_COMMANDS_REQUEST = 8"
definition CAN_COMMANDS_RESPONSE :: u8 where "CAN_COMMANDS_RESPONSE = 9"

lemmas can_types = CAN_WAKEUP_BROADCAST_def CAN_CALIB_READY_def CAN_CALIB_LED_ON_def
  CAN_DO_CONSENSUS_def CAN_CONSENSUS_def CAN_IS_HUB_NODE_def CAN_NO_LONGER_IS_HUB_NODE_def
  CAN_FREQUENT_DATA_def CAN_COMMANDS_REQUEST_def CAN_COMMANDS_RESPONSE_def

definition canMessageId :: "u8 \<Rightarrow> u8 \<Rightarrow> u8 \<Rightarrow> u32" where
  "canMessageId nodeId dest messageType =
     push_bit 16 (ucast dest) OR push_bit 8 (ucast nodeId) OR ucast messageType OR CAN_EFF_FLAG"

text \<open>The two fields the receiver extracts.\<close>

definition id_type :: "u32 \<Rightarrow> u8" where "id_type i = ucast (i AND 0x000000FF)"
definition id_sender :: "u32 \<Rightarrow> u8" where "id_sender i = ucast (drop_bit 8 (i AND 0x0000FF00))"

definition id_destination :: "u32 \<Rightarrow> u8" where "id_destination i = ucast (drop_bit 16 i)"

text \<open>The masks and filters \<open>init\<close> programs: for each receive buffer the mask and its two filters.\<close>

definition comm_filters :: "u8 \<Rightarrow> (u32 \<times> u32 list) list" where
  "comm_filters nodeId =
     [(0x00FF0000, [0, push_bit 16 (ucast nodeId)]), (0x00FF0000, [0, push_bit 16 (ucast nodeId)])]"

text \<open>The acceptance test of the controller chip for one mask and filter is the parameter \<open>acc\<close>.\<close>

definition accepted :: "(u32 \<Rightarrow> u32 \<Rightarrow> u32 \<Rightarrow> bool) \<Rightarrow> u8 \<Rightarrow> u32 \<Rightarrow> bool" where
  "accepted acc nodeId i =
     list_ex (\<lambda>(mask, fs). list_ex (\<lambda>f. acc mask f i) fs) (comm_filters nodeId)"

lemma masks: "w AND 0x000000FF = take_bit 8 (w :: u32)" "w AND 0x0000FF00 = push_bit 8 (take_bit 8 (drop_bit 8 w))"
  "w AND 0x00FF0000 = push_bit 16 (take_bit 8 (drop_bit 16 w))" "(0x80000000 :: u32) = push_bit 31 1"
proof -
  have m: "(0xFF :: u32) = mask 8" by (simp add: mask_eq_exp_minus_1)
  then show low: "w AND 0x000000FF = take_bit 8 w" by (simp add: take_bit_eq_mask)
  have shifted: "w AND push_bit k (mask 8) = push_bit k (take_bit 8 (drop_bit k w))" for k
    by (rule bit_word_eqI) (auto simp: bit_simps)
  have "(0xFF00 :: u32) = push_bit 8 (mask 8)" by (simp add: mask_eq_exp_minus_1 push_bit_eq_mult)
  then show "w AND 0x0000FF00 = push_bit 8 (take_bit 8 (drop_bit 8 w))" by (simp only: shifted)
  have "(0xFF0000 :: u32) = push_bit 16 (mask 8)" by (simp add: mask_eq_exp_minus_1 push_bit_eq_mult)
  then show "w AND 0x00FF0000 = push_bit 16 (take_bit 8 (drop_bit 16 w))" by (simp only: shifted)
  show "(0x80000000 :: u32) = push_bit 31 1" by (simp add: push_bit_eq_mult)
qed

lemma bit_u8_less: "bit (b :: u8) n \<Longrightarrow> n < 8"
  using bit_u8_outside by (meson not_le)

lemma bit_flag: "bit (32768 :: u32) n \<longleftrightarrow> n = 15" "bit (2147483648 :: u32) n \<longleftrightarrow> n = 31"
  "bit (32768 :: int) n \<longleftrightarrow> n = 15" "bit (32768 :: nat) n \<longleftrightarrow> n = 15"
  using bit_exp_iff [where 'a = int, of 15 n] bit_exp_iff [where 'a = nat, of 15 n]
     bit_exp_iff [where 'a = "32 word", of 15 n] bit_exp_iff [where 'a = "32 word", of 31 n]
  by auto

lemma id_fields [wire_simps]:
  "id_type (canMessageId src dest t) = t"
  "id_sender (canMessageId src dest t) = src"
  "id_destination (canMessageId src dest t) = dest"
  unfolding id_type_def id_sender_def id_destination_def canMessageId_def CAN_EFF_FLAG_def masks
  by (rule bit_word_eqI; auto simp: bit_simps bit_flag bit_u8_outside dest: bit_u8_less)+

lemma id_masked: "canMessageId src dest t AND 0x00FF0000 = push_bit 16 (ucast dest)"
  unfolding canMessageId_def CAN_EFF_FLAG_def masks
  by (rule bit_word_eqI) (auto simp: bit_simps bit_flag bit_u8_outside dest: bit_u8_less)

lemma push_ucast_inject: "push_bit 16 (ucast (a :: u8) :: u32) = push_bit 16 (ucast b) \<longleftrightarrow> a = b"
proof
  assume "push_bit 16 (ucast a :: u32) = push_bit 16 (ucast b)"
  then have "(ucast (drop_bit 16 (push_bit 16 (ucast a :: u32))) :: u8)
      = ucast (drop_bit 16 (push_bit 16 (ucast b :: u32)))" by simp
  moreover have "(ucast (drop_bit 16 (push_bit 16 (ucast c :: u32))) :: u8) = c" for c :: u8
    by (rule bit_word_eqI) (auto simp: bit_simps)
  ultimately show "a = b" by simp
qed simp

text \<open>Addressing works end to end: with the acceptance rule of the CAN controller (the identifier
  and the filter agree under the mask), a node accepts exactly the frames addressed to it or to
  everyone, and reads from the identifier the message type and the sender that were put in.\<close>

theorem message_id_addressing:
  assumes "\<And>mask f i. acc mask f i \<longleftrightarrow> i AND mask = f AND mask"
  shows "(accepted acc self (canMessageId src dest t) \<longleftrightarrow> dest = 0 \<or> dest = self) \<and>
     id_type (canMessageId src dest t) = t \<and> id_sender (canMessageId src dest t) = src"
proof -
  have filter: "push_bit 16 (ucast c :: u32) AND 0x00FF0000 = push_bit 16 (ucast c)" for c :: u8
    unfolding masks by (rule bit_word_eqI) (auto simp: bit_simps bit_flag bit_u8_outside dest: bit_u8_less)
  have zero: "push_bit 16 (ucast (0 :: u8)) = (0 :: u32)" by simp
  have "accepted acc self (canMessageId src dest t) \<longleftrightarrow>
      push_bit 16 (ucast dest :: u32) = push_bit 16 (ucast (0 :: u8)) \<or>
      push_bit 16 (ucast dest :: u32) = push_bit 16 (ucast self)"
    by (auto simp: accepted_def comm_filters_def assms id_masked filter)
  then show ?thesis unfolding push_ucast_inject by (simp add: id_fields)
qed

theorem message_id_addressing_witness:
  "\<not> accepted (\<lambda>mask f i. i AND mask = f AND mask) 3 (canMessageId 1 2 CAN_COMMANDS_REQUEST) \<and>
   accepted (\<lambda>mask f i. i AND mask = f AND mask) 3 (canMessageId 1 3 CAN_COMMANDS_REQUEST)"
  using message_id_addressing [of "\<lambda>mask f i. i AND mask = f AND mask" 3 1 2 CAN_COMMANDS_REQUEST]
    message_id_addressing [of "\<lambda>mask f i. i AND mask = f AND mask" 3 1 3 CAN_COMMANDS_REQUEST]
  by simp

subsection \<open>Sending\<close>

definition sendFrame :: "driver \<Rightarrow> io \<Rightarrow> io" where
  "sendFrame drv s =
     (let error = drv (log s) (sendingFrame s);
          s = emit [CanTx (sendingFrame s)] s
      in if error \<noteq> 0
         then emit [SerialPrint ''[ERROR] Error '', SerialPrintInt (uint error),
                SerialPrint '' sending can frame ID=0x'', SerialPrintHex (can_id (sendingFrame s)),
                SerialNewline] s
         else s)"

text \<open>\<open>put_data bs\<close> overwrites the first bytes of the data field; the others keep their value.\<close>

definition put_data :: "u8 list \<Rightarrow> can_frame \<Rightarrow> can_frame" where
  "put_data bs f = f\<lparr>can_data := bs @ drop (length bs) (can_data f)\<rparr>"

definition send_message :: "driver \<Rightarrow> u32 \<Rightarrow> nat \<Rightarrow> u8 list \<Rightarrow> io \<Rightarrow> io" where
  "send_message drv i dlc bs s =
     sendFrame drv (s\<lparr>sendingFrame :=
       put_data bs ((sendingFrame s)\<lparr>can_id := i, can_dlc := of_nat dlc\<rparr>)\<rparr>)"

definition sendCommandResponse :: "driver \<Rightarrow> u8 \<Rightarrow> u8 \<Rightarrow> u32 \<Rightarrow> io \<Rightarrow> io" where
  "sendCommandResponse drv nodeId sender v =
     send_message drv (canMessageId nodeId sender CAN_COMMANDS_RESPONSE) 4 (le_bytes v)"

definition sendCommandRequest :: "driver \<Rightarrow> u8 \<Rightarrow> u8 \<Rightarrow> command \<Rightarrow> io \<Rightarrow> io" where
  "sendCommandRequest drv nodeId dest c =
     send_message drv (canMessageId nodeId dest CAN_COMMANDS_REQUEST)
       (length (toByteArray c)) (toByteArray c)"

definition sendBroadcastWakeup :: "driver \<Rightarrow> u8 \<Rightarrow> io \<Rightarrow> io" where
  "sendBroadcastWakeup drv nodeId =
     send_message drv (canMessageId nodeId 0 CAN_WAKEUP_BROADCAST) 0 []"

definition sendCalibLedOn :: "driver \<Rightarrow> u8 \<Rightarrow> io \<Rightarrow> io" where
  "sendCalibLedOn drv nodeId = send_message drv (canMessageId nodeId 0 CAN_CALIB_LED_ON) 0 []"

definition sendCalibReady :: "driver \<Rightarrow> u8 \<Rightarrow> f32 \<Rightarrow> io \<Rightarrow> io" where
  "sendCalibReady drv nodeId val =
     send_message drv (canMessageId nodeId 0 CAN_CALIB_READY) 4 (float_bytes val)"

definition sendFrequentDataToHub :: "driver \<Rightarrow> u8 \<Rightarrow> u8 \<Rightarrow> freq_packet \<Rightarrow> io \<Rightarrow> io" where
  "sendFrequentDataToHub drv nodeId hubNode p =
     send_message drv (canMessageId nodeId hubNode CAN_FREQUENT_DATA)
       (length (freq_bytes p)) (freq_bytes p)"

definition sendDoConsensus :: "driver \<Rightarrow> u8 \<Rightarrow> io \<Rightarrow> io" where
  "sendDoConsensus drv nodeId = send_message drv (canMessageId nodeId 0 CAN_DO_CONSENSUS) 0 []"

definition sendBroadcastIsHubNode :: "driver \<Rightarrow> u8 \<Rightarrow> io \<Rightarrow> io" where
  "sendBroadcastIsHubNode drv nodeId =
     send_message drv (canMessageId nodeId 0 CAN_IS_HUB_NODE) 0 []"

definition sendBroadcastNoLongerIsHubNode :: "driver \<Rightarrow> u8 \<Rightarrow> io \<Rightarrow> io" where
  "sendBroadcastNoLongerIsHubNode drv nodeId =
     send_message drv (canMessageId nodeId 0 CAN_NO_LONGER_IS_HUB_NODE) 0 []"

end
