(* ===== verification/Mcp2515.thy ===== *)
theory Mcp2515
  imports Mcp_Tables Can_Send "HOL-Library.State_Monad"
begin

text \<open>
  The CAN controller driver, \<open>arduino-mcp2515/src/mcp2515.cpp\<close>. A method is a program of the state
  monad over the device state \<open>'c\<close>: the SPI bus with the chip behind it, and the clock. The Arduino
  core (\<open>SPI\<close>, the chip select pin, \<open>millis\<close>, \<open>delay\<close>) is not part of the sources and is the
  record of operations \<open>d\<close>, a parameter of every method. The one loop without a bound of its own, in
  \<open>setMode\<close>, takes fuel; \<^term>\<open>None\<close> is running out of it. \<open>Mcp_Chip\<close> says what the data
  sheet promises of the chip and proves the driver against it.
\<close>

record 'c spi =
  spi_begin :: "('c, unit) state"
  spi_pin_output :: "('c, unit) state"
  spi_beginTransaction :: "u32 \<Rightarrow> ('c, unit) state"
  spi_endTransaction :: "('c, unit) state"
  spi_select :: "bool \<Rightarrow> ('c, unit) state"
  spi_transfer :: "u8 \<Rightarrow> ('c, u8) state"
  millis :: "('c, u32) state"
  delay :: "nat \<Rightarrow> ('c, unit) state"

subsection \<open>SPI transactions\<close>

text \<open>\<open>spi_select\<close> writes the chip select pin \<open>SPICS\<close>; \<^term>\<open>True\<close> is \<open>HIGH\<close>.\<close>

definition SPI_CLOCK :: u32 where "SPI_CLOCK = 10000000"

definition startSPI :: "'c spi \<Rightarrow> ('c, unit) state" where
  "startSPI d = do { _ \<leftarrow> spi_beginTransaction d SPI_CLOCK; spi_select d False }"

definition endSPI :: "'c spi \<Rightarrow> ('c, unit) state" where
  "endSPI d = do { _ \<leftarrow> spi_select d True; spi_endTransaction d }"

text \<open>The constructor.\<close>

definition MCP2515_new :: "'c spi \<Rightarrow> ('c, unit) state" where
  "MCP2515_new d = do { _ \<leftarrow> spi_begin d; _ \<leftarrow> spi_pin_output d; endSPI d }"

fun read_bytes :: "'c spi \<Rightarrow> nat \<Rightarrow> ('c, u8 list) state" where
  "read_bytes d 0 = State_Monad.return []"
| "read_bytes d (Suc n) = do {
     v \<leftarrow> spi_transfer d 0x00;
     vs \<leftarrow> read_bytes d n;
     State_Monad.return (v # vs)
   }"

fun send_bytes :: "'c spi \<Rightarrow> u8 list \<Rightarrow> ('c, unit) state" where
  "send_bytes d [] = State_Monad.return ()"
| "send_bytes d (v # vs) = do { _ \<leftarrow> spi_transfer d v; send_bytes d vs }"

definition readRegister :: "'c spi \<Rightarrow> u8 \<Rightarrow> ('c, u8) state" where
  "readRegister d reg = do {
     _ \<leftarrow> startSPI d;
     _ \<leftarrow> spi_transfer d INSTRUCTION_READ;
     _ \<leftarrow> spi_transfer d reg;
     ret \<leftarrow> spi_transfer d 0x00;
     _ \<leftarrow> endSPI d;
     State_Monad.return ret
   }"

definition readRegisters :: "'c spi \<Rightarrow> u8 \<Rightarrow> nat \<Rightarrow> ('c, u8 list) state" where
  "readRegisters d reg n = do {
     _ \<leftarrow> startSPI d;
     _ \<leftarrow> spi_transfer d INSTRUCTION_READ;
     _ \<leftarrow> spi_transfer d reg;
     vs \<leftarrow> read_bytes d n;
     _ \<leftarrow> endSPI d;
     State_Monad.return vs
   }"

definition setRegister :: "'c spi \<Rightarrow> u8 \<Rightarrow> u8 \<Rightarrow> ('c, unit) state" where
  "setRegister d reg v = do {
     _ \<leftarrow> startSPI d;
     _ \<leftarrow> spi_transfer d INSTRUCTION_WRITE;
     _ \<leftarrow> spi_transfer d reg;
     _ \<leftarrow> spi_transfer d v;
     endSPI d
   }"

definition setRegisters :: "'c spi \<Rightarrow> u8 \<Rightarrow> u8 list \<Rightarrow> ('c, unit) state" where
  "setRegisters d reg vs = do {
     _ \<leftarrow> startSPI d;
     _ \<leftarrow> spi_transfer d INSTRUCTION_WRITE;
     _ \<leftarrow> spi_transfer d reg;
     _ \<leftarrow> send_bytes d vs;
     endSPI d
   }"

definition modifyRegister :: "'c spi \<Rightarrow> u8 \<Rightarrow> u8 \<Rightarrow> u8 \<Rightarrow> ('c, unit) state" where
  "modifyRegister d reg msk data = do {
     _ \<leftarrow> startSPI d;
     _ \<leftarrow> spi_transfer d INSTRUCTION_BITMOD;
     _ \<leftarrow> spi_transfer d reg;
     _ \<leftarrow> spi_transfer d msk;
     _ \<leftarrow> spi_transfer d data;
     endSPI d
   }"

definition getStatus :: "'c spi \<Rightarrow> ('c, u8) state" where
  "getStatus d = do {
     _ \<leftarrow> startSPI d;
     _ \<leftarrow> spi_transfer d INSTRUCTION_READ_STATUS;
     i \<leftarrow> spi_transfer d 0x00;
     _ \<leftarrow> endSPI d;
     State_Monad.return i
   }"

lemma read_bytes_1: "read_bytes d 1 = do { v \<leftarrow> spi_transfer d 0; State_Monad.return [v] }"
  by simp

lemma setRegister_list: "setRegister d reg v = setRegisters d reg [v]"
  by (simp add: setRegister_def setRegisters_def)

subsection \<open>Modes\<close>

fun poll_mode :: "'c spi \<Rightarrow> nat \<Rightarrow> u8 \<Rightarrow> u32 \<Rightarrow> ('c, bool option) state" where
  "poll_mode d 0 mode endTime = State_Monad.return None"
| "poll_mode d (Suc fuel) mode endTime = do {
     t \<leftarrow> millis d;
     if t < endTime then do {
       newmode \<leftarrow> readRegister d MCP_CANSTAT;
       if newmode AND CANSTAT_OPMOD = mode then State_Monad.return (Some True)
       else poll_mode d fuel mode endTime
     } else State_Monad.return (Some False)
   }"

definition setMode :: "'c spi \<Rightarrow> nat \<Rightarrow> u8 \<Rightarrow> ('c, mcp_error option) state" where
  "setMode d fuel mode = do {
     _ \<leftarrow> modifyRegister d MCP_CANCTRL CANCTRL_REQOP mode;
     t \<leftarrow> millis d;
     modeMatch \<leftarrow> poll_mode d fuel mode (t + 10);
     State_Monad.return (map_option (\<lambda>b. if b then ERROR_OK else ERROR_FAIL) modeMatch)
   }"

definition setConfigMode :: "'c spi \<Rightarrow> nat \<Rightarrow> ('c, mcp_error option) state" where
  "setConfigMode d fuel = setMode d fuel CANCTRL_REQOP_CONFIG"

definition setListenOnlyMode :: "'c spi \<Rightarrow> nat \<Rightarrow> ('c, mcp_error option) state" where
  "setListenOnlyMode d fuel = setMode d fuel CANCTRL_REQOP_LISTENONLY"

definition setSleepMode :: "'c spi \<Rightarrow> nat \<Rightarrow> ('c, mcp_error option) state" where
  "setSleepMode d fuel = setMode d fuel CANCTRL_REQOP_SLEEP"

definition setLoopbackMode :: "'c spi \<Rightarrow> nat \<Rightarrow> ('c, mcp_error option) state" where
  "setLoopbackMode d fuel = setMode d fuel CANCTRL_REQOP_LOOPBACK"

definition setNormalMode :: "'c spi \<Rightarrow> nat \<Rightarrow> ('c, mcp_error option) state" where
  "setNormalMode d fuel = setMode d fuel CANCTRL_REQOP_NORMAL"

text \<open>\<open>if (res != ERROR_OK) return res;\<close> before the rest of a method.\<close>

definition on_ok ::
    "('c, mcp_error option) state \<Rightarrow> ('c, mcp_error option) state \<Rightarrow> ('c, mcp_error option) state" where
  "on_ok m k = do { res \<leftarrow> m; if res = Some ERROR_OK then k else State_Monad.return res }"

subsection \<open>Configuration\<close>

definition setBitrate ::
    "'c spi \<Rightarrow> nat \<Rightarrow> can_speed \<Rightarrow> can_clock \<Rightarrow> ('c, mcp_error option) state" where
  "setBitrate d fuel canSpeed canClock =
     on_ok (setConfigMode d fuel)
       (case bit_config canClock canSpeed of
          Some (cfg1, cfg2, cfg3) \<Rightarrow> do {
            _ \<leftarrow> setRegister d MCP_CNF1 cfg1;
            _ \<leftarrow> setRegister d MCP_CNF2 cfg2;
            _ \<leftarrow> setRegister d MCP_CNF3 cfg3;
            State_Monad.return (Some ERROR_OK)
          }
        | None \<Rightarrow> State_Monad.return (Some ERROR_FAIL))"

definition setBitrate_16MHz :: "'c spi \<Rightarrow> nat \<Rightarrow> can_speed \<Rightarrow> ('c, mcp_error option) state" where
  "setBitrate_16MHz d fuel canSpeed = setBitrate d fuel canSpeed MCP_16MHZ"

definition clkout_value :: "can_clkout \<Rightarrow> u8" where
  "clkout_value c =
     (case c of CLKOUT_DISABLE \<Rightarrow> 0xFF | CLKOUT_DIV1 \<Rightarrow> 0 | CLKOUT_DIV2 \<Rightarrow> 1 | CLKOUT_DIV4 \<Rightarrow> 2
      | CLKOUT_DIV8 \<Rightarrow> 3)"

definition setClkOut :: "'c spi \<Rightarrow> can_clkout \<Rightarrow> ('c, mcp_error) state" where
  "setClkOut d divisor =
     (if divisor = CLKOUT_DISABLE then do {
        _ \<leftarrow> modifyRegister d MCP_CANCTRL CANCTRL_CLKEN 0x00;
        _ \<leftarrow> modifyRegister d MCP_CNF3 CNF3_SOF CNF3_SOF;
        State_Monad.return ERROR_OK
      } else do {
        _ \<leftarrow> modifyRegister d MCP_CANCTRL CANCTRL_CLKPRE (clkout_value divisor);
        _ \<leftarrow> modifyRegister d MCP_CANCTRL CANCTRL_CLKEN CANCTRL_CLKEN;
        _ \<leftarrow> modifyRegister d MCP_CNF3 CNF3_SOF 0x00;
        State_Monad.return ERROR_OK
      })"

text \<open>The four bytes \<open>SIDH\<close>, \<open>SIDL\<close>, \<open>EID8\<close>, \<open>EID0\<close>, in the order of the buffer.\<close>

definition prepareId :: "bool \<Rightarrow> u32 \<Rightarrow> u8 list" where
  "prepareId ext i =
     (let canid = (ucast (i AND 0x0FFFF) :: u16)
      in if ext then
           (let EID0 = ucast (canid AND 0xFF);
                EID8 = ucast (drop_bit 8 canid);
                canid = (ucast (drop_bit 16 i) :: u16);
                SIDL = (ucast (canid AND 0x03) + ucast (push_bit 3 (canid AND 0x1C))) OR TXB_EXIDE_MASK;
                SIDH = ucast (drop_bit 5 canid)
            in [SIDH, SIDL, EID8, EID0])
         else [ucast (drop_bit 3 canid), ucast (push_bit 5 (canid AND 0x07)), 0, 0])"

definition mask_reg :: "MASK \<Rightarrow> u8" where
  "mask_reg m = (case m of MASK0 \<Rightarrow> MCP_RXM0SIDH | MASK1 \<Rightarrow> MCP_RXM1SIDH)"

definition filter_reg :: "RXF \<Rightarrow> u8" where
  "filter_reg f =
     (case f of RXF0 \<Rightarrow> MCP_RXF0SIDH | RXF1 \<Rightarrow> MCP_RXF1SIDH | RXF2 \<Rightarrow> MCP_RXF2SIDH
      | RXF3 \<Rightarrow> MCP_RXF3SIDH | RXF4 \<Rightarrow> MCP_RXF4SIDH | RXF5 \<Rightarrow> MCP_RXF5SIDH)"

definition setFilterMask ::
    "'c spi \<Rightarrow> nat \<Rightarrow> MASK \<Rightarrow> bool \<Rightarrow> u32 \<Rightarrow> ('c, mcp_error option) state" where
  "setFilterMask d fuel num ext ulData =
     on_ok (setConfigMode d fuel) (do {
       _ \<leftarrow> setRegisters d (mask_reg num) (prepareId ext ulData);
       State_Monad.return (Some ERROR_OK)
     })"

definition setFilter ::
    "'c spi \<Rightarrow> nat \<Rightarrow> RXF \<Rightarrow> bool \<Rightarrow> u32 \<Rightarrow> ('c, mcp_error option) state" where
  "setFilter d fuel num ext ulData =
     on_ok (setConfigMode d fuel) (do {
       _ \<leftarrow> setRegisters d (filter_reg num) (prepareId ext ulData);
       State_Monad.return (Some ERROR_OK)
     })"

fun clear_filters :: "'c spi \<Rightarrow> nat \<Rightarrow> RXF list \<Rightarrow> ('c, mcp_error option) state" where
  "clear_filters d fuel [] = State_Monad.return (Some ERROR_OK)"
| "clear_filters d fuel (f # fs) =
     on_ok (setFilter d fuel f (f = RXF1) 0) (clear_filters d fuel fs)"

fun clear_masks :: "'c spi \<Rightarrow> nat \<Rightarrow> MASK list \<Rightarrow> ('c, mcp_error option) state" where
  "clear_masks d fuel [] = State_Monad.return (Some ERROR_OK)"
| "clear_masks d fuel (m # ms) = on_ok (setFilterMask d fuel m True 0) (clear_masks d fuel ms)"

text \<open>The instruction, and the registers \<open>reset\<close> writes before the filters.\<close>

definition reset_chip :: "'c spi \<Rightarrow> ('c, unit) state" where
  "reset_chip d = do {
     _ \<leftarrow> startSPI d;
     _ \<leftarrow> spi_transfer d INSTRUCTION_RESET;
     _ \<leftarrow> endSPI d;
     delay d 10
   }"

definition reset_registers :: "'c spi \<Rightarrow> ('c, unit) state" where
  "reset_registers d = do {
     _ \<leftarrow> setRegisters d MCP_TXB0CTRL (replicate 14 0);
     _ \<leftarrow> setRegisters d MCP_TXB1CTRL (replicate 14 0);
     _ \<leftarrow> setRegisters d MCP_TXB2CTRL (replicate 14 0);
     _ \<leftarrow> setRegister d MCP_RXB0CTRL 0;
     _ \<leftarrow> setRegister d MCP_RXB1CTRL 0;
     _ \<leftarrow> setRegister d MCP_CANINTE (CANINTF_RX0IF OR CANINTF_RX1IF OR CANINTF_ERRIF OR CANINTF_MERRF);
     _ \<leftarrow> modifyRegister d MCP_RXB0CTRL
            (RXBnCTRL_RXM_MASK OR RXB0CTRL_BUKT OR RXB0CTRL_FILHIT_MASK)
            (RXBnCTRL_RXM_STDEXT OR RXB0CTRL_BUKT OR RXB0CTRL_FILHIT);
     modifyRegister d MCP_RXB1CTRL
            (RXBnCTRL_RXM_MASK OR RXB1CTRL_FILHIT_MASK)
            (RXBnCTRL_RXM_STDEXT OR RXB1CTRL_FILHIT)
   }"

definition mcp_reset :: "'c spi \<Rightarrow> nat \<Rightarrow> ('c, mcp_error option) state" where
  "mcp_reset d fuel = do {
     _ \<leftarrow> reset_chip d;
     _ \<leftarrow> reset_registers d;
     on_ok (clear_filters d fuel [RXF0, RXF1, RXF2, RXF3, RXF4, RXF5])
       (clear_masks d fuel [MASK0, MASK1])
   }"

subsection \<open>Messages\<close>

text \<open>The bytes of a transmit buffer from its \<open>SIDH\<close> register on.\<close>

definition tx_image :: "can_frame \<Rightarrow> u8 list" where
  "tx_image f =
     (let ext = can_id f AND CAN_EFF_FLAG \<noteq> 0;
          rtr = can_id f AND CAN_RTR_FLAG \<noteq> 0;
          i = can_id f AND (if ext then CAN_EFF_MASK else CAN_SFF_MASK)
      in prepareId ext i @ [if rtr then can_dlc f OR RTR_MASK else can_dlc f] @
           take (unat (can_dlc f)) (can_data f))"

definition sendMessage_buffer :: "'c spi \<Rightarrow> TXBn \<Rightarrow> can_frame \<Rightarrow> ('c, mcp_error) state" where
  "sendMessage_buffer d txbn f =
     (if can_dlc f > CAN_MAX_DLEN then State_Monad.return ERROR_FAILTX
      else do {
        _ \<leftarrow> setRegisters d (tx_SIDH (TXB txbn)) (tx_image f);
        _ \<leftarrow> modifyRegister d (tx_CTRL (TXB txbn)) TXB_TXREQ TXB_TXREQ;
        ctrl \<leftarrow> readRegister d (tx_CTRL (TXB txbn));
        State_Monad.return
          (if ctrl AND (TXB_ABTF OR TXB_MLOA OR TXB_TXERR) \<noteq> 0 then ERROR_FAILTX else ERROR_OK)
      })"

fun first_free :: "'c spi \<Rightarrow> TXBn list \<Rightarrow> can_frame \<Rightarrow> ('c, mcp_error) state" where
  "first_free d [] f = State_Monad.return ERROR_ALLTXBUSY"
| "first_free d (b # bs) f = do {
     ctrlval \<leftarrow> readRegister d (tx_CTRL (TXB b));
     if ctrlval AND TXB_TXREQ = 0 then sendMessage_buffer d b f else first_free d bs f
   }"

definition sendMessage :: "'c spi \<Rightarrow> can_frame \<Rightarrow> ('c, mcp_error) state" where
  "sendMessage d f =
     (if can_dlc f > CAN_MAX_DLEN then State_Monad.return ERROR_FAILTX
      else first_free d [TXB0, TXB1, TXB2] f)"

text \<open>The identifier from the bytes \<open>SIDH\<close>, \<open>SIDL\<close>, \<open>EID8\<close>, \<open>EID0\<close>.\<close>

definition read_id :: "u8 \<Rightarrow> u8 \<Rightarrow> u8 \<Rightarrow> u8 \<Rightarrow> u32" where
  "read_id sidh sidl eid8 eid0 =
     (let i = (push_bit 3 (ucast sidh) + ucast (drop_bit 5 sidl) :: u32)
      in if sidl AND TXB_EXIDE_MASK = TXB_EXIDE_MASK then
           (let i = push_bit 2 i + ucast (sidl AND 0x03);
                i = push_bit 8 i + ucast eid8;
                i = push_bit 8 i + ucast eid0
            in i OR CAN_EFF_FLAG)
         else i)"

text \<open>\<open>f\<close> is what the caller's frame holds before the call.\<close>

definition readMessage_buffer ::
    "'c spi \<Rightarrow> RXBn \<Rightarrow> can_frame \<Rightarrow> ('c, mcp_error \<times> can_frame) state" where
  "readMessage_buffer d rxbn f = do {
     tbufdata \<leftarrow> readRegisters d (rx_SIDH (RXB rxbn)) 5;
     let i = read_id (tbufdata ! 0) (tbufdata ! 1) (tbufdata ! 2) (tbufdata ! 3);
     let dlc = tbufdata ! 4 AND DLC_MASK;
     if dlc > CAN_MAX_DLEN then State_Monad.return (ERROR_FAIL, f)
     else do {
       ctrl \<leftarrow> readRegister d (rx_CTRL (RXB rxbn));
       let i = (if ctrl AND RXBnCTRL_RTR \<noteq> 0 then i OR CAN_RTR_FLAG else i);
       data \<leftarrow> readRegisters d (rx_DATA (RXB rxbn)) (unat dlc);
       _ \<leftarrow> modifyRegister d MCP_CANINTF (rx_IF (RXB rxbn)) 0;
       State_Monad.return
         (ERROR_OK, \<lparr>can_id = i, can_dlc = dlc, can_data = data @ drop (unat dlc) (can_data f)\<rparr>)
     }
   }"

definition readMessage :: "'c spi \<Rightarrow> can_frame \<Rightarrow> ('c, mcp_error \<times> can_frame) state" where
  "readMessage d f = do {
     stat \<leftarrow> getStatus d;
     if stat AND STAT_RX0IF \<noteq> 0 then readMessage_buffer d RXB0 f
     else if stat AND STAT_RX1IF \<noteq> 0 then readMessage_buffer d RXB1 f
     else State_Monad.return (ERROR_NOMSG, f)
   }"

subsection \<open>Flags\<close>

definition checkReceive :: "'c spi \<Rightarrow> ('c, bool) state" where
  "checkReceive d = do { res \<leftarrow> getStatus d; State_Monad.return (res AND STAT_RXIF_MASK \<noteq> 0) }"

definition getErrorFlags :: "'c spi \<Rightarrow> ('c, u8) state" where
  "getErrorFlags d = readRegister d MCP_EFLG"

definition checkError :: "'c spi \<Rightarrow> ('c, bool) state" where
  "checkError d = do { eflg \<leftarrow> getErrorFlags d; State_Monad.return (eflg AND EFLG_ERRORMASK \<noteq> 0) }"

definition clearRXnOVRFlags :: "'c spi \<Rightarrow> ('c, unit) state" where
  "clearRXnOVRFlags d = modifyRegister d MCP_EFLG (EFLG_RX0OVR OR EFLG_RX1OVR) 0"

definition getInterrupts :: "'c spi \<Rightarrow> ('c, u8) state" where
  "getInterrupts d = readRegister d MCP_CANINTF"

definition clearInterrupts :: "'c spi \<Rightarrow> ('c, unit) state" where
  "clearInterrupts d = setRegister d MCP_CANINTF 0"

definition getInterruptMask :: "'c spi \<Rightarrow> ('c, u8) state" where
  "getInterruptMask d = readRegister d MCP_CANINTE"

definition clearTXInterrupts :: "'c spi \<Rightarrow> ('c, unit) state" where
  "clearTXInterrupts d =
     modifyRegister d MCP_CANINTF (CANINTF_TX0IF OR CANINTF_TX1IF OR CANINTF_TX2IF) 0"

definition clearRXnOVR :: "'c spi \<Rightarrow> ('c, unit) state" where
  "clearRXnOVR d = do {
     eflg \<leftarrow> getErrorFlags d;
     if eflg \<noteq> 0 then do { _ \<leftarrow> clearRXnOVRFlags d; clearInterrupts d } else State_Monad.return ()
   }"

definition clearMERR :: "'c spi \<Rightarrow> ('c, unit) state" where
  "clearMERR d = modifyRegister d MCP_CANINTF CANINTF_MERRF 0"

definition clearERRIF :: "'c spi \<Rightarrow> ('c, unit) state" where
  "clearERRIF d = modifyRegister d MCP_CANINTF CANINTF_ERRIF 0"

subsection \<open>The use of the driver\<close>

text \<open>\<open>Communication::init\<close> ignores every result; only running out of fuel ends it here.\<close>

definition then_ignore :: "('c, 'a option) state \<Rightarrow> ('c, 'b option) state \<Rightarrow> ('c, 'b option) state" where
  "then_ignore m k = do { r \<leftarrow> m; if r = None then State_Monad.return None else k }"

definition communication_init :: "'c spi \<Rightarrow> nat \<Rightarrow> u8 \<Rightarrow> ('c, mcp_error option) state" where
  "communication_init d fuel nodeId =
     then_ignore (mcp_reset d fuel)
    (then_ignore (setBitrate d fuel CAN_1000KBPS MCP_16MHZ)
    (then_ignore (setFilterMask d fuel MASK0 True 0x00FF0000)
    (then_ignore (setFilter d fuel RXF0 True 0)
    (then_ignore (setFilter d fuel RXF1 True (push_bit 16 (ucast nodeId)))
    (then_ignore (setFilterMask d fuel MASK1 True 0x00FF0000)
    (then_ignore (setFilter d fuel RXF2 True 0)
    (then_ignore (setFilter d fuel RXF3 True (push_bit 16 (ucast nodeId)))
       (setNormalMode d fuel))))))))"

text \<open>
  The device side of \<open>irqHandler\<close> in \<open>main.cpp\<close>. The error code of \<open>readMessage\<close> is ignored there; the
  results are the arguments of the handler of the node, and \<open>frm\<close> what its local frame holds at first.
\<close>

definition irq_read :: "'c spi \<Rightarrow> RXBn \<Rightarrow> can_frame \<Rightarrow> ('c, bool \<times> can_frame) state" where
  "irq_read d rxbn frm = do {
     irq \<leftarrow> getInterrupts d;
     if irq AND rx_IF (RXB rxbn) \<noteq> 0 then do {
       r \<leftarrow> readMessage_buffer d rxbn frm;
       State_Monad.return (True, snd r)
     } else State_Monad.return (False, frm)
   }"

definition irq_overflow :: "'c spi \<Rightarrow> ('c, bool) state" where
  "irq_overflow d = do {
     irq_error \<leftarrow> getErrorFlags d;
     if (irq_error AND EFLG_RX0OVR) OR (irq_error AND EFLG_RX1OVR) \<noteq> 0 then do {
       _ \<leftarrow> clearRXnOVRFlags d;
       State_Monad.return True
     } else State_Monad.return False
   }"

definition irq_device ::
    "'c spi \<Rightarrow> can_frame \<Rightarrow> ('c, bool \<times> can_frame \<times> bool \<times> can_frame \<times> bool) state" where
  "irq_device d frm = do {
     r0 \<leftarrow> irq_read d RXB0 frm;
     r1 \<leftarrow> irq_read d RXB1 (snd r0);
     overflow \<leftarrow> irq_overflow d;
     State_Monad.return (fst r0, snd r0, fst r1, snd r1, overflow)
   }"

end
