(* ===== verification/Mcp_Chip.thy ===== *)
theory Mcp_Chip
  imports Mcp2515
begin

text \<open>
  What the data sheet of the MCP2515 promises of the chip, as hypotheses on the device parameter of the
  driver, and the rules for driver methods that follow. The chip is seen through \<open>regs c\<close>, its register
  file, and \<open>us c\<close>, the microseconds since the start of the node. The chip also acts on its own
  (frames arrive and leave, errors are flagged, a requested mode is entered), so each law speaks of the
  bits the chip leaves alone, \<open>kept\<close>. The laws are on whole transactions. A chip that is a plain memory
  behind the SPI protocol, in \<open>Mcp_Memory\<close>, shows that they can hold.
\<close>

type_synonym regfile = "u8 \<Rightarrow> u8"

subsection \<open>Agreement of two values on the bits of a mask\<close>

definition agree :: "u8 \<Rightarrow> u8 \<Rightarrow> u8 \<Rightarrow> bool" where
  "agree m x y \<longleftrightarrow> x AND m = y AND m"

lemma agree_bits: "agree m x y \<longleftrightarrow> (\<forall>k. bit m k \<longrightarrow> bit x k = bit y k)"
proof
  assume "agree m x y"
  then have "bit (x AND m) k = bit (y AND m) k" for k by (simp add: agree_def)
  then show "\<forall>k. bit m k \<longrightarrow> bit x k = bit y k" by (simp add: bit_and_iff) blast
next
  assume "\<forall>k. bit m k \<longrightarrow> bit x k = bit y k"
  then show "agree m x y" unfolding agree_def by (intro bit_word_eqI) (auto simp: bit_and_iff)
qed

lemma agree_refl [simp]: "agree m x x"
  by (simp add: agree_def)

lemma agree_0 [simp]: "agree 0 x y"
  by (simp add: agree_def)

lemma agree_full [simp]: "agree (- 1) x y \<longleftrightarrow> x = y"
  by (simp add: agree_def)

lemma agree_FF [simp]: "agree 0xFF x y \<longleftrightarrow> x = y"
proof -
  have "(0xFF :: u8) = - 1" by simp
  then show ?thesis by (simp only: agree_full)
qed

lemma agree_sym: "agree m x y \<Longrightarrow> agree m y x"
  by (simp add: agree_def)

lemma agree_trans: "agree m x y \<Longrightarrow> agree m y z \<Longrightarrow> agree m x z"
  by (simp add: agree_def)

lemma agree_less:
  assumes "agree m x y" "m' AND m = m'"
  shows "agree m' x y"
proof -
  have "z AND m' = (z AND m) AND m'" for z
    using assms(2) by (metis and.assoc and.commute)
  with assms(1) show ?thesis unfolding agree_def by metis
qed

lemma agree_test: "agree m x y \<Longrightarrow> m' AND m = m' \<Longrightarrow> x AND m' = y AND m'"
  using agree_less agree_def by blast

subsection \<open>Modes\<close>

definition opmod :: "regfile \<Rightarrow> u8" where
  "opmod r = r MCP_CANSTAT AND CANSTAT_OPMOD"

definition reqop :: "regfile \<Rightarrow> u8" where
  "reqop r = r MCP_CANCTRL AND CANCTRL_REQOP"

definition config_mode :: "regfile \<Rightarrow> bool" where
  "config_mode r \<longleftrightarrow> opmod r = CANCTRL_REQOP_CONFIG \<and> reqop r = CANCTRL_REQOP_CONFIG"

subsection \<open>What the chip keeps\<close>

text \<open>
  The acceptance filters and masks, the bit timing registers and \<open>CANINTE\<close>: the chip never changes
  them. The registers of the transmit buffers behind their control register likewise.
\<close>

definition filter_area :: "u8 \<Rightarrow> bool" where
  "filter_area a \<longleftrightarrow>
     unat a < 0x0C \<or> 0x10 \<le> unat a \<and> unat a < 0x1C \<or> 0x20 \<le> unat a \<and> unat a < 0x28"

definition tx_area :: "u8 \<Rightarrow> bool" where
  "tx_area a \<longleftrightarrow>
     0x30 < unat a \<and> unat a < 0x3E \<or> 0x40 < unat a \<and> unat a < 0x4E \<or> 0x50 < unat a \<and> unat a < 0x5E"

definition rx_area :: "RXBn \<Rightarrow> u8 \<Rightarrow> bool" where
  "rx_area n a \<longleftrightarrow> 
     (case n of RXB0 \<Rightarrow> 0x60 < unat a \<and> unat a < 0x6E | RXB1 \<Rightarrow> 0x70 < unat a \<and> unat a < 0x7E)"

definition rx_full :: "regfile \<Rightarrow> RXBn \<Rightarrow> bool" where
  "rx_full r n \<longleftrightarrow> r MCP_CANINTF AND rx_IF (RXB n) \<noteq> 0"

text \<open>
  The bits of a register the chip does not change by itself: the mode while it is the requested one, an
  interrupt or overflow flag that is set, a request to send that is not set, and a receive buffer with
  its remote frame bit while its interrupt flag is set.
\<close>

definition kept :: "regfile \<Rightarrow> u8 \<Rightarrow> u8" where
  "kept r a =
     (if filter_area a \<or> tx_area a \<or> a \<in> {MCP_CNF1, MCP_CNF2, MCP_CNF3, MCP_CANINTE} then 0xFF
      else if a = MCP_CANCTRL then 0xE7
      else if a = MCP_CANSTAT then
        (if opmod r = reqop r \<and> opmod r \<noteq> CANCTRL_REQOP_SLEEP then 0xE0 else 0)
      else if a = MCP_CANINTF then r MCP_CANINTF
      else if a = MCP_EFLG then r MCP_EFLG AND 0xC0
      else if a \<in> {MCP_TXB0CTRL, MCP_TXB1CTRL, MCP_TXB2CTRL} then NOT (r a) AND TXB_TXREQ
      else if a = MCP_RXB0CTRL then (if rx_full r RXB0 then 0x6C else 0x64)
      else if a = MCP_RXB1CTRL then (if rx_full r RXB1 then 0x68 else 0x60)
      else if rx_area RXB0 a \<and> rx_full r RXB0 \<or> rx_area RXB1 a \<and> rx_full r RXB1 then 0xFF
      else 0)"

definition chip_quiet :: "regfile \<Rightarrow> regfile \<Rightarrow> bool" where
  "chip_quiet r r' \<longleftrightarrow> (\<forall>a. agree (kept r a) (r a) (r' a))"

text \<open>
  The implemented bits of an identifier group: \<open>SIDL\<close> has no bits 2 and 4, and that of a mask no bit 3.
  They can be written in configuration mode; those of a transmit buffer while it is not sending.
\<close>

definition implemented :: "u8 \<Rightarrow> u8" where
  "implemented a =
     (if a \<in> {MCP_RXM0SIDH + 1, MCP_RXM1SIDH + 1} then 0xE3
      else if a \<in> {MCP_RXF0SIDH + 1, MCP_RXF1SIDH + 1, MCP_RXF2SIDH + 1, MCP_RXF3SIDH + 1,
        MCP_RXF4SIDH + 1, MCP_RXF5SIDH + 1, MCP_TXB0SIDH + 1, MCP_TXB1SIDH + 1, MCP_TXB2SIDH + 1}
      then 0xEB
      else if a \<in> {MCP_TXB0SIDH + 4, MCP_TXB1SIDH + 4, MCP_TXB2SIDH + 4} then 0x4F
      else 0xFF)"

definition tx_idle :: "regfile \<Rightarrow> TXBn \<Rightarrow> bool" where
  "tx_idle r b \<longleftrightarrow> r (tx_CTRL (TXB b)) AND TXB_TXREQ = 0"

definition tx_of :: "u8 \<Rightarrow> TXBn" where
  "tx_of a = (if unat a < 0x40 then TXB0 else if unat a < 0x50 then TXB1 else TXB2)"

definition writable :: "regfile \<Rightarrow> u8 \<Rightarrow> u8" where
  "writable r a =
     (if filter_area a \<or> a \<in> {MCP_CNF1, MCP_CNF2, MCP_CNF3}
      then (if config_mode r then implemented a else 0)
      else if tx_area a then (if tx_idle r (tx_of a) then implemented a else 0)
      else if a \<in> {MCP_CANINTE, MCP_CANINTF} then 0xFF
      else if a = MCP_CANCTRL then 0xE7
      else if a = MCP_EFLG then 0xC0
      else if a = MCP_RXB0CTRL then 0x64
      else if a = MCP_RXB1CTRL then 0x60
      else 0)"

subsection \<open>The laws\<close>

text \<open>A read returns the kept bits; a single read returns what the register holds then.\<close>

definition chip_reads :: "'c spi \<Rightarrow> ('c \<Rightarrow> regfile) \<Rightarrow> bool" where
  "chip_reads d regs \<longleftrightarrow>
     (\<forall>c reg n vs c'. run_state (readRegisters d reg n) c = (vs, c') \<longrightarrow> unat reg + n \<le> 128 \<longrightarrow>
        length vs = n \<and> chip_quiet (regs c) (regs c') \<and> (n = 1 \<longrightarrow> vs = [regs c' reg]) \<and>
        (\<forall>i<n. agree (kept (regs c) (reg + of_nat i)) (regs c (reg + of_nat i)) (vs ! i)))"

definition chip_writes :: "'c spi \<Rightarrow> ('c \<Rightarrow> regfile) \<Rightarrow> bool" where
  "chip_writes d regs \<longleftrightarrow>
     (\<forall>c reg vs c'. run_state (setRegisters d reg vs) c = ((), c') \<longrightarrow> unat reg + length vs \<le> 128 \<longrightarrow>
        (\<forall>i<length vs. reg + of_nat i \<noteq> MCP_CANCTRL) \<longrightarrow>
        (\<forall>a. (\<forall>i<length vs. a \<noteq> reg + of_nat i) \<longrightarrow> agree (kept (regs c) a) (regs c a) (regs c' a)) \<and>
        (\<forall>i<length vs. agree (writable (regs c) (reg + of_nat i)) (vs ! i) (regs c' (reg + of_nat i))))"

text \<open>The registers with the bit modify instruction that the driver uses it on.\<close>

definition modifiable :: "u8 set" where
  "modifiable = {MCP_CANCTRL, MCP_CANINTF, MCP_EFLG, MCP_CNF3, MCP_TXB0CTRL, MCP_TXB1CTRL, MCP_TXB2CTRL,
     MCP_RXB0CTRL, MCP_RXB1CTRL}"

definition chip_modifies :: "'c spi \<Rightarrow> ('c \<Rightarrow> regfile) \<Rightarrow> bool" where
  "chip_modifies d regs \<longleftrightarrow>
     (\<forall>c reg msk data c'. run_state (modifyRegister d reg msk data) c = ((), c') \<longrightarrow> reg \<in> modifiable \<longrightarrow>
        (\<forall>a. a \<noteq> reg \<longrightarrow> (reg = MCP_CANCTRL \<longrightarrow> a \<noteq> MCP_CANSTAT) \<longrightarrow>
           agree (kept (regs c) a) (regs c a) (regs c' a)) \<and>
        (reg = MCP_CANCTRL \<longrightarrow> opmod (regs c') \<in> {opmod (regs c), reqop (regs c), reqop (regs c')}) \<and>
        agree (kept (regs c) reg AND NOT msk) (regs c reg) (regs c' reg) \<and>
        agree (writable (regs c) reg AND msk) data (regs c' reg))"

definition chip_resets :: "'c spi \<Rightarrow> ('c \<Rightarrow> regfile) \<Rightarrow> bool" where
  "chip_resets d regs \<longleftrightarrow>
     (\<forall>c c'. run_state (reset_chip d) c = ((), c') \<longrightarrow> config_mode (regs c'))"

text \<open>
  \<open>millis\<close> reads the clock. A transaction takes at least one microsecond and less than a millisecond,
  the reset with its delay of 10 ms less than 20 ms.
\<close>

definition chip_clock :: "'c spi \<Rightarrow> ('c \<Rightarrow> nat) \<Rightarrow> bool" where
  "chip_clock d us \<longleftrightarrow>
     (\<forall>c. run_state (millis d) c = (of_nat (us c div 1000), c)) \<and>
     (\<forall>c reg n. n \<le> 14 \<longrightarrow> snd (run_state (readRegisters d reg n) c) \<in> {c'. us c < us c' \<and> us c' < us c + 1000}) \<and>
     (\<forall>c reg vs. length vs \<le> 14 \<longrightarrow>
        snd (run_state (setRegisters d reg vs) c) \<in> {c'. us c < us c' \<and> us c' < us c + 1000}) \<and>
     (\<forall>c reg msk data.
        snd (run_state (modifyRegister d reg msk data) c) \<in> {c'. us c < us c' \<and> us c' < us c + 1000}) \<and>
     (\<forall>c. snd (run_state (reset_chip d) c) \<in> {c'. us c < us c' \<and> us c' < us c + 20000})"

definition mcp_chip :: "'c spi \<Rightarrow> ('c \<Rightarrow> regfile) \<Rightarrow> ('c \<Rightarrow> nat) \<Rightarrow> bool" where
  "mcp_chip d regs us \<longleftrightarrow>
     chip_reads d regs \<and> chip_writes d regs \<and> chip_modifies d regs \<and> chip_resets d regs \<and> chip_clock d us"

subsection \<open>Correctness triples of driver programs\<close>

definition triple :: "('c \<Rightarrow> bool) \<Rightarrow> ('c, 'a) state \<Rightarrow> ('a \<Rightarrow> 'c \<Rightarrow> bool) \<Rightarrow> bool" where
  "triple P m Q \<longleftrightarrow> (\<forall>c r c'. P c \<longrightarrow> run_state m c = (r, c') \<longrightarrow> Q r c')"

lemma triple_return: "(\<And>c. P c \<Longrightarrow> Q v c) \<Longrightarrow> triple P (State_Monad.return v) Q"
  by (simp add: triple_def)

lemma triple_bind: "triple P m R \<Longrightarrow> (\<And>v. triple (R v) (k v) Q) \<Longrightarrow> triple P (State_Monad.bind m k) Q"
  unfolding triple_def by (fastforce split: prod.splits)

lemma triple_pre: "triple P m Q \<Longrightarrow> (\<And>c. P' c \<Longrightarrow> P c) \<Longrightarrow> triple P' m Q"
  by (auto simp: triple_def)

lemma triple_post: "triple P m Q \<Longrightarrow> (\<And>r c. Q r c \<Longrightarrow> Q' r c) \<Longrightarrow> triple P m Q'"
  unfolding triple_def by blast

lemma triple_if: "(b \<Longrightarrow> triple P m Q) \<Longrightarrow> (\<not> b \<Longrightarrow> triple P k Q) \<Longrightarrow> triple P (if b then m else k) Q"
  by simp

lemma triple_pure: "(F \<Longrightarrow> triple P m Q) \<Longrightarrow> triple (\<lambda>c. F \<and> P c) m Q"
  unfolding triple_def by blast

lemma tripleD: "triple P m Q \<Longrightarrow> P c \<Longrightarrow> run_state m c = (r, c') \<Longrightarrow> Q r c'"
  unfolding triple_def by blast

subsection \<open>What the chip does between the transactions\<close>

lemma agree_test0: "agree m x y \<Longrightarrow> m' AND m = m' \<Longrightarrow> x AND m' = 0 \<longleftrightarrow> y AND m' = 0"
  by (metis agree_test)

lemma chip_quiet_refl [simp]: "chip_quiet r r"
  by (simp add: chip_quiet_def)

lemma chip_quietD: "chip_quiet r r' \<Longrightarrow> agree (kept r a) (r a) (r' a)"
  by (simp add: chip_quiet_def)

lemma kept_static:
  "filter_area a \<or> tx_area a \<or> a \<in> {MCP_CNF1, MCP_CNF2, MCP_CNF3, MCP_CANINTE} \<Longrightarrow> kept r a = 0xFF"
  by (simp add: kept_def)

lemmas area_defs = filter_area_def tx_area_def rx_area_def register_defs

lemma kept_regs:
  "kept r MCP_CANCTRL = 0xE7"
  "kept r MCP_CANSTAT = (if opmod r = reqop r \<and> opmod r \<noteq> CANCTRL_REQOP_SLEEP then 0xE0 else 0)"
  "kept r MCP_CANINTF = r MCP_CANINTF"
  "kept r MCP_EFLG = r MCP_EFLG AND 0xC0"
  "kept r (tx_CTRL (TXB b)) = NOT (r (tx_CTRL (TXB b))) AND TXB_TXREQ"
  "kept r MCP_RXB0CTRL = (if rx_full r RXB0 then 0x6C else 0x64)"
  "kept r MCP_RXB1CTRL = (if rx_full r RXB1 then 0x68 else 0x60)"
  unfolding kept_def by (cases b; simp add: area_defs TXB_def)+

lemma rx_area_apart:
  assumes "rx_area n a"
  shows "\<not> filter_area a" "\<not> tx_area a"
    "a \<notin> {MCP_CNF1, MCP_CNF2, MCP_CNF3, MCP_CANINTE, MCP_CANCTRL, MCP_CANSTAT, MCP_CANINTF, MCP_EFLG,
       MCP_TXB0CTRL, MCP_TXB1CTRL, MCP_TXB2CTRL, MCP_RXB0CTRL, MCP_RXB1CTRL}"
    "rx_area m a \<longleftrightarrow> m = n"
proof -
  have a: "0x60 < unat a" "unat a < 0x7E" "unat a \<noteq> 0x70"
    using assms by (auto simp: rx_area_def split: RXBn.splits)
  then show "\<not> filter_area a" "\<not> tx_area a" by (auto simp: filter_area_def tx_area_def)
  show "a \<notin> {MCP_CNF1, MCP_CNF2, MCP_CNF3, MCP_CANINTE, MCP_CANCTRL, MCP_CANSTAT, MCP_CANINTF, MCP_EFLG,
       MCP_TXB0CTRL, MCP_TXB1CTRL, MCP_TXB2CTRL, MCP_RXB0CTRL, MCP_RXB1CTRL}"
    using a unfolding register_defs by auto
  show "rx_area m a \<longleftrightarrow> m = n" using assms by (auto simp: rx_area_def split: RXBn.splits)
qed

lemma kept_rx: "rx_area n a \<Longrightarrow> kept r a = (if rx_full r n then 0xFF else 0)"
  unfolding kept_def using rx_area_apart [of n a] by (cases n) simp_all

lemma rx_full_quiet: "chip_quiet r r' \<Longrightarrow> rx_full r n \<Longrightarrow> rx_full r' n"
proof -
  assume q: "chip_quiet r r'" and f: "rx_full r n"
  obtain k where "bit (r MCP_CANINTF AND rx_IF (RXB n)) k"
    using f bit_word_eqI [of "r MCP_CANINTF AND rx_IF (RXB n)" 0] unfolding rx_full_def by auto
  then have "bit (r MCP_CANINTF) k" "bit (rx_IF (RXB n)) k" by (simp_all add: bit_and_iff)
  moreover have "agree (r MCP_CANINTF) (r MCP_CANINTF) (r' MCP_CANINTF)"
    using chip_quietD [OF q, of MCP_CANINTF] by (simp add: kept_regs)
  ultimately have "bit (r' MCP_CANINTF AND rx_IF (RXB n)) k"
    by (simp add: agree_bits bit_and_iff)
  then show ?thesis unfolding rx_full_def by auto
qed

lemma opmod_quiet:
  assumes "chip_quiet r r'" "opmod r = reqop r" "opmod r \<noteq> CANCTRL_REQOP_SLEEP"
  shows "opmod r' = opmod r"
proof -
  have "agree 0xE0 (r MCP_CANSTAT) (r' MCP_CANSTAT)"
    using chip_quietD [OF assms(1), of MCP_CANSTAT] assms(2,3) by (simp add: kept_regs)
  then show ?thesis by (simp add: agree_def opmod_def CANSTAT_OPMOD_def)
qed

lemma reqop_quiet: "chip_quiet r r' \<Longrightarrow> reqop r' = reqop r"
proof -
  assume "chip_quiet r r'"
  then have "agree 0xE7 (r MCP_CANCTRL) (r' MCP_CANCTRL)"
    using chip_quietD [of r r' MCP_CANCTRL] by (simp add: kept_regs)
  then have "r MCP_CANCTRL AND 0xE0 = r' MCP_CANCTRL AND 0xE0" by (rule agree_test) simp
  then show ?thesis by (simp add: reqop_def CANCTRL_REQOP_def)
qed

text \<open>The chip keeps a bit for as long as the driver leaves it.\<close>

lemma kept_mono: "chip_quiet r r' \<Longrightarrow> kept r a AND kept r' a = kept r a"
proof -
  assume q: "chip_quiet r r'"
  have a: "agree (kept r a) (r a) (r' a)" using chip_quietD [OF q] .
  have self: "x AND y = x" if "agree x x y" for x y :: u8
    using that by (auto simp: agree_bits bit_and_iff intro!: bit_word_eqI)
  consider
      "filter_area a \<or> tx_area a \<or> a \<in> {MCP_CNF1, MCP_CNF2, MCP_CNF3, MCP_CANINTE}"
    | "a = MCP_CANCTRL" | "a = MCP_CANSTAT" | "a = MCP_CANINTF" | "a = MCP_EFLG"
    | b where "a = tx_CTRL (TXB b)" | "a = MCP_RXB0CTRL" | "a = MCP_RXB1CTRL"
    | n where "rx_area n a" | "kept r a = 0"
  proof -
    have tx: "\<exists>b. a = tx_CTRL (TXB b)" if "a \<in> {MCP_TXB0CTRL, MCP_TXB1CTRL, MCP_TXB2CTRL}"
      using that by (auto simp: TXB_def split: TXBn.splits)
    have "kept r a = 0"
      if "\<not> (filter_area a \<or> tx_area a \<or> a \<in> {MCP_CNF1, MCP_CNF2, MCP_CNF3, MCP_CANINTE})"
        "a \<noteq> MCP_CANCTRL" "a \<noteq> MCP_CANSTAT" "a \<noteq> MCP_CANINTF" "a \<noteq> MCP_EFLG"
        "\<not> (\<exists>b. a = tx_CTRL (TXB b))" "a \<noteq> MCP_RXB0CTRL" "a \<noteq> MCP_RXB1CTRL" "\<not> (\<exists>n. rx_area n a)"
    proof -
      have "a \<notin> {MCP_TXB0CTRL, MCP_TXB1CTRL, MCP_TXB2CTRL}" using tx that(6) by blast
      then show ?thesis using that unfolding kept_def by simp
    qed
    then show thesis using that by blast
  qed
  then show ?thesis
  proof cases
    case 3
    then show ?thesis using opmod_quiet [OF q] reqop_quiet [OF q] by (auto simp: kept_regs)
  next
    case 4
    then show ?thesis using a by (simp add: kept_regs self)
  next
    case 5
    have "agree (r a AND 0xC0) (r a) (r' a)" using a 5 by (simp add: kept_regs)
    then show ?thesis using 5
      by (auto simp: kept_regs agree_bits bit_and_iff intro!: bit_word_eqI)
  next
    case 6
    have "agree (NOT (r a) AND TXB_TXREQ) (r a) (r' a)" using a 6 by (simp add: kept_regs)
    then show ?thesis using 6
      by (auto simp: kept_regs agree_bits bit_and_iff bit_not_iff intro!: bit_word_eqI)
  next
    case 7
    then show ?thesis using rx_full_quiet [OF q] by (auto simp: kept_regs)
  next
    case 8
    then show ?thesis using rx_full_quiet [OF q] by (auto simp: kept_regs)
  next
    case 9
    then show ?thesis using rx_full_quiet [OF q] by (auto simp: kept_rx)
  qed (auto simp: kept_static kept_regs)
qed

lemma chip_quiet_trans: "chip_quiet r r' \<Longrightarrow> chip_quiet r' r'' \<Longrightarrow> chip_quiet r r''"
  unfolding chip_quiet_def
proof (intro allI)
  fix a
  assume q: "\<forall>a. agree (kept r a) (r a) (r' a)" "\<forall>a. agree (kept r' a) (r' a) (r'' a)"
  have "agree (kept r a) (r' a) (r'' a)"
    by (rule agree_less [OF q(2) [rule_format]]) (rule kept_mono, simp add: chip_quiet_def q)
  then show "agree (kept r a) (r a) (r'' a)" using q(1) agree_trans by blast
qed

subsection \<open>Transactions under the laws\<close>

lemma run_readRegister:
  "run_state (readRegister d reg) c = (case run_state (readRegisters d reg 1) c of (vs, c') \<Rightarrow> (hd vs, c'))"
  unfolding readRegister_def readRegisters_def read_bytes_1 by (simp split: prod.splits)

lemma chip_read1:
  assumes "mcp_chip d regs us" "run_state (readRegister d reg) c = (v, c')" "unat reg < 128"
  shows "chip_quiet (regs c) (regs c')" "v = regs c' reg" "us c < us c'" "us c' < us c + 1000"
proof -
  obtain vs where r: "run_state (readRegisters d reg 1) c = (vs, c')" "v = hd vs"
    using assms(2) unfolding run_readRegister by (auto split: prod.splits)
  have "length vs = 1 \<and> chip_quiet (regs c) (regs c') \<and> vs = [regs c' reg]"
    using assms(1,3) r(1) unfolding mcp_chip_def chip_reads_def by (auto dest!: spec)
  then show "chip_quiet (regs c) (regs c')" "v = regs c' reg" using r(2) by auto
  have "snd (run_state (readRegisters d reg 1) c) \<in> {c'. us c < us c' \<and> us c' < us c + 1000}"
    using assms(1) unfolding mcp_chip_def chip_clock_def by auto
  then show "us c < us c'" "us c' < us c + 1000" using r(1) by simp_all
qed

lemma chip_read:
  assumes "mcp_chip d regs us" "run_state (readRegisters d reg n) c = (vs, c')" "unat reg + n \<le> 128"
  shows "chip_quiet (regs c) (regs c')" "length vs = n"
    "i < n \<Longrightarrow> agree (kept (regs c) (reg + of_nat i)) (regs c (reg + of_nat i)) (vs ! i)"
  using assms unfolding mcp_chip_def chip_reads_def by blast+

lemma chip_write:
  assumes "mcp_chip d regs us" "run_state (setRegisters d reg vs) c = (u, c')"
    "unat reg + length vs \<le> 128" "\<And>i. i < length vs \<Longrightarrow> reg + of_nat i \<noteq> MCP_CANCTRL"
  shows "(\<And>i. i < length vs \<Longrightarrow> a \<noteq> reg + of_nat i) \<Longrightarrow> agree (kept (regs c) a) (regs c a) (regs c' a)"
    "i < length vs \<Longrightarrow> agree (writable (regs c) (reg + of_nat i)) (vs ! i) (regs c' (reg + of_nat i))"
    "length vs \<le> 14 \<Longrightarrow> us c < us c' \<and> us c' < us c + 1000"
proof -
  have "(\<forall>a. (\<forall>i<length vs. a \<noteq> reg + of_nat i) \<longrightarrow> agree (kept (regs c) a) (regs c a) (regs c' a)) \<and>
        (\<forall>i<length vs. agree (writable (regs c) (reg + of_nat i)) (vs ! i) (regs c' (reg + of_nat i)))"
    using assms unfolding mcp_chip_def chip_writes_def by auto
  then show "(\<And>i. i < length vs \<Longrightarrow> a \<noteq> reg + of_nat i) \<Longrightarrow> agree (kept (regs c) a) (regs c a) (regs c' a)"
    "i < length vs \<Longrightarrow> agree (writable (regs c) (reg + of_nat i)) (vs ! i) (regs c' (reg + of_nat i))"
    by auto
  have "length vs \<le> 14 \<longrightarrow> snd (run_state (setRegisters d reg vs) c) \<in> {c'. us c < us c' \<and> us c' < us c + 1000}"
    using assms(1) unfolding mcp_chip_def chip_clock_def by blast
  then show "length vs \<le> 14 \<Longrightarrow> us c < us c' \<and> us c' < us c + 1000" using assms(2) by simp
qed

lemma chip_modify:
  assumes "mcp_chip d regs us" "run_state (modifyRegister d reg msk data) c = (u, c')" "reg \<in> modifiable"
  shows "a \<noteq> reg \<Longrightarrow> reg \<noteq> MCP_CANCTRL \<or> a \<noteq> MCP_CANSTAT \<Longrightarrow> agree (kept (regs c) a) (regs c a) (regs c' a)"
    "reg = MCP_CANCTRL \<Longrightarrow> opmod (regs c') \<in> {opmod (regs c), reqop (regs c), reqop (regs c')}"
    "agree (kept (regs c) reg AND NOT msk) (regs c reg) (regs c' reg)"
    "agree (writable (regs c) reg AND msk) data (regs c' reg)"
    "us c < us c'" "us c' < us c + 1000"
proof -
  have m: "chip_modifies d regs" and t: "chip_clock d us" using assms(1) by (auto simp: mcp_chip_def)
  have r: "run_state (modifyRegister d reg msk data) c = ((), c')" using assms(2) by simp
  note m = m [unfolded chip_modifies_def, rule_format, OF r assms(3)]
  show "a \<noteq> reg \<Longrightarrow> reg \<noteq> MCP_CANCTRL \<or> a \<noteq> MCP_CANSTAT \<Longrightarrow> agree (kept (regs c) a) (regs c a) (regs c' a)"
    "reg = MCP_CANCTRL \<Longrightarrow> opmod (regs c') \<in> {opmod (regs c), reqop (regs c), reqop (regs c')}"
    "agree (kept (regs c) reg AND NOT msk) (regs c reg) (regs c' reg)"
    "agree (writable (regs c) reg AND msk) data (regs c' reg)"
    using m by blast+
  have "snd (run_state (modifyRegister d reg msk data) c) \<in> {c'. us c < us c' \<and> us c' < us c + 1000}"
    using t unfolding chip_clock_def by blast
  then show "us c < us c'" "us c' < us c + 1000" using r by simp_all
qed

end
