(* ===== verification/Mcp_Memory.thy ===== *)
theory Mcp_Memory
  imports Mcp_Chip
begin

text \<open>
  A chip that is only a memory: it speaks the SPI protocol of the data sheet (instruction, address, data
  with auto-increment), enters a requested mode at once and does nothing on its own. It satisfies the
  laws of \<open>Mcp_Chip\<close>, so the theorems about the driver are not vacuous; their witnesses use it.
\<close>

datatype phase =
    Deselected | Instruction | Ignored | Address u8 | ReadAt u8 | WriteAt u8 | ModMask u8
  | ModData u8 u8 | StatusOut

record mem_chip =
  m_phase :: phase
  m_regs :: regfile
  m_us :: nat

definition m_store :: "u8 \<Rightarrow> u8 \<Rightarrow> regfile \<Rightarrow> regfile" where
  "m_store a v r =
     (if a = MCP_CANCTRL then r(a := v, MCP_CANSTAT := v AND CANCTRL_REQOP) else r(a := v))"

definition m_default :: regfile where
  "m_default = (\<lambda>_. 0)(MCP_CANCTRL := 0x87, MCP_CANSTAT := 0x80)"

definition m_opcode :: "u8 \<Rightarrow> mem_chip \<Rightarrow> mem_chip" where
  "m_opcode v c =
     (if v = INSTRUCTION_RESET then c\<lparr>m_regs := m_default, m_phase := Ignored\<rparr>
      else if v = INSTRUCTION_READ_STATUS then c\<lparr>m_phase := StatusOut\<rparr>
      else if v \<in> {INSTRUCTION_READ, INSTRUCTION_WRITE, INSTRUCTION_BITMOD}
      then c\<lparr>m_phase := Address v\<rparr> else c\<lparr>m_phase := Ignored\<rparr>)"

definition m_address :: "u8 \<Rightarrow> u8 \<Rightarrow> phase" where
  "m_address i a =
     (if i = INSTRUCTION_READ then ReadAt a else if i = INSTRUCTION_WRITE then WriteAt a else ModMask a)"

definition m_transfer :: "u8 \<Rightarrow> mem_chip \<Rightarrow> u8 \<times> mem_chip" where
  "m_transfer v c =
     (case m_phase c of
        Deselected \<Rightarrow> (0, c)
      | Ignored \<Rightarrow> (0, c)
      | Instruction \<Rightarrow> (0, m_opcode v c)
      | Address i \<Rightarrow> (0, c\<lparr>m_phase := m_address i v\<rparr>)
      | ReadAt a \<Rightarrow> (m_regs c a, c\<lparr>m_phase := ReadAt (a + 1)\<rparr>)
      | WriteAt a \<Rightarrow> (0, c\<lparr>m_regs := m_store a v (m_regs c), m_phase := WriteAt (a + 1)\<rparr>)
      | ModMask a \<Rightarrow> (0, c\<lparr>m_phase := ModData a v\<rparr>)
      | ModData a m \<Rightarrow>
          (0, c\<lparr>m_regs := m_store a ((m_regs c a AND NOT m) OR (v AND m)) (m_regs c), m_phase := Ignored\<rparr>)
      | StatusOut \<Rightarrow> (m_regs c MCP_CANINTF AND 0x03, c\<lparr>m_phase := Ignored\<rparr>))"

definition mem_spi :: "mem_chip spi" where
  "mem_spi =
     \<lparr>spi_begin = State (\<lambda>c. ((), c)),
      spi_pin_output = State (\<lambda>c. ((), c)),
      spi_beginTransaction = (\<lambda>clock. State (\<lambda>c. ((), c))),
      spi_endTransaction = State (\<lambda>c. ((), c\<lparr>m_us := m_us c + 10\<rparr>)),
      spi_select = (\<lambda>high. State (\<lambda>c. ((), c\<lparr>m_phase := (if high then Deselected else Instruction)\<rparr>))),
      spi_transfer = (\<lambda>v. State (m_transfer v)),
      millis = State (\<lambda>c. (of_nat (m_us c div 1000), c)),
      delay = (\<lambda>ms. State (\<lambda>c. ((), c\<lparr>m_us := m_us c + 1000 * ms\<rparr>)))\<rparr>"

fun m_write :: "u8 \<Rightarrow> u8 list \<Rightarrow> regfile \<Rightarrow> regfile" where
  "m_write a [] r = r"
| "m_write a (v # vs) r = m_write (a + 1) vs (m_store a v r)"

subsection \<open>Its transactions\<close>

lemma m_read_bytes:
  "m_phase c = ReadAt a \<Longrightarrow>
   run_state (read_bytes mem_spi n) c =
     (map (\<lambda>i. m_regs c (a + of_nat i)) [0..<n], c\<lparr>m_phase := ReadAt (a + of_nat n)\<rparr>)"
proof (induction n arbitrary: a c)
  case (Suc n)
  have "map (\<lambda>i. m_regs c (a + of_nat i)) [0..<Suc n] =
      m_regs c a # map (\<lambda>i. m_regs c (a + 1 + of_nat i)) [0..<n]"
    by (simp add: upt_conv_Cons map_Suc_upt [symmetric] add.assoc del: upt_Suc)
  with Suc show ?case by (simp add: mem_spi_def m_transfer_def Suc.IH add.assoc)
qed simp

lemma m_send_bytes:
  "m_phase c = WriteAt a \<Longrightarrow>
   run_state (send_bytes mem_spi vs) c =
     ((), c\<lparr>m_regs := m_write a vs (m_regs c), m_phase := WriteAt (a + of_nat (length vs))\<rparr>)"
proof (induction vs arbitrary: a c)
  case (Cons v vs)
  then show ?case by (simp add: mem_spi_def m_transfer_def add.assoc)
qed simp

lemma mem_fields:
  "run_state (startSPI mem_spi) c = ((), c\<lparr>m_phase := Instruction\<rparr>)"
  "run_state (endSPI mem_spi) c = ((), c\<lparr>m_phase := Deselected, m_us := m_us c + 10\<rparr>)"
  "run_state (spi_transfer mem_spi v) c = m_transfer v c"
  "run_state (millis mem_spi) c = (of_nat (m_us c div 1000), c)"
  "run_state (delay mem_spi k) c = ((), c\<lparr>m_us := m_us c + 1000 * k\<rparr>)"
  by (simp_all add: mem_spi_def startSPI_def endSPI_def)

lemma m_run:
  "run_state (readRegisters mem_spi reg n) c =
     (map (\<lambda>i. m_regs c (reg + of_nat i)) [0..<n], c\<lparr>m_phase := Deselected, m_us := m_us c + 10\<rparr>)"
  "run_state (setRegisters mem_spi reg vs) c =
     ((), c\<lparr>m_phase := Deselected, m_us := m_us c + 10, m_regs := m_write reg vs (m_regs c)\<rparr>)"
  "run_state (modifyRegister mem_spi reg msk data) c =
     ((), c\<lparr>m_phase := Deselected, m_us := m_us c + 10,
        m_regs := m_store reg ((m_regs c reg AND NOT msk) OR (data AND msk)) (m_regs c)\<rparr>)"
  "run_state (reset_chip mem_spi) c =
     ((), c\<lparr>m_phase := Deselected, m_us := m_us c + 10010, m_regs := m_default\<rparr>)"
  by (simp_all add: readRegisters_def setRegisters_def modifyRegister_def reset_chip_def mem_fields
      m_transfer_def m_opcode_def m_address_def instruction_defs m_read_bytes m_send_bytes)

lemma m_write_outside:
  "(\<And>i. i < length vs \<Longrightarrow> a \<noteq> reg + of_nat i) \<Longrightarrow>
   (\<And>i. i < length vs \<Longrightarrow> reg + of_nat i \<noteq> MCP_CANCTRL) \<Longrightarrow> m_write reg vs r a = r a"
proof (induction vs arbitrary: reg r)
  case (Cons v vs)
  have *: "reg + 1 + of_nat i = reg + of_nat (Suc i)" for i by simp
  have "m_write (reg + 1) vs (m_store reg v r) a = m_store reg v r a"
    by (rule Cons.IH) (use Cons.prems in \<open>auto simp only: * length_Cons\<close>)
  then show ?case using Cons.prems(1) [of 0] Cons.prems(2) [of 0] by (simp add: m_store_def)
qed simp

lemma m_write_inside:
  "i < length vs \<Longrightarrow> unat reg + length vs \<le> 128 \<Longrightarrow>
   (\<And>i. i < length vs \<Longrightarrow> reg + of_nat i \<noteq> MCP_CANCTRL) \<Longrightarrow> m_write reg vs r (reg + of_nat i) = vs ! i"
proof (induction vs arbitrary: reg r i)
  case (Cons v vs)
  have *: "reg + 1 + of_nat i = reg + of_nat (Suc i)" for i by simp
  have ctrl: "reg + 1 + of_nat i \<noteq> MCP_CANCTRL" if "i < length vs" for i
    using Cons.prems(3) [of "Suc i"] that unfolding * by simp
  have reg: "unat (reg + 1) = unat reg + 1" using Cons.prems(2) by (simp add: unat_word_ariths)
  show ?case
  proof (cases i)
    case 0
    have "reg \<noteq> reg + 1 + of_nat k" if "k < length vs" for k
    proof -
      have "unat (reg + of_nat (Suc k)) = unat reg + Suc k"
        using that Cons.prems(2) by (simp add: unat_word_ariths unat_of_nat)
      then show ?thesis unfolding * by (metis Suc_not_Zero add_cancel_right_right)
    qed
    then have "m_write (reg + 1) vs (m_store reg v r) reg = m_store reg v r reg"
      by (intro m_write_outside ctrl)
    then show ?thesis using 0 Cons.prems(3) [of 0] by (simp add: m_store_def)
  next
    case (Suc k)
    then show ?thesis
      using Cons.IH [of k "reg + 1" "m_store reg v r"] Cons.prems ctrl reg by (simp add: add.assoc)
  qed
qed simp


subsection \<open>The laws hold\<close>

lemma m_quiet_modify:
  "a \<noteq> reg \<Longrightarrow> reg = MCP_CANCTRL \<longrightarrow> a \<noteq> MCP_CANSTAT \<Longrightarrow> m_store reg v r a = r a"
  by (auto simp: m_store_def)

lemma m_store_same: "m_store reg v r reg = v"
  by (simp add: m_store_def register_defs)

lemma m_store_mode:
  "opmod (m_store MCP_CANCTRL v r) = reqop (m_store MCP_CANCTRL v r)"
  by (simp add: m_store_def opmod_def reqop_def CANCTRL_REQOP_def CANSTAT_OPMOD_def register_defs
      and.assoc)

lemma m_merge:
  "agree (k AND NOT msk) old ((old AND NOT msk) OR (data AND msk))"
  "agree (k AND msk) data ((old AND NOT msk) OR (data AND msk))"
  by (auto simp: agree_bits bit_simps)

lemma mem_reads: "chip_reads mem_spi m_regs"
  by (auto simp: chip_reads_def m_run)

lemma mem_writes: "chip_writes mem_spi m_regs"
  by (auto simp: chip_writes_def m_run m_write_outside m_write_inside)

lemma mem_modifies: "chip_modifies mem_spi m_regs"
  unfolding chip_modifies_def m_run
  by (auto simp: m_quiet_modify m_store_same m_store_mode m_merge)

lemma mem_resets: "chip_resets mem_spi m_regs"
  by (auto simp: chip_resets_def m_run config_mode_def opmod_def reqop_def m_default_def register_defs
      CANCTRL_REQOP_def CANSTAT_OPMOD_def CANCTRL_REQOP_CONFIG_def)

lemma mem_clock: "chip_clock mem_spi m_us"
  by (simp add: chip_clock_def m_run mem_fields)

lemma mem_is_chip: "mcp_chip mem_spi m_regs m_us"
  by (simp add: mcp_chip_def mem_reads mem_writes mem_modifies mem_resets mem_clock)

end
