(* ===== verification/Mcp_Modes.thy ===== *)
theory Mcp_Modes
  imports Mcp_Memory
begin

text \<open>
  \<open>setMode\<close> of the driver: it returns within its ten milliseconds whatever the chip does, it reports
  success only when the chip is in the requested mode, and it fails without looking at the chip in the
  last ten milliseconds before the millisecond counter wraps.
\<close>

definition clock_ms :: "nat \<Rightarrow> u32" where
  "clock_ms t = of_nat (t div 1000)"

lemma clock_facts:
  assumes "mcp_chip d regs us"
  shows "run_state (millis d) c = (clock_ms (us c), c)"
  using assms by (auto simp: mcp_chip_def chip_clock_def clock_ms_def)

lemma unat_clock: "unat (clock_ms t) = t div 1000 mod 4294967296"
  by (simp add: clock_ms_def unat_of_nat)

lemma run_poll_mode:
  assumes "mcp_chip d regs us" "run_state (readRegister d MCP_CANSTAT) c = (v, c1)"
  shows "run_state (poll_mode d (Suc fuel) mode e) c =
     (if clock_ms (us c) < e then
        if v AND CANSTAT_OPMOD = mode then (Some True, c1) else run_state (poll_mode d fuel mode e) c1
      else (Some False, c))"
  unfolding poll_mode.simps run_state_bind clock_facts [OF assms(1)] prod.case
  using assms(2) by (cases "clock_ms (us c) < e") auto

text \<open>One round of the loop: the time is up, the mode is reached, or at least a microsecond has passed.\<close>

lemma poll_mode_step:
  assumes chip: "mcp_chip d regs us" and run: "run_state (poll_mode d (Suc fuel) mode e) c = (r, c')"
  obtains "\<not> clock_ms (us c) < e" "r = Some False" "c' = c"
    | "clock_ms (us c) < e" "r = Some True" "opmod (regs c') = mode" "us c' < us c + 1000"
        "chip_quiet (regs c) (regs c')"
    | c1 where "clock_ms (us c) < e" "us c < us c1" "us c1 < us c + 1000"
        "chip_quiet (regs c) (regs c1)" "opmod (regs c1) \<noteq> mode"
        "run_state (poll_mode d fuel mode e) c1 = (r, c')"
proof -
  obtain v c1 where rd: "run_state (readRegister d MCP_CANSTAT) c = (v, c1)"
    by (cases "run_state (readRegister d MCP_CANSTAT) c")
  note facts = chip_read1 [OF chip rd]
  have v: "v AND CANSTAT_OPMOD = opmod (regs c1)"
    using facts(2) by (simp add: opmod_def register_defs)
  show thesis
  proof (cases "clock_ms (us c) < e")
    case False
    then have "(Some False, c) = (r, c')"
      using run unfolding run_poll_mode [OF chip rd] by (simp only: if_False)
    then show ?thesis using that(1) False by blast
  next
    case lt: True
    show ?thesis
    proof (cases "opmod (regs c1) = mode")
      case True
      then have "r = Some True" "c' = c1"
        using run v lt unfolding run_poll_mode [OF chip rd] by simp_all
      then show ?thesis using that(2) lt True facts by (simp add: register_defs)
    next
      case False
      then have "run_state (poll_mode d fuel mode e) c1 = (r, c')"
        using run v lt unfolding run_poll_mode [OF chip rd] by simp
      then show ?thesis using that(3) [of c1] lt False facts by (simp add: register_defs)
    qed
  qed
qed

lemma poll_mode_end:
  assumes "mcp_chip d regs us" "run_state (poll_mode d fuel mode e) c = (r, c')"
  shows "chip_quiet (regs c) (regs c')" "r = Some True \<Longrightarrow> opmod (regs c') = mode"
proof -
  have "chip_quiet (regs c) (regs c') \<and> (r = Some True \<longrightarrow> opmod (regs c') = mode)"
    using assms(2)
  proof (induction fuel arbitrary: c)
    case (Suc fuel)
    from assms(1) Suc.prems show ?case
    proof (cases rule: poll_mode_step)
      case (3 c1)
      then show ?thesis using Suc.IH [of c1] chip_quiet_trans by blast
    qed auto
  qed simp
  then show "chip_quiet (regs c) (regs c')" "r = Some True \<Longrightarrow> opmod (regs c') = mode" by auto
qed

text \<open>
  The loop ends: \<open>k\<close> is the end time without the wrap at \<open>2 ^ 32\<close>; no round skips a whole millisecond,
  so the end time is met before the counter wraps.
\<close>

lemma poll_mode_returns:
  assumes chip: "mcp_chip d regs us" and "run_state (poll_mode d (Suc fuel) mode e) c = (r, c')"
    and k: "k = q * 4294967296 + unat e"
    and "q * 4294967296 \<le> us c div 1000" "us c div 1000 \<le> k" "k * 1000 \<le> us c + fuel"
  shows "r \<noteq> None"
  using assms(2,4-)
proof (induction fuel arbitrary: c)
  have e: "unat e < 4294967296" using unsigned_less [of e, where 'a = nat] by simp
  have mod: "clock_ms (us c) < e \<longleftrightarrow> us c div 1000 < k"
    if "q * 4294967296 \<le> us c div 1000" "us c div 1000 \<le> k" for c
  proof -
    have "us c div 1000 = q * 4294967296 + (us c div 1000 - q * 4294967296)"
      "us c div 1000 - q * 4294967296 < 4294967296" using that k e by linarith+
    then have "us c div 1000 mod 4294967296 = us c div 1000 - q * 4294967296"
      by (metis mod_less mod_mult_self3)
    then show ?thesis using that k by (simp add: word_less_nat_alt unat_clock, linarith)
  qed
  {
    case 0
    have "k * 1000 \<le> us c" using 0 by simp
    then have "k \<le> us c div 1000" by linarith
    then have "\<not> us c div 1000 < k" by simp
    then have "\<not> clock_ms (us c) < e" using mod [of c] 0 by blast
    with chip 0(1) show ?case by (cases rule: poll_mode_step) auto
  next
    case (Suc fuel)
    from chip Suc.prems(1) show ?case
    proof (cases rule: poll_mode_step)
      case (3 c1)
      have "us c div 1000 < k" using 3(1) mod [of c] Suc.prems by blast
      then have "us c1 div 1000 \<le> k" using 3(3) by linarith
      moreover have "q * 4294967296 \<le> us c1 div 1000" using 3(2) Suc.prems(2) by linarith
      moreover have "k * 1000 \<le> us c1 + fuel" using 3(2) Suc.prems(4) by linarith
      ultimately show ?thesis using Suc.IH [OF 3(6)] by blast
    qed auto
  }
qed

text \<open>The steps of \<open>setMode\<close> after the mode is requested.\<close>

lemma setMode_run:
  assumes "mcp_chip d regs us" "run_state (setMode d fuel mode) c = (r, c')"
  obtains c1 b where "run_state (modifyRegister d MCP_CANCTRL CANCTRL_REQOP mode) c = ((), c1)"
    "us c < us c1" "us c1 < us c + 1000"
    "run_state (poll_mode d fuel mode (clock_ms (us c1) + 10)) c1 = (b, c')"
    "r = map_option (\<lambda>b. if b then ERROR_OK else ERROR_FAIL) b"
proof -
  obtain u c1 where "run_state (modifyRegister d MCP_CANCTRL CANCTRL_REQOP mode) c = (u, c1)"
    by (rule prod.exhaust)
  then have m: "run_state (modifyRegister d MCP_CANCTRL CANCTRL_REQOP mode) c = ((), c1)" by simp
  have "us c < us c1" "us c1 < us c + 1000"
    using chip_modify(5,6) [OF assms(1) m] by (auto simp: modifiable_def)
  moreover obtain b c2 where p: "run_state (poll_mode d fuel mode (clock_ms (us c1) + 10)) c1 = (b, c2)"
    by (rule prod.exhaust)
  moreover have "c' = c2" "r = map_option (\<lambda>b. if b then ERROR_OK else ERROR_FAIL) b"
    using assms(2) m p by (simp_all add: setMode_def clock_facts [OF assms(1)])
  ultimately show thesis using that m by simp
qed

lemma end_time_wraps:
  assumes "4294967286 \<le> t div 1000 mod 4294967296"
  shows "\<not> clock_ms t < clock_ms t + 10"
proof -
  have "unat (clock_ms t + 10) = (t div 1000 mod 4294967296 + 10) mod 4294967296"
    by (simp add: unat_word_ariths unat_clock)
  also have "\<dots> = t div 1000 mod 4294967296 - 4294967286"
  proof -
    define m where "m = t div 1000 mod 4294967296"
    have "m < 4294967296" "4294967286 \<le> m" using assms by (simp_all add: m_def)
    then have "(m + 10) mod 4294967296 = m - 4294967286" by (simp add: le_mod_geq)
    then show ?thesis by (simp only: m_def)
  qed
  finally show ?thesis by (simp add: word_less_nat_alt unat_clock)
qed

lemma setMode_returns_aux:
  assumes chip: "mcp_chip d regs us" and "10001 \<le> fuel"
    and run: "run_state (setMode d fuel mode) c = (r, c')"
  shows "r = Some ERROR_OK \<and> opmod (regs c') = mode \<or> r = Some ERROR_FAIL"
proof -
  obtain c1 b where p: "run_state (poll_mode d fuel mode (clock_ms (us c1) + 10)) c1 = (b, c')"
    and r: "r = map_option (\<lambda>b. if b then ERROR_OK else ERROR_FAIL) b"
    using setMode_run [OF chip run] by metis
  obtain k where fuel: "fuel = Suc k" "10000 \<le> k" using assms(2) by (cases fuel) auto
  let ?t = "us c1 div 1000" and ?e = "clock_ms (us c1) + 10"
  have "b \<noteq> None"
  proof (cases "4294967286 \<le> ?t mod 4294967296")
    case True
    from chip p [unfolded fuel] show ?thesis
      by (cases rule: poll_mode_step) (use end_time_wraps [OF True] in auto)
  next
    case False
    have "unat ?e = ?t mod 4294967296 + 10"
      using False by (simp add: unat_word_ariths unat_clock)
    then have "?t + 10 = ?t div 4294967296 * 4294967296 + unat ?e" by simp
    moreover have "?t div 4294967296 * 4294967296 \<le> ?t" by (rule div_times_less_eq_dividend)
    moreover have "(?t + 10) * 1000 \<le> us c1 + k"
      using fuel(2) div_times_less_eq_dividend [of "us c1" 1000] by simp
    ultimately show ?thesis using poll_mode_returns [OF chip p [unfolded fuel]] by (metis le_add1)
  qed
  moreover have "b = Some True \<Longrightarrow> opmod (regs c') = mode" using poll_mode_end(2) [OF chip p] by simp
  ultimately show ?thesis using r by (cases b) auto
qed

text \<open>C12. For every chip that keeps to its data sheet, \<open>setMode\<close> returns (the loop ends with fuel for
  10001 rounds, at least a microsecond each), with \<open>ERROR_OK\<close> or \<open>ERROR_FAIL\<close>, and after
  \<open>ERROR_OK\<close> the chip is in the requested mode.\<close>

theorem setMode_returns:
  assumes chip: "mcp_chip d regs us" and "10001 \<le> fuel"
    and run: "run_state (setMode d fuel mode) c = (r, c')"
  shows "r = Some ERROR_OK \<and> opmod (regs c') = mode \<or> r = Some ERROR_FAIL"
  by (rule setMode_returns_aux [OF assms])

definition mem_boot :: mem_chip where
  "mem_boot = \<lparr>m_phase = Deselected, m_regs = m_default, m_us = 1000\<rparr>"

definition mem_late :: mem_chip where
  "mem_late = \<lparr>m_phase = Deselected, m_regs = m_default, m_us = 4294967290000\<rparr>"

theorem setMode_returns_witness:
  "(\<lambda>(r, c'). r = Some ERROR_OK \<and> opmod (m_regs c') = CANCTRL_REQOP_NORMAL \<or> r = Some ERROR_FAIL)
     (run_state (setMode mem_spi 10001 CANCTRL_REQOP_NORMAL) mem_boot)"
  using setMode_returns [OF mem_is_chip order_refl]
  by (cases "run_state (setMode mem_spi 10001 CANCTRL_REQOP_NORMAL) mem_boot") auto

text \<open>C40. In the last ten milliseconds before the 32 bit millisecond counter wraps (every 49.7 days),
  \<open>setMode\<close> reports a failure without reading the mode of the chip once: the end time
  \<open>millis() + 10\<close> wraps to a small number and the loop is not entered.\<close>

theorem setMode_fails_at_wrap:
  assumes chip: "mcp_chip d regs us" and "0 < fuel"
    and late: "4294967286 \<le> us c div 1000 mod 4294967296" "us c div 1000 mod 4294967296 < 4294967295"
    and run: "run_state (setMode d fuel mode) c = (r, c')"
  shows "r = Some ERROR_FAIL \<and> c' = snd (run_state (modifyRegister d MCP_CANCTRL CANCTRL_REQOP mode) c)"
proof -
  obtain c1 b where m: "run_state (modifyRegister d MCP_CANCTRL CANCTRL_REQOP mode) c = ((), c1)"
    and t: "us c < us c1" "us c1 < us c + 1000"
    and p: "run_state (poll_mode d fuel mode (clock_ms (us c1) + 10)) c1 = (b, c')"
    and r: "r = map_option (\<lambda>b. if b then ERROR_OK else ERROR_FAIL) b"
    using setMode_run [OF chip run] by metis
  obtain k where fuel: "fuel = Suc k" using assms(2) by (cases fuel) auto
  have "us c1 div 1000 = us c div 1000 \<or> us c1 div 1000 = us c div 1000 + 1" using t by linarith
  then have "4294967286 \<le> us c1 div 1000 mod 4294967296"
    using late by (auto simp: mod_Suc)
  note wrap = end_time_wraps [OF this]
  from chip p [unfolded fuel] show ?thesis
    by (cases rule: poll_mode_step) (use wrap r m in auto)
qed

theorem setMode_fails_at_wrap_witness:
  "fst (run_state (setMode mem_spi 10001 CANCTRL_REQOP_CONFIG) mem_late) = Some ERROR_FAIL \<and>
   opmod (m_regs mem_late) = CANCTRL_REQOP_CONFIG"
proof -
  have "fst (run_state (setMode mem_spi 10001 CANCTRL_REQOP_CONFIG) mem_late) = Some ERROR_FAIL"
    using setMode_fails_at_wrap [OF mem_is_chip, of 10001 mem_late CANCTRL_REQOP_CONFIG]
    by (cases "run_state (setMode mem_spi 10001 CANCTRL_REQOP_CONFIG) mem_late") (simp add: mem_late_def)
  then show ?thesis
    by (simp add: mem_late_def m_default_def opmod_def register_defs CANSTAT_OPMOD_def
        CANCTRL_REQOP_CONFIG_def)
qed

end
