(* ===== verification/Mcp_Init.thy ===== *)
theory Mcp_Init
  imports Mcp_Modes
begin

text \<open>
  What \<open>Communication::init\<close> programs into the chip: the acceptance filters and masks, the bit timing
  and the interrupt enables, and the acceptance rule of the data sheet on those registers.
\<close>

subsection \<open>Programmed registers\<close>

text \<open>The registers only the driver writes; a \<open>plan\<close> is what it has written into them.\<close>

definition static_reg :: "u8 \<Rightarrow> bool" where
  "static_reg a \<longleftrightarrow> filter_area a \<or> a \<in> {MCP_CNF1, MCP_CNF2, MCP_CNF3, MCP_CANINTE}"

type_synonym plan = "u8 \<Rightarrow> u8 option"

definition write_plan :: "u8 \<Rightarrow> u8 list \<Rightarrow> plan \<Rightarrow> plan" where
  "write_plan b vs s = (\<lambda>a. if unat b \<le> unat a \<and> unat a < unat b + length vs
     then Some (vs ! (unat a - unat b)) else s a)"

definition programmed :: "plan \<Rightarrow> regfile \<Rightarrow> bool" where
  "programmed s r \<longleftrightarrow> (\<forall>a v. s a = Some v \<longrightarrow> static_reg a \<and> agree (implemented a) v (r a))"

text \<open>Both receive buffers use their filters (\<open>RXM\<close> is zero).\<close>

definition filters_on :: "regfile \<Rightarrow> bool" where
  "filters_on r \<longleftrightarrow> (\<forall>n. r (rx_CTRL (RXB n)) AND RXBnCTRL_RXM_MASK = 0)"

definition same_setup :: "regfile \<Rightarrow> regfile \<Rightarrow> bool" where
  "same_setup r r' \<longleftrightarrow> (\<forall>a. static_reg a \<longrightarrow> r' a = r a) \<and>
     (\<forall>n. agree RXBnCTRL_RXM_MASK (r (rx_CTRL (RXB n))) (r' (rx_CTRL (RXB n))))"

lemma kept_static_reg: "static_reg a \<Longrightarrow> kept r a = 0xFF"
  unfolding static_reg_def by (rule kept_static) blast

lemma kept_rxm: "RXBnCTRL_RXM_MASK AND kept r (rx_CTRL (RXB n)) = RXBnCTRL_RXM_MASK"
  by (cases n) (simp_all add: RXB_def kept_regs RXBnCTRL_RXM_MASK_def)

lemma programmed_same: "same_setup r r' \<Longrightarrow> programmed s r \<Longrightarrow> programmed s r'"
  by (auto simp: same_setup_def programmed_def)

lemma filters_on_same: "same_setup r r' \<Longrightarrow> filters_on r \<Longrightarrow> filters_on r'"
  by (simp add: same_setup_def filters_on_def agree_def)

lemma same_setupI:
  assumes "\<And>a. static_reg a \<Longrightarrow> agree (kept r a) (r a) (r' a)"
    "\<And>n. agree (kept r (rx_CTRL (RXB n))) (r (rx_CTRL (RXB n))) (r' (rx_CTRL (RXB n)))"
  shows "same_setup r r'"
  unfolding same_setup_def using assms by (auto simp: kept_static_reg intro: agree_less [OF _ kept_rxm])

lemma chip_quiet_same: "chip_quiet r r' \<Longrightarrow> same_setup r r'"
  by (rule same_setupI) (simp_all add: chip_quietD)

lemma config_mode_agree:
  assumes "config_mode r" "agree (kept r MCP_CANCTRL) (r MCP_CANCTRL) (r' MCP_CANCTRL)"
    "agree (kept r MCP_CANSTAT) (r MCP_CANSTAT) (r' MCP_CANSTAT)"
  shows "config_mode r'"
proof -
  have "agree 0xE0 (r MCP_CANSTAT) (r' MCP_CANSTAT)"
    using assms(1,3) by (simp add: kept_regs config_mode_def CANCTRL_REQOP_CONFIG_def CANCTRL_REQOP_SLEEP_def)
  moreover have "agree 0xE0 (r MCP_CANCTRL) (r' MCP_CANCTRL)"
    using agree_less [OF assms(2), of "0xE0"] by (simp add: kept_regs)
  ultimately show ?thesis using assms(1)
    by (simp add: config_mode_def opmod_def reqop_def agree_def CANSTAT_OPMOD_def CANCTRL_REQOP_def)
qed

lemma config_mode_quiet: "chip_quiet r r' \<Longrightarrow> config_mode r \<Longrightarrow> config_mode r'"
  using config_mode_agree chip_quietD by blast

lemma static_not_control:
  "static_reg a \<Longrightarrow> a \<noteq> MCP_CANCTRL \<and> a \<noteq> MCP_CANSTAT \<and> a \<noteq> rx_CTRL (RXB n)"
  by (cases n) (auto simp: static_reg_def filter_area_def register_defs RXB_def)

lemma writable_static: "static_reg a \<Longrightarrow> config_mode r \<Longrightarrow> writable r a = implemented a"
proof -
  assume a: "static_reg a" and c: "config_mode r"
  consider "filter_area a \<or> a \<in> {MCP_CNF1, MCP_CNF2, MCP_CNF3}"
    | "a = MCP_CANINTE" "\<not> (filter_area a \<or> a \<in> {MCP_CNF1, MCP_CNF2, MCP_CNF3})"
    using a unfolding static_reg_def by blast
  then show ?thesis
  proof cases
    case 2
    then show ?thesis by (simp add: writable_def implemented_def tx_area_def register_defs)
  qed (simp add: writable_def c)
qed

subsection \<open>The state while it is configured\<close>

definition configuring :: "nat \<Rightarrow> plan \<Rightarrow> ('c \<Rightarrow> regfile) \<Rightarrow> ('c \<Rightarrow> nat) \<Rightarrow> 'c \<Rightarrow> bool" where
  "configuring t s regs us c \<longleftrightarrow>
     config_mode (regs c) \<and> us c \<le> t \<and> programmed s (regs c) \<and> filters_on (regs c)"

lemma configuring_later: "configuring t s regs us c \<Longrightarrow> t \<le> t' \<Longrightarrow> configuring t' s regs us c"
  by (simp add: configuring_def)

lemma address_offset:
  "unat (b :: u8) + n \<le> 128 \<Longrightarrow> i < n \<Longrightarrow> unat (b + of_nat i) = unat b + i"
  by (simp add: unat_word_ariths unat_of_nat)

lemma write_plan_cases:
  assumes "write_plan b vs s a = Some v" "unat b + length vs \<le> 128"
  obtains i where "i < length vs" "a = b + of_nat i" "v = vs ! i"
    | "\<And>i. i < length vs \<Longrightarrow> a \<noteq> b + of_nat i" "s a = Some v"
proof (cases "unat b \<le> unat a \<and> unat a < unat b + length vs")
  case True
  define i where "i = unat a - unat b"
  have "unat (b + of_nat i) = unat b + i"
    by (rule address_offset [OF assms(2)]) (use True i_def in linarith)
  then have "a = b + of_nat i" using True i_def by (simp add: word_unat_eq_iff)
  moreover have "i < length vs" "v = vs ! i" using True assms(1) i_def by (auto simp: write_plan_def)
  ultimately show ?thesis using that(1) by blast
next
  case False
  have "a \<noteq> b + of_nat i" if "i < length vs" for i
    using False that address_offset [OF assms(2) that] by auto
  moreover have "s a = Some v" using assms(1) False unfolding write_plan_def by (simp only: if_False)
  ultimately show ?thesis using that(2) by blast
qed

lemma write_configuring:
  assumes chip: "mcp_chip d regs us" and len: "unat b + length vs \<le> 128" "length vs \<le> 14"
    and st: "\<And>i. i < length vs \<Longrightarrow> static_reg (b + of_nat i)"
  shows "triple (configuring t s regs us) (setRegisters d b vs)
           (\<lambda>_. configuring (t + 1000) (write_plan b vs s) regs us)"
  unfolding triple_def
proof (intro allI impI)
  fix c u c'
  assume c: "configuring t s regs us c" and run: "run_state (setRegisters d b vs) c = (u, c')"
  have ctrl: "b + of_nat i \<noteq> MCP_CANCTRL \<and> b + of_nat i \<noteq> MCP_CANSTAT \<and> b + of_nat i \<noteq> rx_CTRL (RXB n)"
    if "i < length vs" for i n
    using static_not_control [OF st [OF that]] by auto
  note out = chip_write(1) [OF chip run len(1)] and ins = chip_write(2) [OF chip run len(1)]
    and time = chip_write(3) [OF chip run len(1)]
  have far: "agree (kept (regs c) a) (regs c a) (regs c' a)"
    if "a \<in> {MCP_CANCTRL, MCP_CANSTAT} \<or> a = rx_CTRL (RXB n)" for a n
    by (rule out) (use ctrl that in \<open>metis empty_iff insert_iff\<close>)+
  have cm: "config_mode (regs c)" using c by (simp add: configuring_def)
  have "config_mode (regs c')" using far cm by (intro config_mode_agree [OF cm]) simp_all
  moreover have "filters_on (regs c')"
    using c agree_less [OF far kept_rxm]
    by (simp add: configuring_def filters_on_def agree_def) blast
  moreover have "programmed (write_plan b vs s) (regs c')"
    unfolding programmed_def
  proof (intro allI impI)
    fix a v
    assume "write_plan b vs s a = Some v"
    from this len(1) show "static_reg a \<and> agree (implemented a) v (regs c' a)"
    proof (cases rule: write_plan_cases)
      case (1 i)
      then show ?thesis using st ins [of i] ctrl writable_static [OF st cm] by auto
    next
      case 2
      then have s: "static_reg a" "agree (implemented a) v (regs c a)"
        using c by (auto simp: configuring_def programmed_def)
      have "agree (kept (regs c) a) (regs c a) (regs c' a)"
        by (rule out) (use ctrl 2 in auto)
      then show ?thesis using s kept_static_reg [OF s(1)] by simp
    qed
  qed
  moreover have "us c' \<le> t + 1000" using time len(2) ctrl c by (fastforce simp: configuring_def)
  ultimately show "configuring (t + 1000) (write_plan b vs s) regs us c'"
    by (simp add: configuring_def)
qed


text \<open>The clock is far from its wrap during the setup, so the first look at the mode succeeds.\<close>

lemma setConfigMode_configuring:
  assumes chip: "mcp_chip d regs us" and t: "t + 20000 < 4294967296000"
  shows "triple (configuring t s regs us) (setConfigMode d (Suc fuel))
           (\<lambda>r c. r = Some ERROR_OK \<and> configuring (t + 2000) s regs us c)"
  unfolding triple_def
proof (intro allI impI)
  fix c r c'
  assume c: "configuring t s regs us c" and run: "run_state (setConfigMode d (Suc fuel)) c = (r, c')"
  obtain c1 b where m: "run_state (modifyRegister d MCP_CANCTRL CANCTRL_REQOP CANCTRL_REQOP_CONFIG) c = ((), c1)"
    and t1: "us c < us c1" "us c1 < us c + 1000"
    and p: "run_state (poll_mode d (Suc fuel) CANCTRL_REQOP_CONFIG (clock_ms (us c1) + 10)) c1 = (b, c')"
    and r: "r = map_option (\<lambda>b. if b then ERROR_OK else ERROR_FAIL) b"
    using setMode_run [OF chip run [unfolded setConfigMode_def]] by metis
  note mods = chip_modify [OF chip m]
  have far: "agree (kept (regs c) a) (regs c a) (regs c1 a)" if "a \<noteq> MCP_CANCTRL" "a \<noteq> MCP_CANSTAT" for a
    using mods(1) [of a] that by (simp add: modifiable_def)
  have cm: "config_mode (regs c)" using c by (simp add: configuring_def)
  have w: "agree 0xE0 CANCTRL_REQOP_CONFIG (regs c1 MCP_CANCTRL)"
    using mods(4) by (simp add: modifiable_def writable_def area_defs CANCTRL_REQOP_def)
  then have rq: "reqop (regs c1) = CANCTRL_REQOP_CONFIG"
    by (simp add: agree_def reqop_def CANCTRL_REQOP_def CANCTRL_REQOP_CONFIG_def)
  have om: "opmod (regs c1) = CANCTRL_REQOP_CONFIG"
    using mods(2) cm rq by (simp add: config_mode_def modifiable_def)
  have s1: "same_setup (regs c) (regs c1)"
    by (rule same_setupI; rule far) (use static_not_control in \<open>auto simp: RXB_def register_defs split: RXBn.splits\<close>)
  have "us c1 div 1000 + 10 < 4294967296"
    using t t1 c by (simp add: configuring_def) linarith
  then have lt: "clock_ms (us c1) < clock_ms (us c1) + 10"
    by (simp add: word_less_nat_alt unat_word_ariths unat_clock)
  have b: "b = Some True \<and> chip_quiet (regs c1) (regs c') \<and> us c' < us c1 + 1000"
    using chip p
  proof (cases rule: poll_mode_step)
    case (3 c2)
    then have "opmod (regs c2) = CANCTRL_REQOP_CONFIG"
      using opmod_quiet [OF 3(4)] om rq by (simp add: CANCTRL_REQOP_CONFIG_def CANCTRL_REQOP_SLEEP_def)
    then show ?thesis using 3(5) by simp
  qed (use lt in auto)
  have "same_setup (regs c1) (regs c')" "config_mode (regs c')"
    using b chip_quiet_same config_mode_quiet om rq by (auto simp: config_mode_def)
  then show "r = Some ERROR_OK \<and> configuring (t + 2000) s regs us c'"
    using b r c t1 s1 by (auto simp: configuring_def intro: programmed_same filters_on_same)
qed

lemma block_configuring:
  assumes chip: "mcp_chip d regs us" and t: "t + 20000 < 4294967296000"
    and len: "unat b + length vs \<le> 128" "length vs \<le> 14"
    and st: "\<And>i. i < length vs \<Longrightarrow> static_reg (b + of_nat i)"
  shows "triple (configuring t s regs us)
           (on_ok (setConfigMode d (Suc fuel)) (do { _ \<leftarrow> setRegisters d b vs; State_Monad.return (Some ERROR_OK) }))
           (\<lambda>r c. r = Some ERROR_OK \<and> configuring (t + 3000) (write_plan b vs s) regs us c)"
  unfolding on_ok_def
proof (rule triple_bind [OF setConfigMode_configuring [OF chip t]])
  fix r :: "mcp_error option"
  have "triple (configuring (t + 2000) s regs us) (setRegisters d b vs)
      (\<lambda>_. configuring (t + 3000) (write_plan b vs s) regs us)"
    by (rule triple_post [OF write_configuring [OF chip len st]]) (erule configuring_later | assumption | simp)+
  then have "triple (configuring (t + 2000) s regs us)
      (do { _ \<leftarrow> setRegisters d b vs; State_Monad.return (Some ERROR_OK) })
      (\<lambda>r c. r = Some ERROR_OK \<and> configuring (t + 3000) (write_plan b vs s) regs us c)"
    by (rule triple_bind) (simp add: triple_return)
  then show "triple (\<lambda>c. r = Some ERROR_OK \<and> configuring (t + 2000) s regs us c)
      (if r = Some ERROR_OK then do { _ \<leftarrow> setRegisters d b vs; State_Monad.return (Some ERROR_OK) }
       else State_Monad.return r)
      (\<lambda>r c. r = Some ERROR_OK \<and> configuring (t + 3000) (write_plan b vs s) regs us c)"
    by (intro triple_pure) simp
qed

lemma length_prepareId [simp]: "length (prepareId ext i) = 4"
  by (simp add: prepareId_def Let_def)

lemma less_4: "i < 4 \<Longrightarrow> i = 0 \<or> i = 1 \<or> i = 2 \<or> i = (3 :: nat)"
  by linarith

lemma filter_static: "i < 4 \<Longrightarrow> static_reg (filter_reg f + of_nat i)"
  by (drule less_4) (cases f; auto simp: filter_reg_def static_reg_def filter_area_def register_defs)

lemma mask_static: "i < 4 \<Longrightarrow> static_reg (mask_reg m + of_nat i)"
  by (drule less_4) (cases m; auto simp: mask_reg_def static_reg_def filter_area_def register_defs)

lemma setFilter_configuring:
  assumes "mcp_chip d regs us" "t + 20000 < 4294967296000"
  shows "triple (configuring t s regs us) (setFilter d (Suc fuel) f ext x)
           (\<lambda>r c. r = Some ERROR_OK \<and>
              configuring (t + 3000) (write_plan (filter_reg f) (prepareId ext x) s) regs us c)"
  unfolding setFilter_def
  by (rule block_configuring [OF assms])
    (simp_all add: filter_static, cases f, simp_all add: filter_reg_def register_defs)

lemma setFilterMask_configuring:
  assumes "mcp_chip d regs us" "t + 20000 < 4294967296000"
  shows "triple (configuring t s regs us) (setFilterMask d (Suc fuel) m ext x)
           (\<lambda>r c. r = Some ERROR_OK \<and>
              configuring (t + 3000) (write_plan (mask_reg m) (prepareId ext x) s) regs us c)"
  unfolding setFilterMask_def
  by (rule block_configuring [OF assms])
    (simp_all add: mask_static, cases m, simp_all add: mask_reg_def register_defs)


subsection \<open>Reset\<close>

definition after_reset :: "nat \<Rightarrow> ('c \<Rightarrow> regfile) \<Rightarrow> ('c \<Rightarrow> nat) \<Rightarrow> 'c \<Rightarrow> bool" where
  "after_reset t regs us c \<longleftrightarrow> config_mode (regs c) \<and> us c \<le> t"

lemma reset_chip_triple:
  "mcp_chip d regs us \<Longrightarrow> triple (\<lambda>c. us c \<le> t) (reset_chip d) (\<lambda>_. after_reset (t + 20000) regs us)"
  unfolding triple_def
proof (intro allI impI)
  fix c u c'
  assume chip: "mcp_chip d regs us" and t: "us c \<le> t" and run: "run_state (reset_chip d) c = (u, c')"
  have "config_mode (regs c')" using chip run by (auto simp: mcp_chip_def chip_resets_def)
  moreover have "snd (run_state (reset_chip d) c) \<in> {c'. us c < us c' \<and> us c' < us c + 20000}"
    using chip unfolding mcp_chip_def chip_clock_def by blast
  ultimately show "after_reset (t + 20000) regs us c'" using run t by (simp add: after_reset_def)
qed

lemma write_after_reset:
  assumes chip: "mcp_chip d regs us" and len: "unat b + length vs \<le> 128" "length vs \<le> 14"
    and st: "\<And>i. i < length vs \<Longrightarrow> b + of_nat i \<notin> {MCP_CANCTRL, MCP_CANSTAT}"
  shows "triple (after_reset t regs us) (setRegisters d b vs) (\<lambda>_. after_reset (t + 1000) regs us)"
  unfolding triple_def
proof (intro allI impI)
  fix c u c'
  assume c: "after_reset t regs us c" and run: "run_state (setRegisters d b vs) c = (u, c')"
  note out = chip_write(1) [OF chip run len(1)] and time = chip_write(3) [OF chip run len(1)]
  have far: "agree (kept (regs c) a) (regs c a) (regs c' a)" if "a \<in> {MCP_CANCTRL, MCP_CANSTAT}" for a
    by (rule out) (use st that in blast)+
  then show "after_reset (t + 1000) regs us c'"
    using c config_mode_agree [of "regs c" "regs c'"] time len(2) st
    by (fastforce simp: after_reset_def)
qed

lemma set_interrupts:
  assumes chip: "mcp_chip d regs us"
  shows "triple (after_reset t regs us) (setRegister d MCP_CANINTE v)
     (\<lambda>_ c. after_reset (t + 1000) regs us c \<and> regs c MCP_CANINTE = v)"
proof -
  have "triple (after_reset t regs us) (setRegisters d MCP_CANINTE [v]) (\<lambda>_. after_reset (t + 1000) regs us)"
    by (rule write_after_reset [OF chip]) (simp_all add: register_defs)
  moreover have "regs c' MCP_CANINTE = v"
    if "run_state (setRegisters d MCP_CANINTE [v]) c = (u, c')" for c u c'
    using chip_write(2) [OF chip that, of 0] by (simp add: writable_def register_defs area_defs)
  ultimately show ?thesis unfolding setRegister_list triple_def by blast
qed

text \<open>The two modifications of the receive buffer controls.\<close>

lemma modify_rx:
  assumes chip: "mcp_chip d regs us"
    and msk: "RXBnCTRL_RXM_MASK AND msk = RXBnCTRL_RXM_MASK" "data AND RXBnCTRL_RXM_MASK = 0"
  shows "triple (\<lambda>c. after_reset t regs us c \<and> regs c MCP_CANINTE = v \<and>
              (\<forall>n\<in>N. regs c (rx_CTRL (RXB n)) AND RXBnCTRL_RXM_MASK = 0))
     (modifyRegister d (rx_CTRL (RXB k)) msk data)
     (\<lambda>_ c. after_reset (t + 1000) regs us c \<and> regs c MCP_CANINTE = v \<and>
              (\<forall>n\<in>insert k N. regs c (rx_CTRL (RXB n)) AND RXBnCTRL_RXM_MASK = 0))"
  unfolding triple_def
proof (intro allI impI)
  fix c u c'
  assume c: "after_reset t regs us c \<and> regs c MCP_CANINTE = v \<and>
      (\<forall>n\<in>N. regs c (rx_CTRL (RXB n)) AND RXBnCTRL_RXM_MASK = 0)"
    and run: "run_state (modifyRegister d (rx_CTRL (RXB k)) msk data) c = (u, c')"
  have mem: "rx_CTRL (RXB k) \<in> modifiable" by (cases k) (simp_all add: RXB_def modifiable_def)
  note mods = chip_modify [OF chip run mem]
  have ne: "rx_CTRL (RXB k) \<notin> {MCP_CANCTRL, MCP_CANSTAT, MCP_CANINTE}"
    by (cases k) (simp_all add: RXB_def register_defs)
  have far: "agree (kept (regs c) a) (regs c a) (regs c' a)" if "a \<noteq> rx_CTRL (RXB k)" for a
    by (rule mods(1)) (use that ne in auto)
  have "config_mode (regs c')"
    by (rule config_mode_agree [of "regs c"]) (use c ne in \<open>auto simp: after_reset_def intro!: far\<close>)
  moreover have "regs c' MCP_CANINTE = v"
    using far [of MCP_CANINTE] ne c by (auto simp: kept_static)
  moreover have "regs c' (rx_CTRL (RXB n)) AND RXBnCTRL_RXM_MASK = 0" if "n \<in> insert k N" for n
  proof (cases "n = k")
    case True
    have "RXBnCTRL_RXM_MASK AND (writable (regs c) (rx_CTRL (RXB k)) AND msk) = RXBnCTRL_RXM_MASK"
      using msk(1) by (cases k)
        (simp_all add: RXB_def writable_def area_defs RXBnCTRL_RXM_MASK_def and.assoc [symmetric])
    then show ?thesis using agree_test [OF mods(4)] msk(2) True by metis
  next
    case False
    then have "rx_CTRL (RXB n) \<noteq> rx_CTRL (RXB k)" by (cases n; cases k) (simp_all add: RXB_def register_defs)
    then show ?thesis using agree_test [OF far kept_rxm] that False c by (metis insert_iff)
  qed
  moreover have "us c' \<le> t + 1000" using mods(6) c by (simp add: after_reset_def)
  ultimately show "after_reset (t + 1000) regs us c' \<and> regs c' MCP_CANINTE = v \<and>
      (\<forall>n\<in>insert k N. regs c' (rx_CTRL (RXB n)) AND RXBnCTRL_RXM_MASK = 0)"
    by (simp add: after_reset_def)
qed


definition interrupt_enables :: u8 where
  "interrupt_enables = CANINTF_RX0IF OR CANINTF_RX1IF OR CANINTF_ERRIF OR CANINTF_MERRF"

lemma tx_write_after_reset:
  assumes chip: "mcp_chip d regs us" and b: "b \<in> {MCP_TXB0CTRL, MCP_TXB1CTRL, MCP_TXB2CTRL}"
  shows "triple (after_reset t regs us) (setRegisters d b (replicate 14 0)) (\<lambda>_. after_reset (t + 1000) regs us)"
proof (rule write_after_reset [OF chip])
  show "unat b + length (replicate 14 (0 :: u8)) \<le> 128" using b by (auto simp: register_defs)
  fix i assume "i < length (replicate 14 (0 :: u8))"
  then have "unat (b + of_nat i) = unat b + i"
    using b by (intro address_offset [of _ 14]) (auto simp: register_defs)
  then show "b + of_nat i \<notin> {MCP_CANCTRL, MCP_CANSTAT}"
    using b by (auto simp: register_defs word_unat_eq_iff)
qed simp

lemma rx_write_after_reset:
  assumes chip: "mcp_chip d regs us" and b: "b \<in> {MCP_RXB0CTRL, MCP_RXB1CTRL}"
  shows "triple (after_reset t regs us) (setRegister d b v) (\<lambda>_. after_reset (t + 1000) regs us)"
  unfolding setRegister_list
  by (rule write_after_reset [OF chip]) (use b in \<open>auto simp: register_defs\<close>)

definition reset_plan :: plan where
  "reset_plan = write_plan MCP_CANINTE [interrupt_enables] (\<lambda>_. None)"

lemma after_reset_configuring:
  assumes "after_reset t regs us c" "regs c MCP_CANINTE = interrupt_enables"
    "\<forall>n\<in>{RXB1, RXB0}. regs c (rx_CTRL (RXB n)) AND RXBnCTRL_RXM_MASK = 0"
  shows "configuring t reset_plan regs us c"
proof -
  have "filters_on (regs c)"
    using assms(3) unfolding filters_on_def by (metis RXBn.exhaust insert_iff)
  moreover have one: "a = MCP_CANINTE" if "unat MCP_CANINTE \<le> unat a" "unat a < unat MCP_CANINTE + 1" for a :: u8
    using that by (simp add: word_unat_eq_iff)
  then have "programmed reset_plan (regs c)"
    using assms(2)
    by (auto simp: programmed_def reset_plan_def write_plan_def static_reg_def split: if_splits dest!: one)
  ultimately show ?thesis using assms(1) by (simp add: configuring_def after_reset_def)
qed

lemma reset_registers_configuring:
  assumes chip: "mcp_chip d regs us"
  shows "triple (after_reset t regs us) (reset_registers d) (\<lambda>_. configuring (t + 8000) reset_plan regs us)"
proof -
  let ?m0 = "RXBnCTRL_RXM_MASK OR RXB0CTRL_BUKT OR RXB0CTRL_FILHIT_MASK"
  let ?d0 = "RXBnCTRL_RXM_STDEXT OR RXB0CTRL_BUKT OR RXB0CTRL_FILHIT"
  let ?m1 = "RXBnCTRL_RXM_MASK OR RXB1CTRL_FILHIT_MASK"
  let ?d1 = "RXBnCTRL_RXM_STDEXT OR RXB1CTRL_FILHIT"
  note bits = RXBnCTRL_RXM_MASK_def RXB0CTRL_BUKT_def RXB0CTRL_FILHIT_MASK_def RXBnCTRL_RXM_STDEXT_def
    RXB0CTRL_FILHIT_def RXB1CTRL_FILHIT_MASK_def RXB1CTRL_FILHIT_def
  have m: "RXBnCTRL_RXM_MASK AND ?m0 = RXBnCTRL_RXM_MASK" "?d0 AND RXBnCTRL_RXM_MASK = 0"
    "RXBnCTRL_RXM_MASK AND ?m1 = RXBnCTRL_RXM_MASK" "?d1 AND RXBnCTRL_RXM_MASK = 0"
    by (simp_all add: bits)
  have r: "MCP_RXB0CTRL = rx_CTRL (RXB RXB0)" "MCP_RXB1CTRL = rx_CTRL (RXB RXB1)" by (simp_all add: RXB_def)
  have rx0: "triple (\<lambda>c. after_reset (t + 6000) regs us c \<and> regs c MCP_CANINTE = interrupt_enables)
     (modifyRegister d MCP_RXB0CTRL ?m0 ?d0)
     (\<lambda>_ c. after_reset (t + 7000) regs us c \<and> regs c MCP_CANINTE = interrupt_enables \<and>
        (\<forall>n\<in>{RXB0}. regs c (rx_CTRL (RXB n)) AND RXBnCTRL_RXM_MASK = 0))"
    unfolding r by (rule triple_pre [OF triple_post [OF modify_rx [OF chip m(1,2), where t = "t + 6000" and N = "{}"]]])
      (auto simp: add.assoc)
  have rx1: "triple (\<lambda>c. after_reset (t + 7000) regs us c \<and> regs c MCP_CANINTE = interrupt_enables \<and>
        (\<forall>n\<in>{RXB0}. regs c (rx_CTRL (RXB n)) AND RXBnCTRL_RXM_MASK = 0))
     (modifyRegister d MCP_RXB1CTRL ?m1 ?d1) (\<lambda>_. configuring (t + 8000) reset_plan regs us)"
    unfolding r by (rule triple_post [OF modify_rx [OF chip m(3,4), where t = "t + 7000" and N = "{RXB0}"]])
      (rule after_reset_configuring, auto simp: add.assoc)
  show ?thesis
    unfolding reset_registers_def interrupt_enables_def [symmetric]
    by (rule triple_bind [OF tx_write_after_reset [OF chip]] triple_bind [OF rx_write_after_reset [OF chip]]
          triple_bind [OF set_interrupts [OF chip]] triple_bind [OF triple_pre [OF rx0]]
          triple_pre [OF rx1] | simp add: add.assoc)+
qed


lemma on_ok_triple:
  assumes "triple P m (\<lambda>r c. r = Some ERROR_OK \<and> R c)" "triple R k Q"
  shows "triple P (on_ok m k) Q"
  unfolding on_ok_def by (rule triple_bind [OF assms(1)]) (intro triple_pure, simp add: assms(2))

lemma then_ignore_triple:
  assumes "triple P m (\<lambda>r c. r \<noteq> None \<and> R c)" "triple R k Q"
  shows "triple P (then_ignore m k) Q"
  unfolding then_ignore_def by (rule triple_bind [OF assms(1)]) (intro triple_pure, auto simp: assms(2))

definition filter_plan :: "RXF \<Rightarrow> bool \<Rightarrow> u32 \<Rightarrow> plan \<Rightarrow> plan" where
  "filter_plan f ext x = write_plan (filter_reg f) (prepareId ext x)"

definition mask_plan :: "MASK \<Rightarrow> bool \<Rightarrow> u32 \<Rightarrow> plan \<Rightarrow> plan" where
  "mask_plan m ext x = write_plan (mask_reg m) (prepareId ext x)"

definition cleared_plan :: plan where
  "cleared_plan =
     (mask_plan MASK1 True 0 \<circ> mask_plan MASK0 True 0 \<circ> filter_plan RXF5 False 0 \<circ> filter_plan RXF4 False 0 \<circ>
      filter_plan RXF3 False 0 \<circ> filter_plan RXF2 False 0 \<circ> filter_plan RXF1 True 0 \<circ>
      filter_plan RXF0 False 0) reset_plan"

lemmas setFilter_plan = setFilter_configuring [folded filter_plan_def]
lemmas setFilterMask_plan = setFilterMask_configuring [folded mask_plan_def]

lemma clear_filters_configuring:
  assumes chip: "mcp_chip d regs us" and t: "t + 50000 < 4294967296000"
  shows "triple (configuring t reset_plan regs us)
     (on_ok (clear_filters d (Suc fuel) [RXF0, RXF1, RXF2, RXF3, RXF4, RXF5]) (clear_masks d (Suc fuel) [MASK0, MASK1]))
     (\<lambda>r c. r = Some ERROR_OK \<and> configuring (t + 24000) cleared_plan regs us c)"
proof -
  note step = on_ok_triple [OF setFilter_plan [OF chip]] and mstep = on_ok_triple [OF setFilterMask_plan [OF chip]]
  have "triple (configuring t reset_plan regs us)
     (clear_filters d (Suc fuel) [RXF0, RXF1, RXF2, RXF3, RXF4, RXF5])
     (\<lambda>r c. r = Some ERROR_OK \<and> configuring (t + 18000)
        ((filter_plan RXF5 False 0 \<circ> filter_plan RXF4 False 0 \<circ> filter_plan RXF3 False 0 \<circ>
          filter_plan RXF2 False 0 \<circ> filter_plan RXF1 True 0 \<circ> filter_plan RXF0 False 0) reset_plan) regs us c)"
    unfolding clear_filters.simps using t
    by (simp, intro step; simp add: triple_return add.assoc)
  moreover have "triple (configuring (t + 18000) s regs us) (clear_masks d (Suc fuel) [MASK0, MASK1])
     (\<lambda>r c. r = Some ERROR_OK \<and> configuring (t + 24000)
        ((mask_plan MASK1 True 0 \<circ> mask_plan MASK0 True 0) s) regs us c)" for s
    unfolding clear_masks.simps using t
    by (simp, intro mstep; simp add: triple_return add.assoc)
  ultimately show ?thesis unfolding cleared_plan_def
    by (intro on_ok_triple) (simp_all only: o_assoc comp_apply)
qed

lemma mcp_reset_configuring:
  assumes chip: "mcp_chip d regs us" and t: "t + 100000 < 4294967296000"
  shows "triple (\<lambda>c. us c \<le> t) (mcp_reset d (Suc fuel))
     (\<lambda>r c. r = Some ERROR_OK \<and> configuring (t + 52000) cleared_plan regs us c)"
  unfolding mcp_reset_def
  apply (rule triple_bind [OF reset_chip_triple [OF chip]])
  apply (rule triple_bind [OF reset_registers_configuring [OF chip]])
  apply (rule triple_post [OF clear_filters_configuring [OF chip]])
  using t by (simp_all add: add.assoc)


subsection \<open>The setup of a node\<close>

definition timing_plan :: "u8 \<times> u8 \<times> u8 \<Rightarrow> plan \<Rightarrow> plan" where
  "timing_plan cfg s = (case cfg of (cfg1, cfg2, cfg3) \<Rightarrow>
     write_plan MCP_CNF3 [cfg3] (write_plan MCP_CNF2 [cfg2] (write_plan MCP_CNF1 [cfg1] s)))"

lemma setBitrate_configuring:
  assumes chip: "mcp_chip d regs us" and t: "t + 20000 < 4294967296000"
    and cfg: "bit_config clk speed = Some cfg"
  shows "triple (configuring t s regs us) (setBitrate d (Suc fuel) speed clk)
     (\<lambda>r c. r = Some ERROR_OK \<and> configuring (t + 5000) (timing_plan cfg s) regs us c)"
proof -
  obtain cfg1 cfg2 cfg3 where c: "cfg = (cfg1, cfg2, cfg3)" by (cases cfg)
  have w: "triple (configuring t s regs us) (setRegister d b v) (\<lambda>_. configuring (t + 1000) (write_plan b [v] s) regs us)"
    if "b \<in> {MCP_CNF1, MCP_CNF2, MCP_CNF3}" for t s b v
    unfolding setRegister_list
    by (rule write_configuring [OF chip]) (use that in \<open>auto simp: static_reg_def register_defs\<close>)
  show ?thesis
    unfolding setBitrate_def cfg c timing_plan_def option.case prod.case
    by (rule on_ok_triple [OF setConfigMode_configuring [OF chip t]])
      ((rule triple_bind [OF w] | simp add: triple_return add.assoc)+)
qed

definition setup_plan :: "u8 \<Rightarrow> plan" where
  "setup_plan nodeId =
     (filter_plan RXF3 True (push_bit 16 (ucast nodeId)) \<circ> filter_plan RXF2 True 0 \<circ>
      mask_plan MASK1 True 0x00FF0000 \<circ>
      filter_plan RXF1 True (push_bit 16 (ucast nodeId)) \<circ> filter_plan RXF0 True 0 \<circ>
      mask_plan MASK0 True 0x00FF0000 \<circ> timing_plan (0x00, 0xD0, 0x82)) cleared_plan"

lemma same_setup_trans: "same_setup r r' \<Longrightarrow> same_setup r' r'' \<Longrightarrow> same_setup r r''"
  unfolding same_setup_def by (metis agree_trans)

lemma setMode_same_setup:
  assumes chip: "mcp_chip d regs us" and run: "run_state (setMode d fuel mode) c = (r, c')"
  shows "same_setup (regs c) (regs c')"
proof -
  obtain c1 b where m: "run_state (modifyRegister d MCP_CANCTRL CANCTRL_REQOP mode) c = ((), c1)"
    and p: "run_state (poll_mode d fuel mode (clock_ms (us c1) + 10)) c1 = (b, c')"
    using setMode_run [OF chip run] by metis
  have far: "agree (kept (regs c) a) (regs c a) (regs c1 a)" if "a \<noteq> MCP_CANCTRL" "a \<noteq> MCP_CANSTAT" for a
    using chip_modify(1) [OF chip m, of a] that by (simp add: modifiable_def)
  have "same_setup (regs c) (regs c1)"
    by (rule same_setupI; rule far)
      (use static_not_control in \<open>auto simp: RXB_def register_defs split: RXBn.splits\<close>)
  then show ?thesis using chip_quiet_same [OF poll_mode_end(1) [OF chip p]] same_setup_trans by blast
qed

definition set_up :: "u8 \<Rightarrow> regfile \<Rightarrow> bool" where
  "set_up nodeId r \<longleftrightarrow> programmed (setup_plan nodeId) r \<and> filters_on r"

lemma setNormalMode_set_up:
  assumes chip: "mcp_chip d regs us" and fuel: "10001 \<le> fuel"
  shows "triple (configuring t (setup_plan nodeId) regs us) (setNormalMode d fuel)
     (\<lambda>r c. r \<noteq> None \<and> set_up nodeId (regs c) \<and>
        (r = Some ERROR_OK \<longrightarrow> opmod (regs c) = CANCTRL_REQOP_NORMAL))"
  unfolding triple_def setNormalMode_def
proof (intro allI impI)
  fix c r c'
  assume c: "configuring t (setup_plan nodeId) regs us c"
    and run: "run_state (setMode d fuel CANCTRL_REQOP_NORMAL) c = (r, c')"
  have "set_up nodeId (regs c')"
    using c setMode_same_setup [OF chip run] programmed_same filters_on_same
    by (auto simp: set_up_def configuring_def)
  then show "r \<noteq> None \<and> set_up nodeId (regs c') \<and>
      (r = Some ERROR_OK \<longrightarrow> opmod (regs c') = CANCTRL_REQOP_NORMAL)"
    using setMode_returns_aux [OF chip fuel run] by auto
qed

lemma communication_init_set_up:
  assumes chip: "mcp_chip d regs us" and fuel: "10001 \<le> fuel" and t: "t + 200000 < 4294967296000"
  shows "triple (\<lambda>c. us c \<le> t) (communication_init d fuel nodeId)
     (\<lambda>r c. r \<noteq> None \<and> set_up nodeId (regs c) \<and>
        (r = Some ERROR_OK \<longrightarrow> opmod (regs c) = CANCTRL_REQOP_NORMAL))"
proof -
  obtain k where k: "fuel = Suc k" using fuel by (cases fuel) auto
  have some: "triple P m (\<lambda>r c. r \<noteq> None \<and> R c)" if "triple P m (\<lambda>r c. r = Some ERROR_OK \<and> R c)"
    for P R :: "'a \<Rightarrow> bool" and m
    by (rule triple_post [OF that]) simp
  have cfg: "bit_config MCP_16MHZ CAN_1000KBPS = Some (0x00, 0xD0, 0x82)"
    by (simp add: bit_config_def config_16MHZ_def CFG_16MHz_def)
  show ?thesis
    unfolding communication_init_def k
    apply (rule then_ignore_triple [OF some [OF mcp_reset_configuring [OF chip]]])
    subgoal using t by simp
    apply (rule then_ignore_triple [OF some [OF setBitrate_configuring [OF chip _ cfg]]])
    subgoal using t by simp
    apply (rule then_ignore_triple [OF some [OF setFilterMask_plan [OF chip]]])
    subgoal using t by simp
    apply (rule then_ignore_triple [OF some [OF setFilter_plan [OF chip]]])
    subgoal using t by simp
    apply (rule then_ignore_triple [OF some [OF setFilter_plan [OF chip]]])
    subgoal using t by simp
    apply (rule then_ignore_triple [OF some [OF setFilterMask_plan [OF chip]]])
    subgoal using t by simp
    apply (rule then_ignore_triple [OF some [OF setFilter_plan [OF chip]]])
    subgoal using t by simp
    apply (rule then_ignore_triple [OF some [OF setFilter_plan [OF chip]]])
    subgoal using t by simp
    apply (rule triple_pre [OF setNormalMode_set_up [OF chip]])
    subgoal using fuel k by simp
    apply (simp add: setup_plan_def)
    done
qed


subsection \<open>The acceptance rule\<close>

text \<open>
  The identifier bits of a filter or mask, and the rule of the data sheet for a frame with an extended
  identifier: a filter takes part when its \<open>EXIDE\<close> bit is set, and every bit selected by the mask must be
  equal. Buffer 0 uses mask 0 with the filters 0 and 1, buffer 1 mask 1 with the others.
\<close>

definition group_id :: "regfile \<Rightarrow> u8 \<Rightarrow> u32" where
  "group_id r b =
     push_bit 21 (ucast (r b)) OR push_bit 18 (ucast (drop_bit 5 (r (b + 1)))) OR
     push_bit 16 (ucast (r (b + 1) AND 0x03)) OR push_bit 8 (ucast (r (b + 2))) OR ucast (r (b + 3))"

definition filter_match :: "regfile \<Rightarrow> MASK \<Rightarrow> u32 \<Rightarrow> RXF \<Rightarrow> bool" where
  "filter_match r m x f \<longleftrightarrow>
     r (filter_reg f + 1) AND TXB_EXIDE_MASK \<noteq> 0 \<and>
     (x XOR group_id r (filter_reg f)) AND group_id r (mask_reg m) = 0"

definition buffer_accepts :: "regfile \<Rightarrow> u32 \<Rightarrow> RXBn \<Rightarrow> bool" where
  "buffer_accepts r x n \<longleftrightarrow>
     (let rxm = r (rx_CTRL (RXB n)) AND RXBnCTRL_RXM_MASK in
      rxm = RXBnCTRL_RXM_MASK \<or>
      rxm = 0 \<and> (case n of RXB0 \<Rightarrow> list_ex (filter_match r MASK0 x) [RXF0, RXF1]
                 | RXB1 \<Rightarrow> list_ex (filter_match r MASK1 x) [RXF2, RXF3, RXF4, RXF5]))"

lemma mask_numerals:
  "(3 :: 'a :: len word) = mask 2" "(7 :: 'a word) = mask 3" "(0x1F :: 'a word) = mask 5"
  "(0xFF :: 'a word) = mask 8" "(0xFFFF :: 'a word) = mask 16" "(0x7FF :: 'a word) = mask 11"
  "(0x1FFFFFFF :: 'a word) = mask 29" "(0x0F :: 'a word) = mask 4"
  "(0x1C :: 'a word) = push_bit 2 (mask 3)" "(8 :: 'a word) = push_bit 3 1"
  "(0x00FF0000 :: 'a word) = push_bit 16 (mask 8)"
  by (simp_all add: mask_eq_exp_minus_1 push_bit_eq_mult)

lemma bit_8: "bit (8 :: int) n \<longleftrightarrow> n = 3"
proof -
  have "(8 :: int) = 2 ^ 3" by simp
  then show ?thesis by (simp only: bit_exp_iff) auto
qed

lemma bit_prepareId:
  "bit (prepareId True x ! 0) n \<longleftrightarrow> n < 8 \<and> bit x (21 + n)"
  "bit (prepareId True x ! 1) n \<longleftrightarrow> n < 2 \<and> bit x (16 + n) \<or> n = 3 \<or> 5 \<le> n \<and> n < 8 \<and> bit x (13 + n)"
  "bit (prepareId True x ! 2) n \<longleftrightarrow> n < 8 \<and> bit x (8 + n)"
  "bit (prepareId True x ! 3) n \<longleftrightarrow> n < 8 \<and> bit x n"
proof -
  have add: "(ucast (ucast (drop_bit 16 x :: u32) AND mask 2 :: u16) :: u8) +
      ucast (push_bit 3 (ucast (drop_bit 16 x) AND push_bit 2 (mask 3) :: u16)) =
    ucast (ucast (drop_bit 16 x) AND mask 2 :: u16) OR
      ucast (push_bit 3 (ucast (drop_bit 16 x) AND push_bit 2 (mask 3) :: u16))"
    by (rule disjunctive_add_eq_or) (auto intro!: bit_word_eqI simp: bit_simps)
  note defs = prepareId_def Let_def TXB_EXIDE_MASK_def mask_numerals
  show "bit (prepareId True x ! 0) n \<longleftrightarrow> n < 8 \<and> bit x (21 + n)"
    "bit (prepareId True x ! 2) n \<longleftrightarrow> n < 8 \<and> bit x (8 + n)"
    "bit (prepareId True x ! 3) n \<longleftrightarrow> n < 8 \<and> bit x n"
    unfolding defs by (auto simp: bit_simps numeral_2_eq_2 numeral_3_eq_3)
  show "bit (prepareId True x ! 1) n \<longleftrightarrow> n < 2 \<and> bit x (16 + n) \<or> n = 3 \<or> 5 \<le> n \<and> n < 8 \<and> bit x (13 + n)"
    unfolding defs add by (auto simp: bit_simps bit_8)
qed

lemma bit_group_id:
  "bit (group_id r b) n \<longleftrightarrow>
     (if n < 8 then bit (r (b + 3)) n else if n < 16 then bit (r (b + 2)) (n - 8)
      else if n < 18 then bit (r (b + 1)) (n - 16) else if n < 21 then bit (r (b + 1)) (n - 13)
      else bit (r b) (n - 21))"
  unfolding group_id_def mask_numerals
  by (auto simp: bit_simps not_less dest: bit_imp_le_length)

text \<open>A written identifier group reads back as the 29 bits of the identifier.\<close>

lemma group_id_prepareId:
  assumes "r b = prepareId True x ! 0" "r (b + 2) = prepareId True x ! 2" "r (b + 3) = prepareId True x ! 3"
    "agree 0xE3 (prepareId True x ! 1) (r (b + 1))"
  shows "group_id r b = x AND CAN_EFF_MASK"
proof (rule bit_word_eqI)
  fix n assume "n < LENGTH(32)"
  have e3: "bit (0xE3 :: u8) k" if "k < 2 \<or> 5 \<le> k \<and> k < 8" for k
  proof -
    have "k \<in> {0, 1, 5, 6, 7}" using that by auto
    then show ?thesis by (auto simp: bit_iff_odd)
  qed
  have eff_mask: "CAN_EFF_MASK = mask 29" by (simp add: CAN_EFF_MASK_def mask_numerals)
  have sidl: "bit (r (b + 1)) k = bit (prepareId True x ! 1) k" if "k < 2 \<or> 5 \<le> k \<and> k < 8" for k
    using assms(4) e3 [OF that] by (auto simp: agree_bits)
  have low: "bit (r (b + 1)) (n - 16) = bit x n" if "16 \<le> n" "n < 18"
  proof -
    have "n - 16 < 2" using that by linarith
    then show ?thesis using that sidl [of "n - 16"] by (simp add: bit_prepareId del: One_nat_def)
  qed
  have high: "bit (r (b + 1)) (n - 13) = bit x n" if "18 \<le> n" "n < 21"
  proof -
    have "5 \<le> n - 13" "n - 13 < 8" using that by linarith+
    then show ?thesis using that sidl [of "n - 13"] by (simp add: bit_prepareId del: One_nat_def)
  qed
  show "bit (group_id r b) n = bit (x AND CAN_EFF_MASK) n"
    unfolding bit_group_id eff_mask bit_and_iff bit_mask_iff assms(1-3) bit_prepareId
    using low high by (auto simp: bit_prepareId simp del: One_nat_def)
qed

text \<open>What the setup leaves in the filters and masks.\<close>

definition filter_value :: "u8 \<Rightarrow> RXF \<Rightarrow> u32" where
  "filter_value nodeId f = (if f \<in> {RXF1, RXF3} then push_bit 16 (ucast nodeId) else 0)"

lemmas plan_defs = setup_plan_def cleared_plan_def reset_plan_def filter_plan_def mask_plan_def
  timing_plan_def write_plan_def filter_reg_def mask_reg_def register_defs

lemma write_plan_in:
  "unat a = unat b + k \<Longrightarrow> k < length vs \<Longrightarrow> write_plan b vs s a = Some (vs ! k)"
  by (simp add: write_plan_def)

lemma write_plan_out:
  "unat a < unat b \<or> unat b + length vs \<le> unat a \<Longrightarrow> write_plan b vs s a = s a"
  by (auto simp: write_plan_def)

lemma setup_plan_filter:
  assumes "k < 4"
  shows "setup_plan nodeId (filter_reg f + of_nat k) =
     Some (prepareId (f \<notin> {RXF4, RXF5}) (filter_value nodeId f) ! k)"
proof -
  define a where "a = filter_reg f + of_nat k"
  have "unat a = unat (filter_reg f) + k"
    unfolding a_def by (rule address_offset [of _ 4]) (use assms in \<open>cases f; simp add: filter_reg_def register_defs\<close>)+
  then have "setup_plan nodeId a = Some (prepareId (f \<notin> {RXF4, RXF5}) (filter_value nodeId f) ! k)"
    using assms unfolding setup_plan_def cleared_plan_def reset_plan_def filter_plan_def mask_plan_def
      timing_plan_def comp_apply prod.case
    by (cases f; simp add: write_plan_in [where k = k] write_plan_out filter_value_def filter_reg_def mask_reg_def
        register_defs)
  then show ?thesis by (simp only: a_def)
qed

lemma setup_plan_mask:
  assumes "k < 4"
  shows "setup_plan nodeId (mask_reg m + of_nat k) = Some (prepareId True 0x00FF0000 ! k)"
proof -
  define a where "a = mask_reg m + of_nat k"
  have "unat a = unat (mask_reg m) + k"
    unfolding a_def by (rule address_offset [of _ 4]) (use assms in \<open>cases m; simp add: mask_reg_def register_defs\<close>)+
  then have "setup_plan nodeId a = Some (prepareId True 0x00FF0000 ! k)"
    using assms unfolding setup_plan_def cleared_plan_def reset_plan_def filter_plan_def mask_plan_def
      timing_plan_def comp_apply prod.case
    by (cases m; simp add: write_plan_in [where k = k] write_plan_out filter_reg_def mask_reg_def register_defs)
  then show ?thesis by (simp only: a_def)
qed


lemma programmed_agree: "programmed s r \<Longrightarrow> s a = Some v \<Longrightarrow> agree (implemented a) v (r a)"
  unfolding programmed_def by blast

lemma programmed_reg:
  "programmed s r \<Longrightarrow> s a = Some v \<Longrightarrow> implemented a = 0xFF \<Longrightarrow> r a = v"
  using programmed_agree by fastforce

lemma implemented_filter:
  "implemented (filter_reg f) = 0xFF" "implemented (filter_reg f + 1) = 0xEB"
  "implemented (filter_reg f + 2) = 0xFF" "implemented (filter_reg f + 3) = 0xFF"
  by (cases f; simp add: implemented_def filter_reg_def register_defs)+

lemma implemented_mask:
  "implemented (mask_reg m) = 0xFF" "implemented (mask_reg m + 1) = 0xE3"
  "implemented (mask_reg m + 2) = 0xFF" "implemented (mask_reg m + 3) = 0xFF"
  by (cases m; simp add: implemented_def mask_reg_def register_defs)+

lemma set_up_filter:
  assumes "set_up nodeId r" "f \<notin> {RXF4, RXF5}"
  shows "group_id r (filter_reg f) = filter_value nodeId f AND CAN_EFF_MASK"
    "r (filter_reg f + 1) AND TXB_EXIDE_MASK \<noteq> 0"
proof -
  have p: "programmed (setup_plan nodeId) r" using assms(1) by (simp add: set_up_def)
  note at = setup_plan_filter [of _ nodeId f]
  have sidl: "agree 0xEB (prepareId True (filter_value nodeId f) ! 1) (r (filter_reg f + 1))"
  proof -
    have "setup_plan nodeId (filter_reg f + 1) = Some (prepareId True (filter_value nodeId f) ! 1)"
      using at [of 1] assms(2) by simp
    then show ?thesis using programmed_agree [OF p] implemented_filter(2) [of f] by metis
  qed
  show "group_id r (filter_reg f) = filter_value nodeId f AND CAN_EFF_MASK"
  proof (rule group_id_prepareId)
    show "agree 0xE3 (prepareId True (filter_value nodeId f) ! 1) (r (filter_reg f + 1))"
      by (rule agree_less [OF sidl]) simp
  qed (use at [of 0] at [of 2] at [of 3] assms(2) p in \<open>auto simp: implemented_filter intro: programmed_reg\<close>)
  have "bit (prepareId True (filter_value nodeId f) ! 1) 3" by (simp only: bit_prepareId simp_thms)
  then have "bit (r (filter_reg f + 1)) 3"
  proof -
    have "bit (0xEB :: u8) 3" by (simp add: bit_iff_odd)
    with sidl \<open>bit (prepareId True (filter_value nodeId f) ! 1) 3\<close> show ?thesis unfolding agree_bits by blast
  qed
  then have "bit (r (filter_reg f + 1) AND TXB_EXIDE_MASK) 3"
    by (simp add: bit_and_iff TXB_EXIDE_MASK_def bit_8)
  then show "r (filter_reg f + 1) AND TXB_EXIDE_MASK \<noteq> 0" by auto
qed

lemma set_up_standard_filter:
  assumes "set_up nodeId r" "f \<in> {RXF4, RXF5}"
  shows "r (filter_reg f + 1) AND TXB_EXIDE_MASK = 0"
proof -
  have "agree 0xEB (prepareId False (filter_value nodeId f) ! 1) (r (filter_reg f + 1))"
    using assms programmed_agree setup_plan_filter [of 1 nodeId f] implemented_filter(2) [of f]
    unfolding set_up_def by fastforce
  then have "r (filter_reg f + 1) AND 8 = prepareId False (filter_value nodeId f) ! 1 AND 8"
    using agree_test [of "0xEB" _ _ 8] by fastforce
  then show ?thesis using assms(2) by (auto simp: TXB_EXIDE_MASK_def prepareId_def filter_value_def)
qed

lemma set_up_mask:
  assumes "set_up nodeId r"
  shows "group_id r (mask_reg m) = 0x00FF0000"
proof -
  have p: "programmed (setup_plan nodeId) r" using assms by (simp add: set_up_def)
  note at = setup_plan_mask [of _ nodeId m]
  have "group_id r (mask_reg m) = 0x00FF0000 AND CAN_EFF_MASK"
  proof (rule group_id_prepareId)
    show "agree 0xE3 (prepareId True 0xFF0000 ! 1) (r (mask_reg m + 1))"
      using programmed_agree [OF p] at [of 1] implemented_mask(2) [of m] by fastforce
  qed (use at [of 0] at [of 2] at [of 3] p in \<open>auto simp: implemented_mask intro: programmed_reg\<close>)
  then show ?thesis by (simp add: CAN_EFF_MASK_def)
qed

lemma set_up_match:
  assumes "set_up nodeId r"
  shows "filter_match r m (canMessageId src dest t AND CAN_EFF_MASK) f \<longleftrightarrow>
     f \<notin> {RXF4, RXF5} \<and> dest = (if f \<in> {RXF1, RXF3} then nodeId else 0)"
proof (cases "f \<in> {RXF4, RXF5}")
  case True
  then show ?thesis using set_up_standard_filter [OF assms True] by (simp add: filter_match_def)
next
  case False
  define b where "b = (if f \<in> {RXF1, RXF3} then nodeId else 0)"
  have v: "filter_value nodeId f = push_bit 16 (ucast b)" by (simp add: filter_value_def b_def)
  have x: "(a XOR b) AND m = 0 \<longleftrightarrow> a AND m = b AND m" for a b m :: u32
    by (auto simp: bit_eq_iff bit_simps)
  have e: "CAN_EFF_MASK AND 0x00FF0000 = 0x00FF0000" by (simp add: CAN_EFF_MASK_def)
  have p: "push_bit 16 (ucast b :: u32) AND 0x00FF0000 = push_bit 16 (ucast b)"
    unfolding masks by (rule bit_word_eqI) (auto simp: bit_simps bit_u8_outside dest: bit_u8_less)
  show ?thesis
    using False set_up_filter [OF assms False] set_up_mask [OF assms]
    unfolding filter_match_def x v
    by (simp add: and.assoc e id_masked p push_ucast_inject) (simp add: b_def)
qed

lemma set_up_accepts:
  assumes "set_up nodeId r"
  shows "buffer_accepts r (canMessageId src dest t AND CAN_EFF_MASK) n \<longleftrightarrow> dest = 0 \<or> dest = nodeId"
proof -
  have "r (rx_CTRL (RXB n)) AND RXBnCTRL_RXM_MASK = 0" using assms by (simp add: set_up_def filters_on_def)
  moreover have "RXBnCTRL_RXM_MASK \<noteq> 0" by (simp add: RXBnCTRL_RXM_MASK_def)
  ultimately show ?thesis
    by (cases n) (auto simp: buffer_accepts_def Let_def set_up_match [OF assms])
qed

lemma set_up_interrupts: "set_up nodeId r \<Longrightarrow> r MCP_CANINTE = interrupt_enables"
proof -
  assume "set_up nodeId r"
  moreover have "setup_plan nodeId MCP_CANINTE = Some interrupt_enables"
    unfolding setup_plan_def cleared_plan_def reset_plan_def filter_plan_def mask_plan_def
      timing_plan_def comp_apply prod.case
    by (simp add: write_plan_in [where k = 0] write_plan_out filter_reg_def mask_reg_def register_defs)
  moreover have "implemented MCP_CANINTE = 0xFF" by (simp add: implemented_def register_defs)
  ultimately show ?thesis using programmed_reg unfolding set_up_def by blast
qed

lemma set_up_timing:
  "set_up nodeId r \<Longrightarrow> (r MCP_CNF1, r MCP_CNF2, r MCP_CNF3) = (0x00, 0xD0, 0x82)"
proof -
  assume "set_up nodeId r"
  moreover have "setup_plan nodeId MCP_CNF1 = Some 0" "setup_plan nodeId MCP_CNF2 = Some 0xD0"
      "setup_plan nodeId MCP_CNF3 = Some 0x82"
    unfolding setup_plan_def cleared_plan_def reset_plan_def filter_plan_def mask_plan_def
      timing_plan_def comp_apply prod.case
    by (simp_all add: write_plan_in [where k = 0] write_plan_out filter_reg_def mask_reg_def register_defs)
  moreover have "implemented MCP_CNF1 = 0xFF" "implemented MCP_CNF2 = 0xFF" "implemented MCP_CNF3 = 0xFF"
    by (simp_all add: implemented_def register_defs)
  ultimately show ?thesis using programmed_reg [of "setup_plan nodeId" r] unfolding set_up_def by blast
qed

text \<open>C6. The setup of a node programs the chip as it means to. Whatever state the chip is in, within the
  first 49 days and with fuel for every mode change, \<open>Communication::init\<close> returns; afterwards each of
  the two receive buffers accepts exactly the messages addressed to this node or to everyone (by the
  acceptance rule of the data sheet on the registers), the bit timing is that of 1 Mbit/s, and the
  receive and error interrupts are enabled.\<close>

theorem init_accepts_own_messages:
  assumes "mcp_chip d regs us" "10001 \<le> fuel" "us c + 200000 < 4294967296000"
    and "run_state (communication_init d fuel nodeId) c = (r, c')"
  shows "r \<noteq> None \<and>
     (\<forall>n src dest t. buffer_accepts (regs c') (canMessageId src dest t AND CAN_EFF_MASK) n \<longleftrightarrow>
        dest = 0 \<or> dest = nodeId) \<and>
     16000000 = 1000000 * clocks_per_bit (regs c' MCP_CNF1, regs c' MCP_CNF2, regs c' MCP_CNF3) \<and>
     regs c' MCP_CANINTE = interrupt_enables"
proof -
  have post: "r \<noteq> None \<and> set_up nodeId (regs c') \<and> (r = Some ERROR_OK \<longrightarrow> opmod (regs c') = CANCTRL_REQOP_NORMAL)"
    by (rule tripleD [OF communication_init_set_up [OF assms(1-3)] order_refl assms(4)])
  have timing: "16000000 = 1000000 * clocks_per_bit (0x00, 0xD0, 0x82)"
    by (simp add: clocks_per_bit_def)
  show ?thesis
    using post set_up_accepts set_up_interrupts set_up_timing [of nodeId "regs c'"] timing by auto
qed

theorem init_accepts_own_messages_witness:
  "(\<lambda>(r, c'). buffer_accepts (m_regs c') (canMessageId 1 3 CAN_COMMANDS_REQUEST AND CAN_EFF_MASK) RXB1 \<and>
      \<not> buffer_accepts (m_regs c') (canMessageId 1 2 CAN_COMMANDS_REQUEST AND CAN_EFF_MASK) RXB1)
     (run_state (communication_init mem_spi 10001 3) mem_boot)"
  using init_accepts_own_messages [OF mem_is_chip order_refl, of mem_boot 3]
  by (cases "run_state (communication_init mem_spi 10001 3) mem_boot") (simp add: mem_boot_def)

end
