(* ===== verification/Mcp_Messages.thy ===== *)
theory Mcp_Messages
  imports Mcp_Init
begin

text \<open>
  Sending and receiving through the chip: what \<open>sendMessage\<close> leaves in a transmit buffer, what
  \<open>readMessage\<close> makes of a receive buffer, and that the second undoes the first across the bus.
\<close>

subsection \<open>The bytes of an identifier\<close>

lemma bit_prepareId_standard:
  "bit (prepareId False x ! 0) n \<longleftrightarrow> n < 8 \<and> 3 + n < 16 \<and> bit x (3 + n)"
  "bit (prepareId False x ! 1) n \<longleftrightarrow> 5 \<le> n \<and> n < 8 \<and> bit x (n - 5)"
  unfolding prepareId_def Let_def mask_numerals by (auto simp: bit_simps)

lemma read_id_or:
  "read_id sidh sidl eid8 eid0 =
     (if sidl AND TXB_EXIDE_MASK = TXB_EXIDE_MASK then
        push_bit 21 (ucast sidh) OR push_bit 18 (ucast (drop_bit 5 sidl)) OR
        push_bit 16 (ucast (sidl AND 0x03)) OR push_bit 8 (ucast eid8) OR ucast eid0 OR CAN_EFF_FLAG
      else push_bit 3 (ucast sidh) OR ucast (drop_bit 5 sidl))"
proof -
  have a: "push_bit 3 (ucast sidh) + ucast (drop_bit 5 sidl) =
      (push_bit 3 (ucast sidh) OR ucast (drop_bit 5 sidl) :: u32)"
    by (rule disjunctive_add_eq_or) (auto intro!: bit_word_eqI simp: bit_simps dest!: bit_u8_less)
  have b: "push_bit 2 w + ucast (sidl AND mask 2) = (push_bit 2 w OR ucast (sidl AND mask 2) :: u32)" for w
    by (rule disjunctive_add_eq_or) (auto intro!: bit_word_eqI simp: bit_simps)
  have c: "push_bit 8 w + ucast v = (push_bit 8 w OR ucast v :: u32)" for w and v :: u8
    by (rule disjunctive_add_eq_or) (auto intro!: bit_word_eqI simp: bit_simps dest!: bit_u8_less)
  have d: "push_bit k (x OR y :: u32) = push_bit k x OR push_bit k y" for k x y
    by (rule push_bit_or)
  show ?thesis
    unfolding read_id_def Let_def mask_numerals(1) a b c d
    by (simp add: or.assoc mask_eq_exp_minus_1)
qed

text \<open>The identifier a frame has on the bus: the flags and the bits its format has room for.\<close>

definition wire_id :: "u32 \<Rightarrow> u32" where
  "wire_id i = (if i AND CAN_EFF_FLAG \<noteq> 0 then (i AND CAN_EFF_MASK) OR CAN_EFF_FLAG else i AND CAN_SFF_MASK)
     OR (i AND CAN_RTR_FLAG)"

lemma exide_bit: "sidl AND TXB_EXIDE_MASK = TXB_EXIDE_MASK \<longleftrightarrow> bit sidl 3" "sidl AND TXB_EXIDE_MASK \<noteq> 0 \<longleftrightarrow> bit sidl 3"
proof -
  have m: "bit TXB_EXIDE_MASK n \<longleftrightarrow> n = 3" for n by (simp add: TXB_EXIDE_MASK_def bit_8, auto)
  have "sidl AND TXB_EXIDE_MASK = (if bit sidl 3 then TXB_EXIDE_MASK else 0)"
    by (rule bit_word_eqI) (auto simp: bit_and_iff m)
  moreover have "TXB_EXIDE_MASK \<noteq> 0" by (simp add: TXB_EXIDE_MASK_def)
  ultimately show "sidl AND TXB_EXIDE_MASK = TXB_EXIDE_MASK \<longleftrightarrow> bit sidl 3"
      "sidl AND TXB_EXIDE_MASK \<noteq> 0 \<longleftrightarrow> bit sidl 3" by auto
qed

lemma read_id_extended:
  assumes "agree 0xEB (prepareId True x ! 1) sidl"
  shows "read_id (prepareId True x ! 0) sidl (prepareId True x ! 2) (prepareId True x ! 3) =
     (x AND CAN_EFF_MASK) OR CAN_EFF_FLAG"
proof -
  define r where "r = (\<lambda>a :: u8. if a = 0 then prepareId True x ! 0 else if a = 1 then sidl
    else if a = 2 then prepareId True x ! 2 else prepareId True x ! 3)"
  have "bit (0xEB :: u8) 3" by (simp add: bit_iff_odd)
  then have "bit sidl 3" using assms bit_prepareId(2) [of x 3] by (auto simp: agree_bits)
  moreover have "group_id r 0 = x AND CAN_EFF_MASK"
    by (rule group_id_prepareId) (use agree_less [OF assms, of "0xE3"] in \<open>simp_all add: r_def\<close>)
  ultimately show ?thesis
    unfolding read_id_or exide_bit by (simp add: group_id_def r_def or.assoc [symmetric])
qed

lemma read_id_standard:
  fixes x :: u32
  assumes "agree 0xEB (prepareId False x ! 1) sidl"
  shows "read_id (prepareId False x ! 0) sidl e8 e0 = x AND CAN_SFF_MASK"
proof -
  have m: "bit (0xEB :: u8) k" if "k \<in> {3, 5, 6, 7 :: nat}" for k using that by (auto simp: bit_iff_odd)
  have k: "bit sidl k = bit (prepareId False x ! 1) k" if "k \<in> {3, 5, 6, 7}" for k
    using assms m [OF that] by (auto simp: agree_bits)
  have "\<not> bit sidl 3" using k [of 3] bit_prepareId_standard(2) [of x 3] by simp
  moreover have low: "bit sidl (5 + n) = bit x n" if "n < 3" for n
  proof -
    have "5 + n \<in> {3, 5, 6, 7}" using that by auto
    then show ?thesis using k [of "5 + n"] that unfolding bit_prepareId_standard(2) by simp
  qed
  moreover have "push_bit 3 (ucast (prepareId False x ! 0)) OR ucast (drop_bit 5 sidl) = (x AND mask 11)"
  proof (rule bit_word_eqI)
    fix n assume "n < LENGTH(32)"
    show "bit (push_bit 3 (ucast (prepareId False x ! 0)) OR ucast (drop_bit 5 sidl) :: u32) n = bit (x AND mask 11) n"
    proof (cases "n < 3")
      case True
      then show ?thesis using low [of n] by (simp add: bit_simps)
    next
      case False
      then have "\<not> bit sidl (5 + n)" using bit_u8_outside [of "5 + n" sidl] by simp
      then show ?thesis using False by (auto simp: bit_simps bit_prepareId_standard)
    qed
  qed
  ultimately show ?thesis
    unfolding read_id_or exide_bit CAN_SFF_MASK_def mask_numerals by simp
qed


subsection \<open>Sending\<close>

text \<open>The bytes of a frame are in a transmit buffer, in its implemented bits.\<close>

definition holds_frame :: "regfile \<Rightarrow> TXBn \<Rightarrow> can_frame \<Rightarrow> bool" where
  "holds_frame r b f \<longleftrightarrow>
     (\<forall>i<length (tx_image f). agree (implemented (tx_SIDH (TXB b) + of_nat i)) (tx_image f ! i)
        (r (tx_SIDH (TXB b) + of_nat i)))"

lemma length_tx_image: "frame_ok f \<Longrightarrow> can_dlc f \<le> 8 \<Longrightarrow> length (tx_image f) = 5 + unat (can_dlc f)"
  by (simp add: tx_image_def Let_def frame_ok_def word_le_nat_alt)

lemma tx_addresses:
  assumes "i < 13"
  shows "tx_area (tx_SIDH (TXB b) + of_nat i)" "tx_of (tx_SIDH (TXB b) + of_nat i) = b"
    "unat (tx_SIDH (TXB b) + of_nat i) = unat (tx_SIDH (TXB b)) + i"
proof -
  have "unat (tx_SIDH (TXB b)) + 13 \<le> 128" by (cases b) (simp_all add: TXB_def register_defs)
  then show a: "unat (tx_SIDH (TXB b) + of_nat i) = unat (tx_SIDH (TXB b)) + i"
    using assms by (rule address_offset)
  show "tx_area (tx_SIDH (TXB b) + of_nat i)" "tx_of (tx_SIDH (TXB b) + of_nat i) = b"
    unfolding tx_area_def tx_of_def a
    using assms by (cases b; simp add: TXB_def register_defs)+
qed

lemma tx_area_apart: "tx_area a \<Longrightarrow> a \<noteq> tx_CTRL (TXB b) \<and> a \<noteq> MCP_CANCTRL \<and> \<not> filter_area a \<and>
    a \<notin> {MCP_CNF1, MCP_CNF2, MCP_CNF3}"
  by (cases b) (auto simp: tx_area_def filter_area_def TXB_def register_defs)

lemma tx_ctrl: "tx_CTRL (TXB b) \<in> modifiable" "tx_CTRL (TXB b) \<noteq> MCP_CANCTRL" "unat (tx_CTRL (TXB b)) < 128"
  by (cases b; simp add: TXB_def modifiable_def register_defs)+

lemma sendMessage_buffer_holds:
  assumes chip: "mcp_chip d regs us" and f: "frame_ok f" "can_dlc f \<le> 8"
    and idle: "tx_idle (regs c) b" and run: "run_state (sendMessage_buffer d b f) c = (res, c')"
  shows "holds_frame (regs c') b f" "res \<in> {ERROR_OK, ERROR_FAILTX}"
    "tx_area a \<Longrightarrow> tx_of a \<noteq> b \<Longrightarrow> regs c' a = regs c a"
proof -
  have len: "length (tx_image f) \<le> 13"
    using length_tx_image [OF f] f(2) by (simp add: word_le_nat_alt)
  have not_long: "\<not> can_dlc f > CAN_MAX_DLEN" using f(2) by (simp add: CAN_MAX_DLEN_def)
  obtain c1 where w: "run_state (setRegisters d (tx_SIDH (TXB b)) (tx_image f)) c = ((), c1)"
    by (metis old.unit.exhaust surj_pair)
  obtain c2 where m: "run_state (modifyRegister d (tx_CTRL (TXB b)) TXB_TXREQ TXB_TXREQ) c1 = ((), c2)"
    by (metis old.unit.exhaust surj_pair)
  obtain ctrl c3 where rd: "run_state (readRegister d (tx_CTRL (TXB b))) c2 = (ctrl, c3)"
    by (metis surj_pair)
  have c3: "c' = c3" "res = (if ctrl AND (TXB_ABTF OR TXB_MLOA OR TXB_TXERR) \<noteq> 0 then ERROR_FAILTX else ERROR_OK)"
    using run not_long w m rd by (simp_all add: sendMessage_buffer_def)
  then show "res \<in> {ERROR_OK, ERROR_FAILTX}" by simp
  have far: "tx_SIDH (TXB b) + of_nat i \<noteq> MCP_CANCTRL" if "i < length (tx_image f)" for i
    using tx_addresses(1) [of i b] tx_area_apart that len by auto
  have base: "unat (tx_SIDH (TXB b)) + length (tx_image f) \<le> 128"
    using len by (cases b) (simp_all add: TXB_def register_defs)
  have after: "regs c3 a = regs c1 a" if "tx_area a" for a
  proof -
    have "regs c2 a = regs c1 a"
      using chip_modify(1) [OF chip m tx_ctrl(1), of a] tx_area_apart [OF that] tx_ctrl(2) that
      by (simp add: kept_static)
    moreover have "regs c3 a = regs c2 a"
      using chip_quietD [OF chip_read1(1) [OF chip rd tx_ctrl(3)], of a] that by (simp add: kept_static)
    ultimately show ?thesis by simp
  qed
  show "regs c' a = regs c a" if "tx_area a" "tx_of a \<noteq> b"
  proof -
    have "a \<noteq> tx_SIDH (TXB b) + of_nat i" if "i < length (tx_image f)" for i
      using that len tx_addresses(2) [of i b] \<open>tx_of a \<noteq> b\<close> by auto
    then have "regs c1 a = regs c a"
      using chip_write(1) [OF chip w base far, of a] that(1) by (simp add: kept_static)
    then show ?thesis using after [OF that(1)] c3 by simp
  qed
  show "holds_frame (regs c') b f"
    unfolding holds_frame_def
  proof (intro allI impI)
    fix i assume i: "i < length (tx_image f)"
    let ?a = "tx_SIDH (TXB b) + of_nat i"
    have area: "tx_area ?a" "tx_of ?a = b" using i len tx_addresses [of i b] by auto
    have "writable (regs c) ?a = implemented ?a"
      using area idle tx_area_apart [OF area(1)] by (simp add: writable_def)
    then have "agree (implemented ?a) (tx_image f ! i) (regs c1 ?a)"
      using chip_write(2) [OF chip w base far i] by simp
    then show "agree (implemented ?a) (tx_image f ! i) (regs c' ?a)" using after [OF area(1)] c3 by simp
  qed
qed

lemma first_free_outcome:
  assumes chip: "mcp_chip d regs us" and f: "frame_ok f" "can_dlc f \<le> 8"
  shows "run_state (first_free d bs f) c = (res, c') \<Longrightarrow>
     res = ERROR_ALLTXBUSY \<and> chip_quiet (regs c) (regs c') \<or>
     res \<in> {ERROR_OK, ERROR_FAILTX} \<and> (\<exists>b c1. chip_quiet (regs c) (regs c1) \<and> tx_idle (regs c1) b \<and>
        holds_frame (regs c') b f \<and> (\<forall>a. tx_area a \<longrightarrow> tx_of a \<noteq> b \<longrightarrow> regs c' a = regs c a))"
proof (induction bs arbitrary: c)
  case (Cons b bs)
  obtain v c1 where rd: "run_state (readRegister d (tx_CTRL (TXB b))) c = (v, c1)" by (metis surj_pair)
  note facts = chip_read1 [OF chip rd tx_ctrl(3)]
  have same: "regs c1 a = regs c a" if "tx_area a" for a
    using chip_quietD [OF facts(1), of a] that by (simp add: kept_static)
  show ?case
  proof (cases "v AND TXB_TXREQ = 0")
    case True
    then have idle: "tx_idle (regs c1) b" using facts(2) by (simp add: tx_idle_def)
    moreover have "run_state (sendMessage_buffer d b f) c1 = (res, c')" using Cons.prems rd True by simp
    note sent = sendMessage_buffer_holds [OF chip f idle this]
    ultimately show ?thesis using sent(1,2) sent(3) same facts(1) by metis
  next
    case False
    then have "run_state (first_free d bs f) c1 = (res, c')" using Cons.prems rd by simp
    from Cons.IH [OF this] show ?thesis
    proof (elim disjE conjE exE)
      assume "res = ERROR_ALLTXBUSY" "chip_quiet (regs c1) (regs c')"
      then show ?thesis using chip_quiet_trans [OF facts(1)] by blast
    next
      fix b' c2
      assume "res \<in> {ERROR_OK, ERROR_FAILTX}" "chip_quiet (regs c1) (regs c2)" "tx_idle (regs c2) b'"
        "holds_frame (regs c') b' f" "\<forall>a. tx_area a \<longrightarrow> tx_of a \<noteq> b' \<longrightarrow> regs c' a = regs c1 a"
      then show ?thesis using chip_quiet_trans [OF facts(1)] same by metis
    qed
  qed
qed simp

text \<open>A free buffer stays free under a read, so a message is refused only when none was free.\<close>

lemma idle_quiet: "chip_quiet r r' \<Longrightarrow> tx_idle r b \<Longrightarrow> tx_idle r' b"
proof -
  assume q: "chip_quiet r r'" and i: "tx_idle r b"
  let ?a = "tx_CTRL (TXB b)"
  have k: "kept r ?a = NOT (r ?a) AND TXB_TXREQ"
    by (cases b) (simp_all add: kept_def filter_area_def tx_area_def TXB_def register_defs)
  have "r ?a AND TXB_TXREQ = 0" using i by (simp add: tx_idle_def)
  then have "\<not> (bit (r ?a) n \<and> bit TXB_TXREQ n)" for n
    by (metis bit_and_iff bit_0_eq bot_apply bot_bool_def)
  then have m: "TXB_TXREQ AND kept r ?a = TXB_TXREQ"
    unfolding k by (intro bit_word_eqI) (auto simp: bit_and_iff bit_not_iff)
  have "r ?a AND TXB_TXREQ = r' ?a AND TXB_TXREQ"
    using q agree_test [OF _ m] by (simp add: chip_quiet_def)
  then show "tx_idle r' b" using i by (simp add: tx_idle_def)
qed

lemma first_free_accepts:
  assumes chip: "mcp_chip d regs us" and f: "frame_ok f" "can_dlc f \<le> 8"
  shows "run_state (first_free d bs f) c = (res, c') \<Longrightarrow> b \<in> set bs \<Longrightarrow> tx_idle (regs c) b \<Longrightarrow>
    res \<noteq> ERROR_ALLTXBUSY"
proof (induction bs arbitrary: c)
  case (Cons b' bs)
  obtain v c1 where rd: "run_state (readRegister d (tx_CTRL (TXB b'))) c = (v, c1)" by (metis surj_pair)
  note facts = chip_read1 [OF chip rd tx_ctrl(3)]
  have idle: "tx_idle (regs c1) b" by (rule idle_quiet [OF facts(1) Cons.prems(3)])
  show ?case
  proof (cases "v AND TXB_TXREQ = 0")
    case True
    then have "tx_idle (regs c1) b'" using facts(2) by (simp add: tx_idle_def)
    moreover have "run_state (sendMessage_buffer d b' f) c1 = (res, c')" using Cons.prems(1) rd True by simp
    ultimately show ?thesis using sendMessage_buffer_holds(2) [OF chip f] by blast
  next
    case False
    then have "run_state (first_free d bs f) c1 = (res, c')" "b \<in> set bs"
      using Cons.prems(1,2) rd idle facts(2) by (auto simp: tx_idle_def)
    then show ?thesis using Cons.IH idle by blast
  qed
qed simp

lemma sendMessage_outcome_aux:
  assumes chip: "mcp_chip d regs us" and f: "frame_ok f"
    and run: "run_state (sendMessage d f) c = (res, c')"
  shows "if can_dlc f > 8 then res = ERROR_FAILTX \<and> c' = c
     else res = ERROR_ALLTXBUSY \<and> chip_quiet (regs c) (regs c') \<and> (\<forall>b. \<not> tx_idle (regs c) b) \<or>
       res \<in> {ERROR_OK, ERROR_FAILTX} \<and> (\<exists>b c1. chip_quiet (regs c) (regs c1) \<and> tx_idle (regs c1) b \<and>
          holds_frame (regs c') b f \<and> (\<forall>a. tx_area a \<longrightarrow> tx_of a \<noteq> b \<longrightarrow> regs c' a = regs c a))"
proof (cases "can_dlc f > 8")
  case True
  then show ?thesis using run by (simp add: sendMessage_def CAN_MAX_DLEN_def)
next
  case False
  then have "run_state (first_free d [TXB0, TXB1, TXB2] f) c = (res, c')"
    using run by (simp only: sendMessage_def CAN_MAX_DLEN_def if_False)
  note run' = this
  have short: "can_dlc f \<le> 8" using False by simp
  have every: "b \<in> set [TXB0, TXB1, TXB2]" for b by (cases b) simp_all
  have "\<forall>b. \<not> tx_idle (regs c) b" if "res = ERROR_ALLTXBUSY"
    using first_free_accepts [OF chip f short run' every] that by blast
  then show ?thesis
    unfolding if_not_P [OF False] using first_free_outcome [OF chip f short run'] by blast
qed

text \<open>C36. \<open>sendMessage\<close> of a well-formed frame either finds no free buffer and leaves the chip alone,
  or puts the bytes of the frame into a transmit buffer that is free, leaves the frames that wait in
  the other buffers untouched, and reports \<open>ERROR_OK\<close> or \<open>ERROR_FAILTX\<close>; a frame with more than eight
  bytes is refused before the chip is touched.\<close>

theorem sendMessage_outcome:
  assumes chip: "mcp_chip d regs us" and f: "frame_ok f"
    and run: "run_state (sendMessage d f) c = (res, c')"
  shows "if can_dlc f > 8 then res = ERROR_FAILTX \<and> c' = c
     else res = ERROR_ALLTXBUSY \<and> chip_quiet (regs c) (regs c') \<and> (\<forall>b. \<not> tx_idle (regs c) b) \<or>
       res \<in> {ERROR_OK, ERROR_FAILTX} \<and> (\<exists>b c1. chip_quiet (regs c) (regs c1) \<and> tx_idle (regs c1) b \<and>
          holds_frame (regs c') b f \<and> (\<forall>a. tx_area a \<longrightarrow> tx_of a \<noteq> b \<longrightarrow> regs c' a = regs c a))"
  by (rule sendMessage_outcome_aux [OF assms])

definition frame_example :: can_frame where
  "frame_example = \<lparr>can_id = 0x80030108, can_dlc = 2, can_data = [1, 2, 0, 0, 0, 0, 0, 0]\<rparr>"

theorem sendMessage_outcome_witness:
  "(\<lambda>(res, c'). res = ERROR_ALLTXBUSY \<and> chip_quiet (m_regs mem_boot) (m_regs c') \<or>
      res \<in> {ERROR_OK, ERROR_FAILTX} \<and> (\<exists>b. holds_frame (m_regs c') b frame_example))
     (run_state (sendMessage mem_spi frame_example) mem_boot)"
proof (cases "run_state (sendMessage mem_spi frame_example) mem_boot")
  case (Pair res c')
  have "frame_ok frame_example" "\<not> can_dlc frame_example > 8" by (simp_all add: frame_ok_def frame_example_def)
  then show ?thesis using sendMessage_outcome [OF mem_is_chip _ Pair] unfolding Pair by auto
qed


subsection \<open>Receiving\<close>

text \<open>The frame in a receive buffer, read into a frame that held \<open>g\<close>.\<close>

definition rx_dlc :: "regfile \<Rightarrow> RXBn \<Rightarrow> u8" where
  "rx_dlc r n = r (rx_SIDH (RXB n) + 4) AND DLC_MASK"

definition rx_frame :: "regfile \<Rightarrow> RXBn \<Rightarrow> can_frame \<Rightarrow> can_frame" where
  "rx_frame r n g =
     (let s = rx_SIDH (RXB n);
          i = read_id (r s) (r (s + 1)) (r (s + 2)) (r (s + 3));
          dlc = rx_dlc r n
      in \<lparr>can_id = (if r (rx_CTRL (RXB n)) AND RXBnCTRL_RTR \<noteq> 0 then i OR CAN_RTR_FLAG else i),
          can_dlc = dlc,
          can_data = map (\<lambda>k. r (s + 5 + of_nat k)) [0..<unat dlc] @ drop (unat dlc) (can_data g)\<rparr>)"

lemma rx_addresses:
  assumes "i < 13"
  shows "rx_area n (rx_SIDH (RXB n) + of_nat i)" "unat (rx_SIDH (RXB n)) + 13 \<le> 128"
    "rx_DATA (RXB n) = rx_SIDH (RXB n) + 5"
proof -
  show b: "unat (rx_SIDH (RXB n)) + 13 \<le> 128" by (cases n) (simp_all add: RXB_def register_defs)
  have "unat (rx_SIDH (RXB n) + of_nat i) = unat (rx_SIDH (RXB n)) + i"
    by (rule address_offset [OF b assms])
  then show "rx_area n (rx_SIDH (RXB n) + of_nat i)"
    using assms by (cases n) (simp_all add: rx_area_def RXB_def register_defs)
  show "rx_DATA (RXB n) = rx_SIDH (RXB n) + 5" by (cases n) (simp_all add: RXB_def register_defs)
qed

lemma rx_quiet:
  "chip_quiet r r' \<Longrightarrow> rx_full r n \<Longrightarrow> i < 13 \<Longrightarrow> r' (rx_SIDH (RXB n) + of_nat i) = r (rx_SIDH (RXB n) + of_nat i)"
  using chip_quietD [of r r' "rx_SIDH (RXB n) + of_nat i"] rx_addresses(1) [of i n] by (simp add: kept_rx)

lemma rx_read:
  assumes chip: "mcp_chip d regs us" and full: "rx_full (regs c) n" and k: "k + m \<le> 13"
    and run: "run_state (readRegisters d (rx_SIDH (RXB n) + of_nat k) m) c = (vs, c')"
  shows "vs = map (\<lambda>i. regs c (rx_SIDH (RXB n) + of_nat (k + i))) [0..<m]" "chip_quiet (regs c) (regs c')"
proof -
  have a: "unat (rx_SIDH (RXB n) + of_nat k) + m \<le> 128"
  proof (cases "k = 13")
    case True
    then show ?thesis using k by (cases n) (simp_all add: RXB_def register_defs)
  next
    case False
    then have "unat (rx_SIDH (RXB n) + of_nat k) = unat (rx_SIDH (RXB n)) + k"
      using k rx_addresses(2) [of 0 n] by (intro address_offset [of _ 13]) simp_all
    then show ?thesis using k rx_addresses(2) [of 0 n] by simp
  qed
  note facts = chip_read [OF chip run a]
  show "chip_quiet (regs c) (regs c')" by (rule facts(1))
  show "vs = map (\<lambda>i. regs c (rx_SIDH (RXB n) + of_nat (k + i))) [0..<m]"
  proof (rule nth_equalityI)
    fix i assume "i < length vs"
    then have i: "i < m" "k + i < 13" using facts(2) k by simp_all
    have a: "rx_SIDH (RXB n) + of_nat k + of_nat i = rx_SIDH (RXB n) + of_nat (k + i)" by simp
    have "kept (regs c) (rx_SIDH (RXB n) + of_nat (k + i)) = 0xFF"
      using kept_rx [OF rx_addresses(1) [OF i(2), of n]] full by (simp only: if_True)
    then have "regs c (rx_SIDH (RXB n) + of_nat (k + i)) = vs ! i"
      using facts(3) [OF i(1)] unfolding a by (simp only: agree_FF)
    then show "vs ! i = map (\<lambda>i. regs c (rx_SIDH (RXB n) + of_nat (k + i))) [0..<m] ! i" using i by simp
  qed (simp add: facts(2))
qed

lemma rx_ctrl: "unat (rx_CTRL (RXB n)) < 128" "rx_IF (RXB n) \<noteq> 0"
    "rx_full r n \<Longrightarrow> RXBnCTRL_RTR AND kept r (rx_CTRL (RXB n)) = RXBnCTRL_RTR"
proof -
  show "unat (rx_CTRL (RXB n)) < 128" by (cases n) (simp_all add: RXB_def register_defs)
  show "rx_IF (RXB n) \<noteq> 0" by (cases n) (simp_all add: RXB_def CANINTF_RX0IF_def CANINTF_RX1IF_def)
  show "rx_full r n \<Longrightarrow> RXBnCTRL_RTR AND kept r (rx_CTRL (RXB n)) = RXBnCTRL_RTR"
    by (cases n) (simp_all add: RXB_def kept_regs RXBnCTRL_RTR_def)
qed

lemma run_readMessage_buffer:
  assumes "run_state (readRegisters d (rx_SIDH (RXB n)) 5) c = (tb, c1)"
    and "run_state (readRegister d (rx_CTRL (RXB n))) c1 = (ctrl, c2)"
    and "run_state (readRegisters d (rx_DATA (RXB n)) (unat (tb ! 4 AND DLC_MASK))) c2 = (data, c3)"
    and "run_state (modifyRegister d MCP_CANINTF (rx_IF (RXB n)) 0) c3 = ((), c4)"
  shows "run_state (readMessage_buffer d n g) c =
     (if tb ! 4 AND DLC_MASK > CAN_MAX_DLEN then ((ERROR_FAIL, g), c1)
      else ((ERROR_OK, \<lparr>can_id = (let i = read_id (tb ! 0) (tb ! 1) (tb ! 2) (tb ! 3)
                in if ctrl AND RXBnCTRL_RTR \<noteq> 0 then i OR CAN_RTR_FLAG else i),
              can_dlc = tb ! 4 AND DLC_MASK,
              can_data = data @ drop (unat (tb ! 4 AND DLC_MASK)) (can_data g)\<rparr>), c4))"
  using assms unfolding readMessage_buffer_def Let_def run_state_bind
  by (simp del: One_nat_def)

text \<open>Reading a full buffer: the frame in it, and its flag is cleared and no other.\<close>

lemma readMessage_full:
  assumes chip: "mcp_chip d regs us" and full: "rx_full (regs c) n" and dlc: "rx_dlc (regs c) n \<le> 8"
    and run: "run_state (readMessage_buffer d n g) c = (res, c')"
  shows "res = (ERROR_OK, rx_frame (regs c) n g)"
    "agree (regs c MCP_CANINTF AND NOT (rx_IF (RXB n))) (regs c MCP_CANINTF) (regs c' MCP_CANINTF)"
    "regs c' MCP_CANINTE = regs c MCP_CANINTE"
    "m \<noteq> n \<Longrightarrow> rx_full (regs c) m \<Longrightarrow>
       rx_full (regs c') m \<and> rx_dlc (regs c') m = rx_dlc (regs c) m \<and>
       (rx_dlc (regs c) m \<le> 8 \<longrightarrow> rx_frame (regs c') m g' = rx_frame (regs c) m g')"
proof -
  obtain tb c1 where r1: "run_state (readRegisters d (rx_SIDH (RXB n) + of_nat 0) 5) c = (tb, c1)" by (metis surj_pair)
  obtain ctrl c2 where r2: "run_state (readRegister d (rx_CTRL (RXB n))) c1 = (ctrl, c2)" by (metis surj_pair)
  define dl where "dl = unat (rx_dlc (regs c) n)"
  obtain data c3 where r3: "run_state (readRegisters d (rx_SIDH (RXB n) + of_nat 5) dl) c2 = (data, c3)"
    by (metis surj_pair)
  obtain c4 where r4: "run_state (modifyRegister d MCP_CANINTF (rx_IF (RXB n)) 0) c3 = ((), c4)"
    by (metis old.unit.exhaust surj_pair)
  let ?s = "rx_SIDH (RXB n)" and ?r = "regs c"
  have tb: "tb = map (\<lambda>i. ?r (?s + of_nat (0 + i))) [0..<5]" and q1: "chip_quiet ?r (regs c1)"
    using rx_read [OF chip full _ r1] by simp_all
  note q2 = chip_read1(1,2) [OF chip r2 rx_ctrl(1)]
  have q12: "chip_quiet ?r (regs c2)" using chip_quiet_trans [OF q1 q2(1)] .
  have dl: "5 + dl \<le> 13" using dlc by (simp add: dl_def word_le_nat_alt)
  have data: "data = map (\<lambda>i. regs c2 (?s + of_nat (5 + i))) [0..<dl]" and q3: "chip_quiet (regs c2) (regs c3)"
    using rx_read [OF chip rx_full_quiet [OF q12 full] dl r3] by auto
  have "regs c2 (?s + of_nat (5 + i)) = ?r (?s + of_nat (5 + i))" if "i < dl" for i
    using rx_quiet [OF q12 full, of "5 + i"] that dl by linarith
  then have data: "data = map (\<lambda>i. ?r (?s + 5 + of_nat i)) [0..<dl]"
    unfolding data by (auto simp: add.assoc)
  have q: "chip_quiet ?r (regs c3)" using chip_quiet_trans [OF q12 q3] .
  have tb_at: "tb ! 0 = ?r ?s" "tb ! 1 = ?r (?s + 1)" "tb ! 2 = ?r (?s + 2)" "tb ! 3 = ?r (?s + 3)"
    "tb ! 4 = ?r (?s + 4)" unfolding tb by (simp_all add: upt_conv_Cons)
  have rtr: "ctrl AND RXBnCTRL_RTR = ?r (rx_CTRL (RXB n)) AND RXBnCTRL_RTR"
    using agree_test [OF chip_quietD [OF q12] rx_ctrl(3) [OF full]] q2(2) by simp
  have not_long: "\<not> tb ! 4 AND DLC_MASK > CAN_MAX_DLEN" and tbd: "unat (tb ! 4 AND DLC_MASK) = dl"
    using dlc by (simp_all add: tb_at rx_dlc_def CAN_MAX_DLEN_def dl_def not_less)
  have "res = (ERROR_OK, rx_frame ?r n g) \<and> c' = c4"
  proof -
    have r1': "run_state (readRegisters d ?s 5) c = (tb, c1)" using r1 by simp
    have r3': "run_state (readRegisters d (rx_DATA (RXB n)) (unat (tb ! 4 AND DLC_MASK))) c2 = (data, c3)"
      using r3 rx_addresses(3) [of 0 n] by (simp add: tbd)
    show ?thesis
      using run unfolding run_readMessage_buffer [OF r1' r2 r3' r4] if_not_P [OF not_long]
      unfolding rtr tb_at by (simp add: data rx_frame_def Let_def rx_dlc_def dl_def [unfolded rx_dlc_def])
  qed
  then have c': "c' = c4" and res: "res = (ERROR_OK, rx_frame ?r n g)" by simp_all
  show "res = (ERROR_OK, rx_frame ?r n g)" by (rule res)
  note mods = chip_modify [OF chip r4]
  have in3: "agree (?r MCP_CANINTF) (?r MCP_CANINTF) (regs c3 MCP_CANINTF)"
    using chip_quietD [OF q, of MCP_CANINTF] by (simp add: kept_regs)
  have in4: "agree (regs c3 MCP_CANINTF AND NOT (rx_IF (RXB n))) (regs c3 MCP_CANINTF) (regs c4 MCP_CANINTF)"
    using mods(3) by (simp add: modifiable_def kept_regs)
  show "agree (?r MCP_CANINTF AND NOT (rx_IF (RXB n))) (?r MCP_CANINTF) (regs c' MCP_CANINTF)"
    using in3 in4 c' by (simp add: agree_bits bit_and_iff bit_not_iff)
  have "regs c4 MCP_CANINTE = regs c3 MCP_CANINTE"
    using mods(1) [of MCP_CANINTE] by (simp add: modifiable_def register_defs kept_static [unfolded register_defs])
  then show "regs c' MCP_CANINTE = ?r MCP_CANINTE"
    using chip_quietD [OF q, of MCP_CANINTE] c' by (simp add: kept_static)
  show "rx_full (regs c') m \<and> rx_dlc (regs c') m = rx_dlc ?r m \<and>
       (rx_dlc ?r m \<le> 8 \<longrightarrow> rx_frame (regs c') m g' = rx_frame ?r m g')"
    if m: "m \<noteq> n" "rx_full ?r m"
  proof -
    have full3: "rx_full (regs c3) m" using rx_full_quiet [OF q m(2)] .
    have other: "rx_IF (RXB m) AND NOT (rx_IF (RXB n)) = rx_IF (RXB m)"
      using m(1) by (cases m; cases n) (simp_all add: RXB_def CANINTF_RX0IF_def CANINTF_RX1IF_def)
    have full: "rx_full (regs c') m"
    proof -
      obtain k where k: "bit (regs c3 MCP_CANINTF AND rx_IF (RXB m)) k"
        using full3 bit_word_eqI [of "regs c3 MCP_CANINTF AND rx_IF (RXB m)" 0] unfolding rx_full_def by auto
      then have "bit (regs c4 MCP_CANINTF AND rx_IF (RXB m)) k"
      proof -
        have "bit (rx_IF (RXB m) AND NOT (rx_IF (RXB n))) k" using k unfolding other bit_and_iff by simp
        then have "bit (regs c3 MCP_CANINTF AND NOT (rx_IF (RXB n))) k" using k by (simp add: bit_and_iff)
        then show ?thesis using in4 k by (simp add: agree_bits bit_and_iff)
      qed
      then show ?thesis unfolding rx_full_def c' by auto
    qed
    have far: "agree (kept (regs c3) a) (regs c3 a) (regs c' a)" if "a \<noteq> MCP_CANINTF" for a
      using mods(1) [of a] that c' by (simp add: modifiable_def register_defs)
    have at: "regs c' (rx_SIDH (RXB m) + of_nat i) = ?r (rx_SIDH (RXB m) + of_nat i)" if "i < 13" for i
    proof -
      have "rx_SIDH (RXB m) + of_nat i \<noteq> MCP_CANINTF" using rx_area_apart(3) [OF rx_addresses(1) [OF that]] by blast
      then show ?thesis
        using far [of "rx_SIDH (RXB m) + of_nat i"] kept_rx [OF rx_addresses(1) [OF that, of m], of "regs c3"] full3
          rx_quiet [OF q m(2) that] by simp
    qed
    have "rx_CTRL (RXB m) \<noteq> MCP_CANINTF" by (cases m) (simp_all add: RXB_def register_defs)
    then have ctrl: "regs c' (rx_CTRL (RXB m)) AND RXBnCTRL_RTR = ?r (rx_CTRL (RXB m)) AND RXBnCTRL_RTR"
      using agree_test [OF far rx_ctrl(3) [OF full3]] agree_test [OF chip_quietD [OF q] rx_ctrl(3) [OF m(2)]] by simp
    have dlc: "rx_dlc (regs c') m = rx_dlc ?r m" using at [of 4] by (simp add: rx_dlc_def)
    have "map (\<lambda>k. regs c' (rx_SIDH (RXB m) + 5 + of_nat k)) [0..<unat (rx_dlc ?r m)] =
        map (\<lambda>k. ?r (rx_SIDH (RXB m) + 5 + of_nat k)) [0..<unat (rx_dlc ?r m)]" if "rx_dlc ?r m \<le> 8"
    proof (rule map_cong [OF refl])
      fix k assume "k \<in> set [0..<unat (rx_dlc ?r m)]"
      then have "5 + k < 13" using that by (simp add: word_le_nat_alt)
      then show "regs c' (rx_SIDH (RXB m) + 5 + of_nat k) = ?r (rx_SIDH (RXB m) + 5 + of_nat k)"
        using at [of "5 + k"] by (simp add: add.assoc)
    qed
    moreover have "regs c' (rx_SIDH (RXB m)) = ?r (rx_SIDH (RXB m))" using at [of 0] by simp
    moreover have "regs c' (rx_SIDH (RXB m) + 1) = ?r (rx_SIDH (RXB m) + 1)"
        "regs c' (rx_SIDH (RXB m) + 2) = ?r (rx_SIDH (RXB m) + 2)"
        "regs c' (rx_SIDH (RXB m) + 3) = ?r (rx_SIDH (RXB m) + 3)"
      using at [of 1] at [of 2] at [of 3] by simp_all
    ultimately show ?thesis using full dlc ctrl unfolding rx_frame_def Let_def by simp
  qed
qed

text \<open>A frame that announces more than eight bytes is refused: its flag stays set.\<close>

lemma readMessage_too_long:
  assumes chip: "mcp_chip d regs us" and full: "rx_full (regs c) n" and dlc: "rx_dlc (regs c) n > 8"
    and run: "run_state (readMessage_buffer d n g) c = (res, c')"
  shows "res = (ERROR_FAIL, g)" "chip_quiet (regs c) (regs c')"
proof -
  obtain tb c1 where r1: "run_state (readRegisters d (rx_SIDH (RXB n) + of_nat 0) 5) c = (tb, c1)" by (metis surj_pair)
  obtain ctrl c2 where r2: "run_state (readRegister d (rx_CTRL (RXB n))) c1 = (ctrl, c2)" by (metis surj_pair)
  obtain data c3 where r3: "run_state (readRegisters d (rx_DATA (RXB n)) (unat (tb ! 4 AND DLC_MASK))) c2 = (data, c3)"
    by (metis surj_pair)
  obtain c4 where r4: "run_state (modifyRegister d MCP_CANINTF (rx_IF (RXB n)) 0) c3 = ((), c4)"
    by (metis old.unit.exhaust surj_pair)
  have tb: "tb = map (\<lambda>i. regs c (rx_SIDH (RXB n) + of_nat (0 + i))) [0..<5]" and q1: "chip_quiet (regs c) (regs c1)"
    using rx_read [OF chip full _ r1] by simp_all
  have r1': "run_state (readRegisters d (rx_SIDH (RXB n)) 5) c = (tb, c1)" using r1 by simp
  have "tb ! 4 AND DLC_MASK > CAN_MAX_DLEN"
    using dlc unfolding tb by (simp add: upt_conv_Cons rx_dlc_def CAN_MAX_DLEN_def)
  then have "res = (ERROR_FAIL, g) \<and> c' = c1"
    using run unfolding run_readMessage_buffer [OF r1' r2 r3 r4] by simp
  then show "res = (ERROR_FAIL, g)" "chip_quiet (regs c) (regs c')" using q1 by simp_all
qed


subsection \<open>Across the bus\<close>

text \<open>
  What the bus and the receiving chip do with a transmit buffer: the receive buffer gets the identifier
  with its format bit (the low identifier bytes only in the extended format), the length and the data;
  the remote frame bit arrives in the control register, and the interrupt flag is set.
\<close>

definition delivered :: "regfile \<Rightarrow> TXBn \<Rightarrow> regfile \<Rightarrow> RXBn \<Rightarrow> bool" where
  "delivered rt b rr n \<longleftrightarrow>
     (let s = tx_SIDH (TXB b); q = rx_SIDH (RXB n) in
      rr q = rt s \<and> agree 0xEB (rt (s + 1)) (rr (q + 1)) \<and>
      (rt (s + 1) AND TXB_EXIDE_MASK \<noteq> 0 \<longrightarrow> rr (q + 2) = rt (s + 2) \<and> rr (q + 3) = rt (s + 3)) \<and>
      agree DLC_MASK (rt (s + 4)) (rr (q + 4)) \<and>
      (rr (rx_CTRL (RXB n)) AND RXBnCTRL_RTR \<noteq> 0 \<longleftrightarrow> rt (s + 4) AND RTR_MASK \<noteq> 0) \<and>
      (\<forall>k<unat (rt (s + 4) AND DLC_MASK). rr (q + 5 + of_nat k) = rt (s + 5 + of_nat k)) \<and>
      rx_full rr n)"

lemma small_dlc:
  assumes "x \<le> (8 :: u8)"
  shows "x AND DLC_MASK = x" "(x OR RTR_MASK) AND DLC_MASK = x" "x AND RTR_MASK = 0" "(x OR RTR_MASK) AND RTR_MASK \<noteq> 0"
proof -
  have "unat x \<le> 8" using assms by (simp add: word_le_nat_alt)
  then have "unat x = 0 \<or> unat x = 1 \<or> unat x = 2 \<or> unat x = 3 \<or> unat x = 4 \<or> unat x = 5 \<or> unat x = 6 \<or>
      unat x = 7 \<or> unat x = 8" by linarith
  then have "x = 0 \<or> x = 1 \<or> x = 2 \<or> x = 3 \<or> x = 4 \<or> x = 5 \<or> x = 6 \<or> x = 7 \<or> x = 8"
    by (simp add: word_unat_eq_iff)
  then show "x AND DLC_MASK = x" "(x OR RTR_MASK) AND DLC_MASK = x" "x AND RTR_MASK = 0" "(x OR RTR_MASK) AND RTR_MASK \<noteq> 0"
    by (auto simp: DLC_MASK_def RTR_MASK_def)
qed

lemma implemented_tx:
  "implemented (tx_SIDH (TXB b)) = 0xFF" "implemented (tx_SIDH (TXB b) + 1) = 0xEB"
  "implemented (tx_SIDH (TXB b) + 2) = 0xFF" "implemented (tx_SIDH (TXB b) + 3) = 0xFF"
  "implemented (tx_SIDH (TXB b) + 4) = 0x4F"
  by (cases b; simp add: implemented_def TXB_def register_defs)+

lemma implemented_tx_data:
  assumes "k < 8"
  shows "implemented (tx_SIDH (TXB b) + 5 + of_nat k) = 0xFF"
proof -
  have a: "unat (tx_SIDH (TXB b) + 5 + of_nat k) = unat (tx_SIDH (TXB b)) + (5 + k)"
    using tx_addresses(3) [of "5 + k" b] assms by (simp add: add.assoc)
  have "tx_SIDH (TXB b) + 5 + of_nat k \<noteq> x"
    if "unat x \<noteq> unat (tx_SIDH (TXB b)) + (5 + k)" for x
    using a that by auto
  then show ?thesis
    using assms by (cases b) (simp_all add: implemented_def TXB_def register_defs)
qed


text \<open>The bytes a transmit buffer with a frame holds.\<close>

lemma holds_frame_bytes:
  assumes "holds_frame t b f" "frame_ok f" "can_dlc f \<le> 8"
  defines "s \<equiv> tx_SIDH (TXB b)" and "ext \<equiv> can_id f AND CAN_EFF_FLAG \<noteq> 0"
  defines "p \<equiv> prepareId ext (can_id f AND (if ext then CAN_EFF_MASK else CAN_SFF_MASK))"
  shows "t s = p ! 0" "agree 0xEB (p ! 1) (t (s + 1))" "t (s + 2) = p ! 2" "t (s + 3) = p ! 3"
    "t (s + 4) AND DLC_MASK = can_dlc f"
    "t (s + 4) AND RTR_MASK \<noteq> 0 \<longleftrightarrow> can_id f AND CAN_RTR_FLAG \<noteq> 0"
    "k < unat (can_dlc f) \<Longrightarrow> t (s + 5 + of_nat k) = can_data f ! k"
proof -
  have len: "length (tx_image f) = 5 + unat (can_dlc f)" by (rule length_tx_image [OF assms(2,3)])
  have image: "tx_image f = p @ [if can_id f AND CAN_RTR_FLAG \<noteq> 0 then can_dlc f OR RTR_MASK else can_dlc f] @
      take (unat (can_dlc f)) (can_data f)"
    by (simp add: tx_image_def Let_def p_def ext_def)
  have p4: "length p = 4" by (simp add: p_def)
  have at: "agree (implemented (s + of_nat i)) (tx_image f ! i) (t (s + of_nat i))" if "i < 5 + unat (can_dlc f)" for i
    using assms(1) that unfolding holds_frame_def len s_def by blast
  have low: "tx_image f ! i = p ! i" if "i < 4" for i using that p4 by (simp add: image nth_append)
  show "t s = p ! 0" using at [of 0] low [of 0] by (simp add: s_def implemented_tx)
  show "agree 0xEB (p ! 1) (t (s + 1))"
    using at [of 1] low [of 1] by (simp add: s_def implemented_tx del: One_nat_def)
  show "t (s + 2) = p ! 2" using at [of 2] low [of 2] by (simp add: s_def implemented_tx)
  show "t (s + 3) = p ! 3" using at [of 3] low [of 3] by (simp add: s_def implemented_tx)
  have d: "agree 0x4F (if can_id f AND CAN_RTR_FLAG \<noteq> 0 then can_dlc f OR RTR_MASK else can_dlc f) (t (s + 4))"
    using at [of 4] p4 by (simp add: s_def implemented_tx image nth_append)
  show "t (s + 4) AND DLC_MASK = can_dlc f"
    using agree_test [OF d, of DLC_MASK] small_dlc [OF assms(3)] by (simp add: DLC_MASK_def split: if_splits)
  show "t (s + 4) AND RTR_MASK \<noteq> 0 \<longleftrightarrow> can_id f AND CAN_RTR_FLAG \<noteq> 0"
    using agree_test [OF d, of RTR_MASK] small_dlc [OF assms(3)] by (simp add: RTR_MASK_def split: if_splits)
  show "t (s + 5 + of_nat k) = can_data f ! k" if k: "k < unat (can_dlc f)"
  proof -
    have "tx_image f ! (5 + k) = can_data f ! k" using k p4 by (simp add: image nth_append)
    moreover have "k < 8" using k assms(3) by (simp add: word_le_nat_alt)
    ultimately show ?thesis
      using at [of "5 + k"] k implemented_tx_data [of k b] by (simp add: s_def add.assoc)
  qed
qed

lemma rx_frame_delivered:
  assumes held: "holds_frame t b f" and f: "frame_ok f" "can_dlc f \<le> 8" and del: "delivered t b r n"
  shows "rx_frame r n g = \<lparr>can_id = wire_id (can_id f), can_dlc = can_dlc f,
     can_data = take (unat (can_dlc f)) (can_data f) @ drop (unat (can_dlc f)) (can_data g)\<rparr>"
    "rx_dlc r n = can_dlc f"
proof -
  define s q where "s = tx_SIDH (TXB b)" and "q = rx_SIDH (RXB n)"
  note bytes = holds_frame_bytes [OF held f, folded s_def]
  note d = del [unfolded delivered_def Let_def, folded s_def q_def]
  show dlc: "rx_dlc r n = can_dlc f"
    using d bytes(5) by (simp add: rx_dlc_def q_def agree_def)
  have rtr: "r (rx_CTRL (RXB n)) AND RXBnCTRL_RTR \<noteq> 0 \<longleftrightarrow> can_id f AND CAN_RTR_FLAG \<noteq> 0"
    using d bytes(6) by blast
  have "map (\<lambda>k. r (q + 5 + of_nat k)) [0..<unat (can_dlc f)] = take (unat (can_dlc f)) (can_data f)"
  proof (rule nth_equalityI)
    have "unat (can_dlc f) \<le> length (can_data f)" using f by (simp add: frame_ok_def word_le_nat_alt)
    then show "length (map (\<lambda>k. r (q + 5 + of_nat k)) [0..<unat (can_dlc f)]) = length (take (unat (can_dlc f)) (can_data f))"
      by simp
    fix k assume "k < length (map (\<lambda>k. r (q + 5 + of_nat k)) [0..<unat (can_dlc f)])"
    then show "map (\<lambda>k. r (q + 5 + of_nat k)) [0..<unat (can_dlc f)] ! k = take (unat (can_dlc f)) (can_data f) ! k"
      using d bytes(5) bytes(7) [of k] by simp
  qed
  moreover have "read_id (r q) (r (q + 1)) (r (q + 2)) (r (q + 3)) =
     (if can_id f AND CAN_EFF_FLAG \<noteq> 0 then (can_id f AND CAN_EFF_MASK) OR CAN_EFF_FLAG else can_id f AND CAN_SFF_MASK)"
  proof (cases "can_id f AND CAN_EFF_FLAG \<noteq> 0")
    case True
    let ?p = "prepareId True (can_id f AND CAN_EFF_MASK)"
    have t1: "agree 0xEB (?p ! 1) (t (s + 1))" using bytes(2) True by simp
    have "bit (0xEB :: u8) 3" by (simp add: bit_iff_odd)
    then have "bit (t (s + 1)) 3" using t1 bit_prepareId(2) [of "can_id f AND CAN_EFF_MASK" 3] by (auto simp: agree_bits)
    then have "r (q + 2) = ?p ! 2" "r (q + 3) = ?p ! 3" using d bytes(3,4) True by (simp_all add: exide_bit)
    moreover have "r q = ?p ! 0" using d bytes(1) True by simp
    moreover have "agree 0xEB (?p ! 1) (r (q + 1))" using agree_trans [OF t1] d by blast
    ultimately show ?thesis
      using read_id_extended [of "can_id f AND CAN_EFF_MASK" "r (q + 1)"] True by (simp add: and.assoc)
  next
    case False
    let ?p = "prepareId False (can_id f AND CAN_SFF_MASK)"
    have "agree 0xEB (?p ! 1) (t (s + 1))" using bytes(2) False by simp
    then have "agree 0xEB (?p ! 1) (r (q + 1))" using agree_trans d by blast
    moreover have "r q = ?p ! 0" using d bytes(1) False by simp
    ultimately show ?thesis
      using read_id_standard [of "can_id f AND CAN_SFF_MASK" "r (q + 1)"] False by (simp add: and.assoc)
  qed
  moreover have "i OR CAN_RTR_FLAG = i OR (can_id f AND CAN_RTR_FLAG)" if "can_id f AND CAN_RTR_FLAG \<noteq> 0" for i
  proof -
    have one: "bit CAN_RTR_FLAG k \<longleftrightarrow> k = 30" for k
    proof -
      have e: "CAN_RTR_FLAG = 2 ^ 30" by (simp add: CAN_RTR_FLAG_def)
      show ?thesis unfolding e bit_exp_iff by auto
    qed
    have "can_id f AND CAN_RTR_FLAG = (if bit (can_id f) 30 then CAN_RTR_FLAG else 0)"
      by (rule bit_word_eqI) (auto simp: bit_and_iff one)
    then show ?thesis using that by (simp split: if_splits)
  qed
  ultimately show "rx_frame r n g = \<lparr>can_id = wire_id (can_id f), can_dlc = can_dlc f,
     can_data = take (unat (can_dlc f)) (can_data f) @ drop (unat (can_dlc f)) (can_data g)\<rparr>"
    unfolding rx_frame_def Let_def dlc wire_id_def rtr q_def [symmetric] by simp
qed


lemma wire_id_message: "wire_id (canMessageId src dest t) = canMessageId src dest t"
proof -
  have flags: "bit CAN_EFF_FLAG k \<longleftrightarrow> k = 31" "bit CAN_RTR_FLAG k \<longleftrightarrow> k = 30" for k
  proof -
    have e: "CAN_EFF_FLAG = 2 ^ 31" "CAN_RTR_FLAG = 2 ^ 30" by (simp_all add: CAN_EFF_FLAG_def CAN_RTR_FLAG_def)
    show "bit CAN_EFF_FLAG k \<longleftrightarrow> k = 31" "bit CAN_RTR_FLAG k \<longleftrightarrow> k = 30" unfolding e bit_exp_iff by auto
  qed
  have m: "bit CAN_EFF_MASK k \<longleftrightarrow> k < 29" for k
    by (simp add: CAN_EFF_MASK_def mask_numerals bit_mask_iff, auto)
  have i: "bit (canMessageId src dest t) k \<longleftrightarrow>
      (16 \<le> k \<and> k < 24 \<and> bit dest (k - 16)) \<or> (8 \<le> k \<and> k < 16 \<and> bit src (k - 8)) \<or> bit t k \<or> k = 31" for k
    by (auto simp: canMessageId_def flags bit_simps dest: bit_u8_less)
  have "bit (canMessageId src dest t AND CAN_EFF_FLAG) 31" by (simp add: bit_and_iff flags i)
  then have ext: "canMessageId src dest t AND CAN_EFF_FLAG \<noteq> 0" by auto
  show ?thesis
    unfolding wire_id_def if_P [OF ext]
    by (rule bit_word_eqI) (auto simp: bit_and_iff bit_or_iff flags m i dest: bit_u8_less)
qed

text \<open>C11. A frame crosses the bus unchanged. If a chip was given a well-formed frame by \<open>sendMessage\<close> in a
  free buffer, and the bus delivers that buffer into a receive buffer of another chip, then
  \<open>readMessage\<close> there reports success and returns the length and the data that were sent, and the
  identifier in the bits its format has room for. For the identifiers the nodes use these are all the bits.\<close>

theorem frame_crosses_bus:
  assumes "mcp_chip d regs us" "mcp_chip d' regs' us'" "frame_ok f" "can_dlc f \<le> 8"
    and "tx_idle (regs c) b" "run_state (sendMessage_buffer d b f) c = (sent, c1)"
    and "delivered (regs c1) b (regs' e) n"
    and "run_state (readMessage_buffer d' n g) e = (got, e1)"
  shows "sent \<in> {ERROR_OK, ERROR_FAILTX} \<and>
     got = (ERROR_OK, \<lparr>can_id = wire_id (can_id f), can_dlc = can_dlc f,
       can_data = take (unat (can_dlc f)) (can_data f) @ drop (unat (can_dlc f)) (can_data g)\<rparr>) \<and>
     (\<forall>src dest t. wire_id (canMessageId src dest t) = canMessageId src dest t)"
proof -
  note sent = sendMessage_buffer_holds(1,2) [OF assms(1,3,4,5,6)]
  note frame = rx_frame_delivered [OF sent(1) assms(3,4,7)]
  have "rx_full (regs' e) n" using assms(7) by (simp add: delivered_def Let_def)
  then show ?thesis
    using readMessage_full(1) [OF assms(2) _ _ assms(8)] frame sent(2) assms(4) wire_id_message by auto
qed

definition empty_frame :: can_frame where
  "empty_frame = \<lparr>can_id = 0, can_dlc = 0, can_data = [0, 0, 0, 0, 0, 0, 0, 0]\<rparr>"

text \<open>A bus between two memory chips: transmit buffer 0 of one into receive buffer 0 of another.\<close>

definition mem_deliver :: "mem_chip \<Rightarrow> mem_chip" where
  "mem_deliver c = \<lparr>m_phase = Deselected,
     m_regs = (\<lambda>a. if 0x61 \<le> unat a \<and> unat a < 0x6E then m_regs c (a - 0x30)
       else if a = MCP_CANINTF then 1
       else if a = MCP_RXB0CTRL then (if m_regs c 0x35 AND RTR_MASK \<noteq> 0 then 8 else 0)
       else m_default a), m_us = m_us c\<rparr>"

lemma mem_delivered:
  assumes "unat (m_regs c 0x35 AND DLC_MASK) \<le> 8"
  shows "delivered (m_regs c) TXB0 (m_regs (mem_deliver c)) RXB0"
proof -
  have copy: "m_regs (mem_deliver c) (0x61 + of_nat k) = m_regs c (0x31 + of_nat k)" if "k < 13" for k
  proof -
    have "unat (0x61 + of_nat k :: u8) = 0x61 + k" using that address_offset [of "0x61" 13 k] by simp
    moreover have "(0x61 + of_nat k :: u8) - 0x30 = 0x31 + of_nat k" by simp
    ultimately show ?thesis using that by (simp add: mem_deliver_def)
  qed
  have data: "m_regs (mem_deliver c) (0x66 + of_nat k) = m_regs c (0x36 + of_nat k)" if "k < 8" for k
    using copy [of "5 + k"] that by (simp add: add.assoc [symmetric])
  have ctrl: "m_regs (mem_deliver c) 0x60 AND RXBnCTRL_RTR \<noteq> 0 \<longleftrightarrow> m_regs c 0x35 AND RTR_MASK \<noteq> 0"
    by (simp add: mem_deliver_def register_defs RXBnCTRL_RTR_def m_default_def)
  have "rx_full (m_regs (mem_deliver c)) RXB0"
    by (simp add: rx_full_def mem_deliver_def register_defs RXB_def CANINTF_RX0IF_def)
  then show ?thesis
    using copy [of 0] copy [of 1] copy [of 2] copy [of 3] copy [of 4] data assms ctrl
    by (simp add: delivered_def Let_def TXB_def RXB_def register_defs)
qed

theorem frame_crosses_bus_witness:
  "fst (run_state (readMessage_buffer mem_spi RXB0 empty_frame)
      (mem_deliver (snd (run_state (sendMessage_buffer mem_spi TXB0 frame_example) mem_boot)))) =
   (ERROR_OK, \<lparr>can_id = wire_id 0x80030108, can_dlc = 2, can_data = [1, 2, 0, 0, 0, 0, 0, 0]\<rparr>)"
proof -
  obtain sent c1 where s: "run_state (sendMessage_buffer mem_spi TXB0 frame_example) mem_boot = (sent, c1)"
    by (metis surj_pair)
  obtain got e1 where r: "run_state (readMessage_buffer mem_spi RXB0 empty_frame) (mem_deliver c1) = (got, e1)"
    by (metis surj_pair)
  have f: "frame_ok frame_example" "can_dlc frame_example \<le> 8" by (simp_all add: frame_ok_def frame_example_def)
  have idle: "tx_idle (m_regs mem_boot) TXB0"
    by (simp add: tx_idle_def mem_boot_def m_default_def TXB_def register_defs)
  have "m_regs c1 0x35 AND DLC_MASK = 2"
    using holds_frame_bytes(5) [OF sendMessage_buffer_holds(1) [OF mem_is_chip f idle s] f]
    by (simp add: TXB_def register_defs frame_example_def)
  then have "delivered (m_regs c1) TXB0 (m_regs (mem_deliver c1)) RXB0" by (intro mem_delivered) simp
  from frame_crosses_bus [OF mem_is_chip mem_is_chip f idle s this r] show ?thesis
    unfolding s snd_conv r fst_conv by (simp add: frame_example_def empty_frame_def)
qed

end
