(* ===== verification/Duty_Wire.thy ===== *)
theory Duty_Wire
  imports Can_Send
begin

text \<open>
  The exchange of the consensus vector in \<open>communication.cpp\<close>: duty cycles as 16 bit integers in steps of
  300/32767, three per frame, the frame number in byte 6. \<open>sendConsensusDutyCycle\<close> is the sender,
  \<open>consensus_frame\<close> the \<open>CAN_CONSENSUS\<close> branch of \<open>received\<close>; \<open>n\<close> is \<open>numTotalNodes\<close>.
\<close>

subsection \<open>One value\<close>

definition duty_encode :: "f32 \<Rightarrow> u16 option" where
  "duty_encode v = do {
     r \<leftarrow> round_macro (v * f_int 32767 / f_int 300);
     Some (word_of_int r)
   }"

definition duty_high :: "u16 \<Rightarrow> u8" where
  "duty_high aux = ucast (signed_drop_bit 8 aux AND 0xFF)"

definition duty_low :: "u16 \<Rightarrow> u8" where
  "duty_low aux = ucast (aux AND 0xFF)"

definition duty_decode :: "u8 \<Rightarrow> u8 \<Rightarrow> f32" where
  "duty_decode hi lo =
     (let aux = push_bit 8 (ucast hi) OR ucast lo :: u16
      in f_int (sint aux) * f_int 300 / f_int 32767)"

lemma mask16: "w AND 0xFF = take_bit 8 (w :: u16)"
  by (simp add: take_bit_eq_mask mask_eq_exp_minus_1)

lemma duty_bytes_word [wire_simps]:
  "(push_bit 8 (ucast (duty_high aux)) OR ucast (duty_low aux) :: u16) = aux"
  unfolding duty_high_def duty_low_def mask16
  by (rule bit_word_eqI) (auto simp: bit_simps not_less)

lemma duty_decode_bytes:
  "duty_decode (duty_high aux) (duty_low aux) = f_int (sint aux) * f_int 300 / f_int 32767"
  by (simp add: duty_decode_def duty_bytes_word)

subsection \<open>The vector\<close>

text \<open>The inner loop of the sender over \<open>i\<close>, with its \<open>break\<close>.\<close>

fun fill_triple :: "nat \<Rightarrow> nat \<Rightarrow> nat list \<Rightarrow> f32 list \<Rightarrow> u8 list \<Rightarrow> u8 list option" where
  "fill_triple n msgI [] val data = Some data"
| "fill_triple n msgI (i # js) val data =
     (if n \<le> msgI * 3 + i then Some data
      else do {
        v \<leftarrow> aget val (msgI * 3 + i);
        aux \<leftarrow> duty_encode v;
        fill_triple n msgI js val (data[i * 2 := duty_high aux, i * 2 + 1 := duty_low aux])
      })"

fun send_vector :: "driver \<Rightarrow> nat \<Rightarrow> nat list \<Rightarrow> f32 list \<Rightarrow> io \<Rightarrow> io option" where
  "send_vector drv n [] val s = Some s"
| "send_vector drv n (msgI # ms) val s = do {
     data \<leftarrow> fill_triple n msgI [0, 1, 2] val (can_data (sendingFrame s));
     send_vector drv n ms val (sendFrame drv
       (s\<lparr>sendingFrame := (sendingFrame s)\<lparr>can_data := data[6 := of_nat msgI]\<rparr>\<rparr>))
   }"

definition vector_messages :: "nat \<Rightarrow> nat" where
  "vector_messages n = (n - 1) div 3 + 1"

definition sendConsensusDutyCycle :: "driver \<Rightarrow> u8 \<Rightarrow> nat \<Rightarrow> f32 list \<Rightarrow> io \<Rightarrow> io option" where
  "sendConsensusDutyCycle drv nodeId n val s =
     send_vector drv n [0..<vector_messages n] val
       (s\<lparr>sendingFrame := (sendingFrame s)\<lparr>can_id := canMessageId nodeId 0 CAN_CONSENSUS,
          can_dlc := 7\<rparr>\<rparr>)"

text \<open>The receiver: the position is a \<open>uint8_t\<close>, and the test is \<open>posInVector <= numTotalNodes\<close>.\<close>

fun add_triple :: "nat \<Rightarrow> u8 \<Rightarrow> nat list \<Rightarrow> u8 list \<Rightarrow> f32 list \<Rightarrow> f32 list option" where
  "add_triple n msgI [] data recv = Some recv"
| "add_triple n msgI (i # js) data recv =
     (let posInVector = unat (msgI * 3 + of_nat i)
      in if posInVector \<le> n
         then do {
           old \<leftarrow> aget recv posInVector;
           recv \<leftarrow> aset recv posInVector (old + duty_decode (data ! (i * 2)) (data ! (i * 2 + 1)));
           add_triple n msgI js data recv
         }
         else add_triple n msgI js data recv)"

definition consensus_frame :: "nat \<Rightarrow> can_frame \<Rightarrow> f32 list \<Rightarrow> f32 list option" where
  "consensus_frame n f recv = add_triple n (can_data f ! 6) [0, 1, 2] (can_data f) recv"

fun consensus_frames :: "nat \<Rightarrow> can_frame list \<Rightarrow> f32 list \<Rightarrow> f32 list option" where
  "consensus_frames n [] recv = Some recv"
| "consensus_frames n (f # fs) recv = do { recv \<leftarrow> consensus_frame n f recv; consensus_frames n fs recv }"

text \<open>The frames in a log.\<close>

definition sent_frames :: "effect list \<Rightarrow> can_frame list" where
  "sent_frames es = concat (map (\<lambda>e. case e of CanTx f \<Rightarrow> [f] | _ \<Rightarrow> []) es)"

lemma sent_frames_simps [simp]:
  "sent_frames [] = []" "sent_frames (es @ es') = sent_frames es @ sent_frames es'"
  "sent_frames (CanTx f # es) = f # sent_frames es"
  by (simp_all add: sent_frames_def)

lemma sendFrame_simps [simp]:
  "sendingFrame (sendFrame drv s) = sendingFrame s"
  "sent_frames (log (sendFrame drv s)) = sent_frames (log s) @ [sendingFrame s]"
  by (simp_all add: sendFrame_def emit_def Let_def sent_frames_def)

subsection \<open>The value sent and the value received\<close>

lemma f_trunc_floor: "f_trunc x = (if 0 \<le> fval x then \<lfloor>fval x\<rfloor> else - \<lfloor>- fval x\<rfloor>)"
proof -
  have fl: "\<lfloor>real_of_int k / 2 ^ 149\<rfloor> = k div 2 ^ 149" for k :: int
    using floor_divide_of_int_eq [of k "2 ^ 149", where 'a = real] by simp
  have sgn: "0 \<le> fval x \<longleftrightarrow> 0 \<le> fint x" by (simp add: fval_def zero_le_divide_iff)
  show ?thesis
  proof (cases "0 \<le> fint x")
    case True
    then show ?thesis using sgn fl [of "fint x"] by (auto simp: f_trunc_def fval_def sgn_if)
  next
    case False
    then show ?thesis using sgn fl [of "- fint x"] by (simp add: f_trunc_def fval_def sgn_if)
  qed
qed

lemma round_macro_near:
  assumes "is_fin x" "\<bar>fval x\<bar> \<le> 32767 + 1 / 100"
  shows "\<exists>r. round_macro x = Some r \<and> \<bar>r\<bar> \<le> 32767 \<and> \<bar>real_of_int r - fval x\<bar> \<le> 51 / 100"
proof -
  have half: "f_dec 5 10 = F32 0x3F000000" by (simp add: f_eval)
  have hv: "is_fin (F32 0x3F000000)" "fval (F32 0x3F000000) = 1 / 2"
    by (simp_all add: f_eval fval_def)
  have zero: "is_fin (f_int 0)" "fval (f_int 0) = 0" using f_int_facts [of 0] by simp_all
  have z: "(0 :: f32) = F32 0" "f_int 0 = F32 0" by (simp_all add: f_eval)
  have sgn: "0 \<le> x \<longleftrightarrow> 0 \<le> fval x" using assms(1) zero by (simp add: z f_le_fval)
  define y where "y = (if 0 \<le> x then x + f_dec 5 10 else x - f_dec 5 10)"
  have y: "is_fin y" "0 \<le> fval x \<Longrightarrow> \<bar>fval y - (fval x + 1 / 2)\<bar> \<le> 1 / 500"
    "\<not> 0 \<le> fval x \<Longrightarrow> \<bar>fval y - (fval x - 1 / 2)\<bar> \<le> 1 / 500"
    using f_add_approx [of x "F32 0x3F000000" 32768] f_diff_approx [of x "F32 0x3F000000" 32768] assms hv
    by (auto simp: y_def half sgn)
  have small: "fval x - 1 / 2 + 1 / 500 < 0" if "\<not> 0 \<le> fval x" using that by simp
  have r: "\<bar>f_trunc y\<bar> \<le> 32767 \<and> \<bar>real_of_int (f_trunc y) - fval x\<bar> \<le> 51 / 100"
  proof (cases "0 \<le> fval x")
    case True
    then have pos: "0 \<le> fval y" using y(2) by linarith
    then have t: "f_trunc y = \<lfloor>fval y\<rfloor>" by (simp add: f_trunc_floor)
    show ?thesis unfolding t using True y(2) pos assms(2) by linarith
  next
    case False
    then have neg: "\<not> 0 \<le> fval y" using y(3) small by linarith
    then have t: "f_trunc y = - \<lfloor>- fval y\<rfloor>" by (simp add: f_trunc_floor)
    show ?thesis unfolding t using False y(3) neg assms(2) by linarith
  qed
  then have "round_macro x = Some (f_trunc y)"
    using y(1) by (auto simp: round_macro_def f_to_int_def y_def [symmetric])
  then show ?thesis using r by blast
qed

lemma duty_encode_near:
  assumes "is_fin v" "\<bar>fval v\<bar> \<le> 300"
  shows "\<exists>r. duty_encode v = Some (word_of_int r) \<and> \<bar>r\<bar> \<le> 32767 \<and>
     \<bar>real_of_int r - fval v * 32767 / 300\<bar> \<le> 52 / 100"
proof -
  have c: "is_fin (f_int 32767)" "fval (f_int 32767) = 32767" "is_fin (f_int 300)" "fval (f_int 300) = 300"
    using f_int_facts [of 32767] f_int_facts [of 300] by simp_all
  have b: "\<bar>fval v * 32767\<bar> \<le> 9830100" using assms(2) by (simp add: abs_mult)
  have p: "is_fin (v * f_int 32767)" "\<bar>fval (v * f_int 32767) - fval v * 32767\<bar> \<le> 6 / 10"
    using f_mult_approx [OF assms(1) c(1), of 9830100] b by (simp_all add: c)
  have pb: "\<bar>fval (v * f_int 32767) / 300\<bar> \<le> 32768" using p(2) b by linarith
  have q: "is_fin (v * f_int 32767 / f_int 300)"
    "\<bar>fval (v * f_int 32767 / f_int 300) - fval (v * f_int 32767) / 300\<bar> \<le> 1 / 500"
    using f_divide_approx [OF p(1) c(3), of 32768] pb by (simp_all add: c)
  have "\<bar>fval (v * f_int 32767 / f_int 300) - fval v * 32767 / 300\<bar> \<le> 1 / 200"
    using p(2) q(2) by linarith
  moreover from this have "\<bar>fval (v * f_int 32767 / f_int 300)\<bar> \<le> 32767 + 1 / 100" using b by linarith
  then obtain r where "round_macro (v * f_int 32767 / f_int 300) = Some r" "\<bar>r\<bar> \<le> 32767"
    "\<bar>real_of_int r - fval (v * f_int 32767 / f_int 300)\<bar> \<le> 51 / 100"
    using round_macro_near [OF q(1)] by blast
  moreover have "\<bar>real_of_int r - fval v * 32767 / 300\<bar> \<le> 52 / 100"
    using calculation by linarith
  ultimately show ?thesis by (auto simp: duty_encode_def)
qed

lemma sint_of_i16: "\<bar>r\<bar> \<le> 32767 \<Longrightarrow> sint (word_of_int r :: u16) = r"
  by (simp add: sint_sbintrunc' signed_take_bit_int_eq_self abs_le_iff)

lemma duty_decode_near:
  assumes "\<bar>r\<bar> \<le> 32767"
  defines "aux \<equiv> word_of_int r :: u16"
  shows "is_fin (duty_decode (duty_high aux) (duty_low aux)) \<and>
     \<bar>fval (duty_decode (duty_high aux) (duty_low aux)) - real_of_int r * 300 / 32767\<bar> \<le> 1 / 10000"
proof -
  have c: "is_fin (f_int 32767)" "fval (f_int 32767) = 32767" "is_fin (f_int 300)" "fval (f_int 300) = 300"
    "is_fin (f_int r)" "fval (f_int r) = r"
    using f_int_facts [of 32767] f_int_facts [of 300] f_int_facts [of r] assms(1) by simp_all
  have b: "\<bar>real_of_int r\<bar> \<le> 32767" using assms(1) by linarith
  have p: "is_fin (f_int r * f_int 300)" "\<bar>fval (f_int r * f_int 300) - r * 300\<bar> \<le> 6 / 10"
    using f_mult_approx [OF c(5,3), of 9830100] b by (simp_all add: c abs_mult)
  have pb: "\<bar>fval (f_int r * f_int 300) / 32767\<bar> \<le> 301" using p(2) b by linarith
  have q: "is_fin (f_int r * f_int 300 / f_int 32767)"
    "\<bar>fval (f_int r * f_int 300 / f_int 32767) - fval (f_int r * f_int 300) / 32767\<bar> \<le> 1 / 50000"
    using f_divide_approx [OF p(1) c(1), of 301] pb by (simp_all add: c)
  have "\<bar>fval (f_int r * f_int 300 / f_int 32767) - r * 300 / 32767\<bar> \<le> 1 / 10000"
    using p(2) q(2) by linarith
  then show ?thesis
    using q(1) by (simp add: duty_decode_bytes aux_def sint_of_i16 [OF assms(1)])
qed

text \<open>C10. A duty cycle of at most 300 percent in magnitude is always encoded, and what the peer adds
  to its accumulator differs from it by at most 0.005.\<close>

theorem duty_transfer_error:
  assumes "is_fin v" "\<bar>fval v\<bar> \<le> 300"
  shows "\<exists>aux. duty_encode v = Some aux \<and>
     \<bar>fval (duty_decode (duty_high aux) (duty_low aux)) - fval v\<bar> \<le> 1 / 200"
proof -
  obtain r where r: "duty_encode v = Some (word_of_int r)" "\<bar>r\<bar> \<le> 32767"
    "\<bar>real_of_int r - fval v * 32767 / 300\<bar> \<le> 52 / 100"
    using duty_encode_near [OF assms] by blast
  have "\<bar>fval (duty_decode (duty_high (word_of_int r)) (duty_low (word_of_int r))) - fval v\<bar> \<le> 1 / 200"
    using r(3) duty_decode_near [OF r(2)] by linarith
  then show ?thesis using r(1) by blast
qed

theorem duty_transfer_error_witness:
  "\<exists>aux. duty_encode (f_int 100) = Some aux \<and>
     \<bar>fval (duty_decode (duty_high aux) (duty_low aux)) - 100\<bar> \<le> 1 / 200"
  using duty_transfer_error [of "f_int 100"] f_int_facts [of 100] by simp

subsection \<open>The vector sent and the vector received\<close>

definition transferred :: "f32 \<Rightarrow> f32 \<Rightarrow> f32 \<Rightarrow> bool" where
  "transferred v old new \<longleftrightarrow>
     (\<exists>aux. duty_encode v = Some aux \<and> new = old + duty_decode (duty_high aux) (duty_low aux))"

lemma length_fill_triple:
  "fill_triple n m js val data = Some data' \<Longrightarrow> length data' = length data"
  by (induction n m js val data arbitrary: data' rule: fill_triple.induct)
    (auto simp: bind_eq_Some_conv split: if_splits)

lemma less_3_cases: "i < 3 \<Longrightarrow> i = 0 \<or> i = 1 \<or> i = (2 :: nat)"
  by linarith

text \<open>Message \<open>m\<close> carries the values of the positions \<open>3 m\<close>, \<open>3 m + 1\<close> and \<open>3 m + 2\<close> below \<open>n\<close>.\<close>

lemma fill_triple_bytes:
  assumes "fill_triple n m [0, 1, 2] val data = Some data'" "length data = 8" "i < 3" "m * 3 + i < n"
  shows "\<exists>aux. duty_encode (val ! (m * 3 + i)) = Some aux \<and>
     data' ! (i * 2) = duty_high aux \<and> data' ! (i * 2 + 1) = duty_low aux"
  using less_3_cases [OF assms(3)] assms(1,2,4)
  by (elim disjE) (auto simp: bind_eq_Some_conv aget_Some_iff split: if_splits)

lemma message_position: "m \<le> 1 \<Longrightarrow> i < 3 \<Longrightarrow> unat (of_nat m * 3 + of_nat i :: u8) = m * 3 + i"
  by (auto simp: le_Suc_eq dest!: less_3_cases)

lemma add_triple_total:
  assumes "m \<le> 1" "n \<le> 6" "length recv = 7"
  shows "\<exists>recv'. add_triple n (of_nat m) [0, 1, 2] data recv = Some recv' \<and> length recv' = 7 \<and>
     (\<forall>j < n. recv' ! j = (if j div 3 = m
        then recv ! j + duty_decode (data ! (j mod 3 * 2)) (data ! (j mod 3 * 2 + 1)) else recv ! j))"
proof -
  have pos: "unat (of_nat m * 3 + of_nat 0 :: u8) = m * 3" "unat (of_nat m * 3 + of_nat 1 :: u8) = m * 3 + 1"
    "unat (of_nat m * 3 + of_nat 2 :: u8) = m * 3 + 2"
    using assms(1) message_position [of m 0] message_position [of m 1] message_position [of m 2] by simp_all
  have b: "m * 3 + 2 < 7" using assms(1) by linarith
  have div: "j div 3 = m \<longleftrightarrow> j = m * 3 \<or> j = m * 3 + 1 \<or> j = m * 3 + 2" for j by linarith
  have md: "Suc (m * 3) mod 3 = 1" "Suc (Suc (m * 3)) mod 3 = 2" by presburger+
  show ?thesis
    using assms b
    by (auto simp: md pos [simplified] Let_def aget_def aset_def div [simplified] nth_list_update)
qed

text \<open>The frame of one message, and what receiving it does.\<close>

lemma message_transfer:
  assumes "fill_triple n m [0, 1, 2] val data = Some data'" "length data = 8"
    and "m \<le> 1" "n \<le> 6" "length recv = 7"
  shows "\<exists>recv'. consensus_frame n (f\<lparr>can_data := data'[6 := of_nat m]\<rparr>) recv = Some recv' \<and>
     length recv' = 7 \<and> (\<forall>j < n. if j div 3 = m then transferred (val ! j) (recv ! j) (recv' ! j)
        else recv' ! j = recv ! j)"
proof -
  let ?d = "data'[6 := of_nat m]"
  have len: "length data' = 8" using length_fill_triple [OF assms(1)] assms(2) by simp
  obtain recv' where r: "add_triple n (of_nat m) [0, 1, 2] ?d recv = Some recv'" "length recv' = 7"
    "\<forall>j < n. recv' ! j = (if j div 3 = m
        then recv ! j + duty_decode (?d ! (j mod 3 * 2)) (?d ! (j mod 3 * 2 + 1)) else recv ! j)"
    using add_triple_total [OF assms(3-5), of ?d] by blast
  have "transferred (val ! j) (recv ! j) (recv' ! j)" if j: "j < n" "j div 3 = m" for j
  proof -
    have split: "m * 3 + j mod 3 = j" "j mod 3 < 3" using j(2) by auto
    then obtain aux where aux: "duty_encode (val ! j) = Some aux"
      "data' ! (j mod 3 * 2) = duty_high aux" "data' ! (j mod 3 * 2 + 1) = duty_low aux"
      using fill_triple_bytes [OF assms(1,2), of "j mod 3"] j(1) by auto
    have "j mod 3 * 2 \<noteq> 6" "j mod 3 * 2 + 1 \<noteq> 6" using split(2) by presburger+
    then show ?thesis using r(3) j aux by (simp add: transferred_def)
  qed
  then show ?thesis using r len by (auto simp: consensus_frame_def)
qed

lemma vector_transfer_aux:
  assumes "sendConsensusDutyCycle drv src n val s = Some s'" "1 \<le> n" "n \<le> 6"
    and "frame_ok (sendingFrame s)" "length recv = 7"
  shows "\<exists>fs recv'. sent_frames (log s') = sent_frames (log s) @ fs \<and> length fs = vector_messages n \<and>
     consensus_frames n fs recv = Some recv' \<and> (\<forall>j < n. transferred (val ! j) (recv ! j) (recv' ! j))"
proof -
  define h where "h = (sendingFrame s)\<lparr>can_id := canMessageId src 0 CAN_CONSENSUS, can_dlc := 7\<rparr>"
  have len: "length (can_data h) = 8" using assms(4) by (simp add: h_def frame_ok_def)
  show ?thesis
  proof (cases "n \<le> 3")
    case True
    then have vm: "vector_messages n = 1" using assms(2) by (simp add: vector_messages_def)
    obtain d where d: "fill_triple n 0 [0, 1, 2] val (can_data h) = Some d"
      and s': "s' = sendFrame drv (s\<lparr>sendingFrame := h\<lparr>can_data := d[6 := of_nat 0]\<rparr>\<rparr>)"
      using assms(1) by (auto simp: sendConsensusDutyCycle_def vm h_def bind_eq_Some_conv)
    obtain recv' where "consensus_frame n (h\<lparr>can_data := d[6 := of_nat 0]\<rparr>) recv = Some recv'"
      "\<forall>j < n. if j div 3 = 0 then transferred (val ! j) (recv ! j) (recv' ! j) else recv' ! j = recv ! j"
      using message_transfer [OF d len _ assms(3,5)] by auto
    moreover have "\<forall>j < n. j div 3 = 0" using True by auto
    ultimately show ?thesis
      by (intro exI [of _ "[h\<lparr>can_data := d[6 := of_nat 0]\<rparr>]"] exI [of _ recv']) (auto simp: s' vm)
  next
    case False
    then have vm: "vector_messages n = 2" using assms(3) by (simp add: vector_messages_def)
    have two: "[0..<2] = [0, 1 :: nat]" by (simp add: upt_rec)
    obtain d e where d: "fill_triple n 0 [0, 1, 2] val (can_data h) = Some d"
      and e: "fill_triple n 1 [0, 1, 2] val (d[6 := of_nat 0]) = Some e"
      and s': "s' = sendFrame drv ((sendFrame drv (s\<lparr>sendingFrame := h\<lparr>can_data := d[6 := of_nat 0]\<rparr>\<rparr>))
        \<lparr>sendingFrame := h\<lparr>can_data := e[6 := of_nat 1]\<rparr>\<rparr>)"
      using assms(1) by (auto simp: sendConsensusDutyCycle_def vm two h_def bind_eq_Some_conv)
    have len': "length (d[6 := of_nat 0 :: u8]) = 8" using length_fill_triple [OF d] len by simp
    obtain r1 where r1: "consensus_frame n (h\<lparr>can_data := d[6 := of_nat 0]\<rparr>) recv = Some r1" "length r1 = 7"
      "\<forall>j < n. if j div 3 = 0 then transferred (val ! j) (recv ! j) (r1 ! j) else r1 ! j = recv ! j"
      using message_transfer [OF d len _ assms(3,5)] by auto
    obtain r2 where r2: "consensus_frame n (h\<lparr>can_data := e[6 := of_nat 1]\<rparr>) r1 = Some r2"
      "\<forall>j < n. if j div 3 = 1 then transferred (val ! j) (r1 ! j) (r2 ! j) else r2 ! j = r1 ! j"
      using message_transfer [OF e len' _ assms(3) r1(2)] by auto
    have "transferred (val ! j) (recv ! j) (r2 ! j)" if "j < n" for j
    proof -
      have "j div 3 = 0 \<or> j div 3 = 1" using that assms(3) by linarith
      then show ?thesis using r1(3) r2(2) that by auto
    qed
    then show ?thesis using r1(1) r2(1)
      by (intro exI [of _ "[h\<lparr>can_data := d[6 := of_nat 0]\<rparr>, h\<lparr>can_data := e[6 := of_nat 1]\<rparr>]"]
          exI [of _ r2]) (auto simp: s' vm)
  qed
qed

text \<open>C9. With at most six nodes the vector arrives: a node that receives, in order, the frames a peer
  sends for its consensus vector adds to each of its accumulators the transferred value of the
  same position, and the number of frames is the one the receiver counts on.\<close>

theorem consensus_vector_transfer:
  assumes "sendConsensusDutyCycle drv src n val s = Some s'" "1 \<le> n" "n \<le> 6"
    and "frame_ok (sendingFrame s)" "length recv = 7"
  shows "\<exists>fs recv'. sent_frames (log s') = sent_frames (log s) @ fs \<and> length fs = vector_messages n \<and>
     consensus_frames n fs recv = Some recv' \<and> (\<forall>j < n. transferred (val ! j) (recv ! j) (recv' ! j))"
  by (rule vector_transfer_aux [OF assms])

lemma vector_example:
  "\<exists>s'. sendConsensusDutyCycle (\<lambda>_ _. 0) 1 2 [f_int 100, f_int 20, 0, 0, 0, 0, 0] io_boot = Some s'"
proof -
  obtain a b where "duty_encode (f_int 100) = Some a" "duty_encode (f_int 20) = Some b"
    using duty_encode_near [of "f_int 100"] duty_encode_near [of "f_int 20"]
      f_int_facts [of 100] f_int_facts [of 20] by auto
  then show ?thesis by (simp add: sendConsensusDutyCycle_def vector_messages_def aget_def)
qed

theorem consensus_vector_transfer_witness:
  "\<exists>s' fs recv'. sendConsensusDutyCycle (\<lambda>_ _. 0) 1 2 [f_int 100, f_int 20, 0, 0, 0, 0, 0] io_boot = Some s' \<and>
     sent_frames (log s') = fs \<and> length fs = 1 \<and> consensus_frames 2 fs (replicate 7 0) = Some recv' \<and>
     transferred (f_int 100) 0 (recv' ! 0) \<and> transferred (f_int 20) 0 (recv' ! 1)"
proof -
  obtain s' where s': "sendConsensusDutyCycle (\<lambda>_ _. 0) 1 2 [f_int 100, f_int 20, 0, 0, 0, 0, 0] io_boot = Some s'"
    using vector_example by blast
  show ?thesis
    using consensus_vector_transfer [OF s' _ _ _, of "replicate 7 0"] s'
    by (fastforce simp: frame_ok_def io_boot_def vector_messages_def less_2_cases_iff)
qed

text \<open>With seven nodes the third frame of every vector is fatal for its receivers: the test
  \<open>posInVector <= numTotalNodes\<close> lets position 7 through, which is outside \<open>receivedDutyCycle\<close>.\<close>

theorem consensus_seven_nodes_undefined:
  assumes "can_data f ! 6 = 2" "length recv = 7"
  shows "consensus_frame 7 f recv = None"
proof -
  have "unat (2 * 3 + of_nat 0 :: u8) = 6" "unat (2 * 3 + of_nat 1 :: u8) = 7" by simp_all
  then show ?thesis
    using assms by (simp add: consensus_frame_def Let_def aget_def aset_def)
qed

theorem consensus_seven_nodes_undefined_witness:
  "consensus_frame 7 \<lparr>can_id = 0, can_dlc = 7, can_data = [0, 0, 0, 0, 0, 0, 2, 0]\<rparr> (replicate 7 0) = None"
  by (rule consensus_seven_nodes_undefined) simp_all

end
