(* ===== verification/Controller.thy ===== *)
theory Controller
  imports Float32
begin

text \<open>
  The local control loop: the PI controller with feedforward and anti-windup (\<open>controller.cpp\<close>) and
  the simulator of the expected voltage (\<open>simulador.cpp\<close>). The functions of the C mathematics
  library are parameters, the fields of \<open>libm\<close>. On the AVR \<open>int\<close> has 16 bits: a float that does not fit it,
  and an \<open>int\<close> subtraction that overflows, are undefined.
\<close>

subsection \<open>The controller\<close>

record controller =
  ctl_ui :: f32 \<comment> \<open>integrator\<close>
  ctl_u :: f32 \<comment> \<open>control signal (PWM)\<close>

definition controller_init :: controller where
  "controller_init = \<lparr>ctl_ui = 0, ctl_u = 0\<rparr>"

definition KP :: int where "KP = 20"
definition KI :: int where "KI = 1500"

definition calc_ui :: "f32 \<Rightarrow> u32 \<Rightarrow> f32 \<Rightarrow> f32" where
  "calc_ui ui samplingTime errorVoltage =
     ui + f_ulong samplingTime * (f_int KI / f_int 1000000) * errorVoltage"

text \<open>The result is the value returned and the controller after the call.\<close>

definition calc :: "f32 \<Rightarrow> u32 \<Rightarrow> f32 \<Rightarrow> f32 \<Rightarrow> f32 \<Rightarrow> controller \<Rightarrow> (int \<times> controller) option" where
  "calc errorVoltage samplingTime luxRef systemGain residualRead c = do {
     uff \<leftarrow> f_to_i16 ((luxRef - residualRead) / systemGain);
     let ui = calc_ui (ctl_ui c) samplingTime errorVoltage;
     let up = f_int KP * errorVoltage;
     let u = f_int uff + up + ui;
     c' \<leftarrow> (if f_int 255 < u then do {
               d \<leftarrow> i16_sub 255 uff;
               Some \<lparr>ctl_ui = f_int d - up, ctl_u = f_int 255\<rparr>
             } else if u < f_int 0 then do {
               d \<leftarrow> i16_sub 0 uff;
               Some \<lparr>ctl_ui = f_int d - up, ctl_u = f_int 0\<rparr>
             } else Some \<lparr>ctl_ui = ui, ctl_u = u\<rparr>);
     r \<leftarrow> f_to_i16 (ctl_u c');
     Some (r, c')
   }"

definition controllerReset :: "controller \<Rightarrow> controller" where
  "controllerReset c = \<lparr>ctl_ui = 0, ctl_u = 0\<rparr>"


subsection \<open>The range of the control signal\<close>

lemma calc_range_aux:
  assumes "calc err t luxRef gain res c = Some (r, c')"
  shows "0 \<le> r \<and> r \<le> 255 \<and> f_int 0 \<le> ctl_u c' \<and> ctl_u c' \<le> f_int 255"
proof -
  have r: "f_to_i16 (ctl_u c') = Some r"
    and sat: "ctl_u c' = f_int 255 \<or> ctl_u c' = f_int 0 \<or>
      (\<not> f_int 255 < ctl_u c' \<and> \<not> ctl_u c' < f_int 0)"
    using assms by (auto simp: calc_def Let_def bind_eq_Some_conv split: if_splits)
  have nan: "\<not> is_nan (ctl_u c')"
    using r by (auto simp: f_to_i16_def f_to_int_def f_fin_not_nan split: if_splits)
  have ends: "\<not> is_nan (f_int 0)" "\<not> is_nan (f_int 255)" "f_int 0 \<le> f_int 255"
    using f_int_facts [of 0] f_int_facts [of 255] by (simp_all add: f_le_fval)
  have range: "f_int 0 \<le> ctl_u c'" "ctl_u c' \<le> f_int 255"
    using sat nan ends by (auto simp: f_not_less f_le_refl_iff)
  then show ?thesis
    using f_to_i16_between [OF range] r by auto
qed

text \<open>Whatever its inputs, the value the controller hands to \<open>analogWrite\<close> lies in 0..255, and
  so does the stored control signal that the metrics and the duty-cycle replies read.\<close>

theorem calc_in_pwm_range:
  assumes "calc err t luxRef gain res c = Some (r, c')"
  shows "0 \<le> r \<and> r \<le> 255 \<and> f_int 0 \<le> ctl_u c' \<and> ctl_u c' \<le> f_int 255"
  by (rule calc_range_aux [OF assms])

lemma calc_example:
  "calc (f_int 10) 0 (f_int 100) (f_int 1) (f_int 0) controller_init
     = Some (255, \<lparr>ctl_ui = F32 0xC2340000, ctl_u = f_int 255\<rparr>)"
proof -
  have uff: "f_to_i16 ((f_int 100 - f_int 0) / f_int 1) = Some 100"
    by (simp add: f_eval f_to_i16_def)
  have gain: "f_int KI / f_int 1000000 = F32 0x3AC49BA6" by (simp add: f_eval KI_def)
  have zero: "f_ulong 0 = F32 0" by (simp add: f_eval f_ulong_def)
  have ui: "calc_ui (ctl_ui controller_init) 0 (f_int 10) = F32 0"
    unfolding calc_ui_def gain zero by (simp add: f_eval controller_init_def)
  have up: "f_int KP * f_int 10 = F32 0x43480000" by (simp add: f_eval KP_def)
  have sum: "f_int 100 + F32 0x43480000 + F32 0 = F32 0x43960000" by (simp add: f_eval)
  have gt: "f_int 255 < F32 0x43960000" by (simp add: f_eval)
  have wind: "f_int 155 - F32 0x43480000 = F32 0xC2340000" by (simp add: f_eval)
  have ret: "f_to_i16 (f_int 255) = Some 255" by (simp add: f_to_i16_f_int)
  show ?thesis
    by (simp add: calc_def uff ui up sum gt ret wind i16_sub_def in_i16_def)
qed

theorem calc_in_pwm_range_witness:
  "0 \<le> (255 :: int) \<and> (255 :: int) \<le> 255 \<and> f_int 0 \<le> f_int 255 \<and> f_int 255 \<le> f_int 255"
  using calc_in_pwm_range [OF calc_example] by simp


subsection \<open>Definedness and a bounded integrator\<close>

text \<open>The invariant of the stored state: the integrator is a finite number of moderate size.\<close>

definition ctl_ok :: "controller \<Rightarrow> bool" where
  "ctl_ok c \<longleftrightarrow> is_fin (ctl_ui c) \<and> \<bar>fval (ctl_ui c)\<bar> \<le> 40000"

lemma ki_step_gain: "is_fin (f_int KI / f_int 1000000)" "\<bar>fval (f_int KI / f_int 1000000)\<bar> \<le> 2"
proof -
  have v: "fval (f_int KI) = 1500" "fval (f_int 1000000) = 1000000"
    "is_fin (f_int KI)" "is_fin (f_int 1000000)"
    by (simp_all add: f_int_facts KI_def)
  note e = f_divide_approx [of "f_int KI" "f_int 1000000" 1, unfolded v]
  show "is_fin (f_int KI / f_int 1000000)" by (rule e(1)) (simp_all add: v)
  have "\<bar>fval (f_int KI / f_int 1000000) - 1500 / 1000000\<bar> \<le> 1 / 2 ^ 24"
    by (rule e(2)) (simp_all add: v)
  then have "\<bar>fval (f_int KI / f_int 1000000) - 1500 / 1000000\<bar> \<le> 1" by simp
  then show "\<bar>fval (f_int KI / f_int 1000000)\<bar> \<le> 2" by linarith
qed

lemma approx_abs: "\<bar>v - e\<bar> \<le> B / 2 ^ 24 \<Longrightarrow> \<bar>e\<bar> \<le> B \<Longrightarrow> \<bar>v\<bar> \<le> B + B / (2 ^ 24 :: real)"
  by linarith

lemma error_gives_bound:
  assumes "\<bar>v - e\<bar> \<le> max (1 / 2 ^ 150) (\<bar>e\<bar> / (2 ^ 24 :: real))"
  shows "\<bar>e\<bar> \<le> 2 * \<bar>v\<bar> + 2"
proof -
  have "max (1 / 2 ^ 150) (\<bar>e\<bar> / (2 ^ 24 :: real)) \<le> 1 + \<bar>e\<bar> / 2" by simp
  with assms show ?thesis by linarith
qed

lemma f_ulong_bound: "is_fin (f_ulong t)" "\<bar>fval (f_ulong t)\<bar> \<le> 2 ^ 33"
proof -
  have lt: "uint t < 2 ^ 32" using uint_lt2p [of t] by simp
  have "\<bar>uint t\<bar> \<le> 2 ^ 80" using lt by simp
  note e = f_int_approx [OF this]
  show "is_fin (f_ulong t)" using e(1) by (simp add: f_ulong_def)
  have "real_of_int (uint t) < real_of_int (2 ^ 32)" using lt by (simp only: of_int_less_iff)
  then have i: "\<bar>real_of_int (uint t)\<bar> \<le> 2 ^ 32"
    using uint_nonnegative [of t] by (simp del: of_int_uint)
  then have "max 1 \<bar>real_of_int (uint t)\<bar> / 2 ^ 24 \<le> 2 ^ 32 / 2 ^ 24"
    by (intro divide_right_mono) simp_all
  with e(2) have err: "\<bar>fval (f_int (uint t)) - of_int (uint t)\<bar> \<le> 2 ^ 32 / 2 ^ 24"
    by (rule order_trans)
  then show "\<bar>fval (f_ulong t)\<bar> \<le> 2 ^ 33"
    using approx_abs [OF err i] by (simp add: f_ulong_def)
qed

lemma abs_mult_le: "\<bar>a\<bar> \<le> A \<Longrightarrow> \<bar>b\<bar> \<le> B \<Longrightarrow> \<bar>a * b\<bar> \<le> A * (B :: real)"
  by (simp add: abs_mult mult_mono')

lemma calc_ui_bound:
  assumes "is_fin ui" "\<bar>fval ui\<bar> \<le> 40000" "is_fin err" "\<bar>fval err\<bar> \<le> 5"
  shows "is_fin (calc_ui ui t err)" "\<bar>fval (calc_ui ui t err)\<bar> \<le> 2 ^ 39"
proof -
  define a where "a = f_ulong t * (f_int KI / f_int 1000000)"
  have "\<bar>fval (f_ulong t) * fval (f_int KI / f_int 1000000)\<bar> \<le> 2 ^ 33 * 2"
    by (rule abs_mult_le [OF f_ulong_bound(2) ki_step_gain(2)])
  then have "\<bar>fval (f_ulong t) * fval (f_int KI / f_int 1000000)\<bar> \<le> 2 ^ 34" by simp
  note e = f_mult_approx [OF f_ulong_bound(1) ki_step_gain(1) this, folded a_def]
  have a: "is_fin a" "\<bar>fval a\<bar> \<le> 2 ^ 35"
    using e approx_abs [OF e(2) \<open>\<bar>_ * fval (f_int KI / f_int 1000000)\<bar> \<le> 2 ^ 34\<close>] by simp_all
  have "\<bar>fval a * fval err\<bar> \<le> 2 ^ 35 * 5" by (rule abs_mult_le [OF a(2) assms(4)])
  then have ae: "\<bar>fval a * fval err\<bar> \<le> 2 ^ 38" by simp
  note e = f_mult_approx [OF a(1) assms(3) ae]
  have b: "is_fin (a * err)" "\<bar>fval (a * err)\<bar> \<le> 2 ^ 38 + 2 ^ 14"
    using e approx_abs [OF e(2) ae] by simp_all
  have s: "\<bar>fval ui + fval (a * err)\<bar> \<le> 2 ^ 38 + 2 ^ 16" using assms(2) b(2) by simp
  note e = f_add_approx [OF assms(1) b(1) s]
  have c: "is_fin (ui + a * err)" "\<bar>fval (ui + a * err)\<bar> \<le> 2 ^ 39"
    using e approx_abs [OF e(2) s] by simp_all
  then show "is_fin (calc_ui ui t err)" "\<bar>fval (calc_ui ui t err)\<bar> \<le> 2 ^ 39"
    by (simp_all add: calc_ui_def a_def)
qed

lemma f_range_value:
  assumes "is_fin x" "\<not> f_int 255 < x" "\<not> x < f_int 0"
  shows "\<bar>fval x\<bar> \<le> 255"
  using assms f_int_facts [of 255] f_int_facts [of 0] by (simp add: f_less_fval)

lemma calc_defined_aux:
  assumes ok: "ctl_ok c" and err: "is_fin err" "\<bar>fval err\<bar> \<le> 5"
    and uff: "f_to_i16 ((luxRef - res) / gain) = Some uff" "- 32512 \<le> uff"
  shows "\<exists>r c'. calc err t luxRef gain res c = Some (r, c') \<and> ctl_ok c'"
proof -
  define ui up where "ui = calc_ui (ctl_ui c) t err" and "up = f_int KP * err"
  define u where "u = f_int uff + up + ui"
  have lo: "uff \<le> 32767" using uff(1) by (auto simp: f_to_i16_def f_to_int_def split: if_splits)
  have ui: "is_fin ui" "\<bar>fval ui\<bar> \<le> 2 ^ 39"
    using calc_ui_bound [of "ctl_ui c" err t] ok err by (simp_all add: ctl_ok_def ui_def)
  have "\<bar>fval (f_int KP) * fval err\<bar> \<le> 20 * 5"
    by (rule abs_mult_le) (use err(2) in \<open>simp_all add: KP_def f_int_facts\<close>)
  then have p: "\<bar>fval (f_int KP) * fval err\<bar> \<le> 100" by simp
  note e = f_mult_approx [OF _ err(1) p, folded up_def]
  have KP: "is_fin (f_int KP)" by (simp add: KP_def f_int_facts)
  have up: "is_fin up" "\<bar>fval up\<bar> \<le> 101"
    using e(1) [OF KP] approx_abs [OF e(2) [OF KP] p] by simp_all
  have int: "is_fin (f_int i)" "fval (f_int i) = i" if "\<bar>i\<bar> \<le> 32768" for i
    using that by (simp_all add: f_int_facts)
  have u16: "\<bar>uff\<bar> \<le> 32768" using uff(2) lo by linarith
  have s: "\<bar>fval (f_int uff) + fval up\<bar> \<le> 32869" using uff(2) lo up(2) int [OF u16] by simp
  have uffup: "is_fin (f_int uff + up)" "\<bar>fval (f_int uff + up)\<bar> \<le> 32870"
    using f_add_approx(1) [OF int(1) up(1) s] u16
      approx_abs [OF f_add_approx(2) [OF int(1) [OF u16] up(1) s] s] by simp_all
  have "\<bar>fval (f_int uff + up) + fval ui\<bar> < 2 ^ 100" using uffup(2) ui(2) by simp
  note e = f_add_error [OF uffup(1) ui(1) this]
  have u: "is_fin u" using e(1) by (simp add: u_def)
  have ui_small: "\<bar>fval ui\<bar> \<le> 40000" if "\<bar>fval u\<bar> \<le> 255"
    using error_gives_bound [OF e(2)] that uffup(2) unfolding u_def by linarith
  have wind: "is_fin (f_int d - up) \<and> \<bar>fval (f_int d - up)\<bar> \<le> 40000" if d: "\<bar>d\<bar> \<le> 32768" for d
  proof -
    have "\<bar>fval (f_int d) - fval up\<bar> \<le> 32869" using d up(2) int [OF d] by simp
    note e = f_diff_approx [OF int(1) [OF d] up(1) this]
    show ?thesis
      using e approx_abs [OF e(2) \<open>\<bar>fval (f_int d) - fval up\<bar> \<le> 32869\<close>] by simp
  qed
  have ret: "\<exists>r. f_to_i16 x = Some r" if "f_int 0 \<le> x" "x \<le> f_int 255" for x
    using f_to_i16_between [OF that] by auto
  consider (high) "f_int 255 < u" | (low) "\<not> f_int 255 < u" "u < f_int 0"
    | (mid) "\<not> f_int 255 < u" "\<not> u < f_int 0" by blast
  then show ?thesis
  proof cases
    case high
    then show ?thesis
      using wind [of "255 - uff"] uff lo
      by (auto simp: calc_def Let_def ui_def up_def u_def i16_sub_def in_i16_def
          f_to_i16_f_int ctl_ok_def)
  next
    case low
    then show ?thesis
      using wind [of "0 - uff"] uff lo
      by (auto simp: calc_def Let_def ui_def up_def u_def i16_sub_def in_i16_def
          f_to_i16_f_int ctl_ok_def)
  next
    case mid
    then obtain r where "f_to_i16 u = Some r"
      using ret [of u] u f_int_facts [of 255] f_int_facts [of 0] by (auto simp: f_not_less f_fin_not_nan)
    with mid show ?thesis
      using ui ui_small f_range_value [OF u mid] uff
      by (auto simp: calc_def Let_def ui_def up_def u_def ctl_ok_def)
  qed
qed

text \<open>C22. The control step is defined behaviour and its integrator cannot wind up: while the
  feedforward term fits in \<open>int\<close> (and is not below -32512, where \<open>255 - uff\<close> overflows) and the
  voltage error is at most 5 V, every step returns, and the integrator stays within 40000 for good,
  whatever the sampling times.\<close>

theorem calc_defined_and_bounded:
  assumes "ctl_ok c" "is_fin err" "\<bar>fval err\<bar> \<le> 5"
    and "f_to_i16 ((luxRef - res) / gain) = Some uff" "- 32512 \<le> uff"
  shows "\<exists>r c'. calc err t luxRef gain res c = Some (r, c') \<and> ctl_ok c'"
  by (rule calc_defined_aux [OF assms])

theorem calc_defined_and_bounded_witness:
  "\<exists>r c'. calc (f_int (- 3)) 10000 (f_int 100) (f_int 1) (f_int 0) controller_init = Some (r, c')
     \<and> ctl_ok c'"
proof (rule calc_defined_and_bounded)
  show "ctl_ok controller_init" by (simp add: ctl_ok_def controller_init_def f_eval fval_def)
  show "f_to_i16 ((f_int 100 - f_int 0) / f_int 1) = Some 100" by (simp add: f_eval f_to_i16_def)
qed (simp_all add: f_int_facts)


subsection \<open>The simulator\<close>

record simulador =
  stepTimeInitial :: u32
  sim_vInitial :: f32
  sim_vFinal :: f32
  sim_tau :: int
  sim_a :: f32
  sim_b :: f32

definition getTau :: "libm \<Rightarrow> f32 \<Rightarrow> simulador \<Rightarrow> int option" where
  "getTau m voltage s = f_to_i16 (- sim_b s * logf m voltage + sim_a s)"

text \<open>\<open>now\<close> is the value of \<open>micros()\<close>.\<close>

definition startStep :: "libm \<Rightarrow> u32 \<Rightarrow> f32 \<Rightarrow> f32 \<Rightarrow> simulador \<Rightarrow> simulador option" where
  "startStep m now vInitial vFinal s = do {
     let s = s\<lparr>stepTimeInitial := now, sim_vInitial := vInitial, sim_vFinal := vFinal\<rparr>;
     tau \<leftarrow> getTau m vFinal s;
     Some (s\<lparr>sim_tau := tau\<rparr>)
   }"

definition simulate :: "libm \<Rightarrow> u32 \<Rightarrow> simulador \<Rightarrow> f32" where
  "simulate m t s =
     sim_vFinal s - (sim_vFinal s - sim_vInitial s) *
       expf m (- f_ulong (t - stepTimeInitial s) / f_int (sim_tau s))"

end
