(* ===== verification/Lpf.thy ===== *)
theory Lpf
  imports Float32
begin

text \<open>
  The moving average of \<open>lpf.cpp\<close>: the last 20 voltages in a ring of 20 floats. The sampled voltage
  is an argument of \<open>sample\<close>.
\<close>

definition LPF_TOTAL_SAMPLES :: nat where "LPF_TOTAL_SAMPLES = 20"

record lpf =
  lpfNumSamples :: nat
  lpfIdx :: nat
  lpfSamples :: "f32 list"

definition lpf_init :: lpf where
  "lpf_init = \<lparr>lpfNumSamples = 0, lpfIdx = 0, lpfSamples = replicate LPF_TOTAL_SAMPLES 0\<rparr>"

definition lpf_sample :: "f32 \<Rightarrow> lpf \<Rightarrow> lpf option" where
  "lpf_sample measuredVoltage l = do {
     samples \<leftarrow> aset (lpfSamples l) (lpfIdx l) measuredVoltage;
     let idx = lpfIdx l + 1;
     let num = max idx (lpfNumSamples l);
     Some \<lparr>lpfNumSamples = num, lpfIdx = (if LPF_TOTAL_SAMPLES \<le> idx then 0 else idx),
       lpfSamples = samples\<rparr>
   }"

definition lpf_value :: "lpf \<Rightarrow> f32" where
  "lpf_value l =
     foldl (+) (f_int 0) (take (lpfNumSamples l) (lpfSamples l)) / f_int (int (lpfNumSamples l))"

text \<open>\<open>lpfSamples[LPF_TOTAL_SAMPLES] = {0}\<close> is an assignment to the element after the last.\<close>

definition resetLPF :: "lpf \<Rightarrow> lpf option" where
  "resetLPF l = do {
     samples \<leftarrow> aset (lpfSamples l) LPF_TOTAL_SAMPLES 0;
     Some \<lparr>lpfNumSamples = 0, lpfIdx = 0, lpfSamples = samples\<rparr>
   }"

fun lpf_samples :: "f32 list \<Rightarrow> lpf \<Rightarrow> lpf option" where
  "lpf_samples [] l = Some l"
| "lpf_samples (v # vs) l = do { l' \<leftarrow> lpf_sample v l; lpf_samples vs l' }"

subsection \<open>The window invariant\<close>

text \<open>After \<open>hist\<close>, the cell \<open>i\<close> holds the latest sample whose position is \<open>i\<close> modulo 20.\<close>

definition lpf_window :: "f32 list \<Rightarrow> lpf \<Rightarrow> bool" where
  "lpf_window hist l \<longleftrightarrow>
     length (lpfSamples l) = LPF_TOTAL_SAMPLES \<and>
     lpfIdx l = length hist mod LPF_TOTAL_SAMPLES \<and>
     lpfNumSamples l = min (length hist) LPF_TOTAL_SAMPLES \<and>
     (\<forall>k < length hist. length hist \<le> k + LPF_TOTAL_SAMPLES \<longrightarrow>
        lpfSamples l ! (k mod LPF_TOTAL_SAMPLES) = hist ! k)"

lemma lpf_window_init: "lpf_window [] lpf_init"
  by (simp add: lpf_window_def lpf_init_def LPF_TOTAL_SAMPLES_def)

lemma window_slot:
  assumes "k < n" "n < k + 20"
  shows "k mod 20 \<noteq> (n :: nat) mod 20"
proof
  assume "k mod 20 = n mod 20"
  then have "20 dvd n - k"
    using mod_eq_dvd_iff_nat [of k n 20] assms(1) by simp
  then have "20 \<le> n - k" using assms(1) by (intro dvd_imp_le) simp_all
  then show False using assms(2) by linarith
qed

lemma lpf_sample_window:
  assumes "lpf_window hist l"
  shows "\<exists>l'. lpf_sample v l = Some l' \<and> lpf_window (hist @ [v]) l'"
proof -
  define n where "n = length hist"
  have l: "length (lpfSamples l) = 20" "lpfIdx l = n mod 20" "lpfNumSamples l = min n 20"
    "\<And>k. k < n \<Longrightarrow> n \<le> k + 20 \<Longrightarrow> lpfSamples l ! (k mod 20) = hist ! k"
    using assms by (simp_all add: lpf_window_def LPF_TOTAL_SAMPLES_def n_def)
  define l' where "l' = \<lparr>lpfNumSamples = max (n mod 20 + 1) (min n 20),
    lpfIdx = (if 20 \<le> n mod 20 + 1 then 0 else n mod 20 + 1),
    lpfSamples = (lpfSamples l)[n mod 20 := v]\<rparr>"
  have "n mod 20 < 20" by simp
  then have lt: "n mod 20 \<le> 19" by linarith
  have num: "max (n mod 20 + 1) (min n 20) = min (Suc n) 20"
    using lt by (cases "n < 20") (simp_all add: max_def min_def)
  have idx: "(if 20 \<le> n mod 20 + 1 then 0 else n mod 20 + 1) = Suc n mod 20"
    using lt by (simp add: mod_Suc)
  have "lpf_sample v l = Some l'"
    by (simp add: lpf_sample_def l aset_in_bounds LPF_TOTAL_SAMPLES_def l'_def)
  moreover have "lpf_window (hist @ [v]) l'"
    unfolding lpf_window_def LPF_TOTAL_SAMPLES_def
  proof (intro conjI allI impI)
    fix k assume k: "k < length (hist @ [v])" "length (hist @ [v]) \<le> k + 20"
    show "lpfSamples l' ! (k mod 20) = (hist @ [v]) ! k"
    proof (cases "k = n")
      case False
      then have "k mod 20 \<noteq> n mod 20" using k by (intro window_slot) (auto simp: n_def)
      then show ?thesis using k False l(4) [of k] by (auto simp: l'_def n_def nth_append)
    qed (simp add: l'_def l n_def)
  qed (use num idx l in \<open>simp_all add: l'_def n_def\<close>)
  ultimately show ?thesis by blast
qed

lemma lpf_samples_window:
  "lpf_window hist l \<Longrightarrow> \<exists>l'. lpf_samples vs l = Some l' \<and> lpf_window (hist @ vs) l'"
proof (induction vs arbitrary: hist l)
  case (Cons v vs)
  then obtain l1 where "lpf_sample v l = Some l1" "lpf_window (hist @ [v]) l1"
    using lpf_sample_window by blast
  then show ?case using Cons.IH [of "hist @ [v]" l1] by auto
qed simp

text \<open>C29. Sampling never leaves the ring, and after any number of samples the filter holds the
  latest \<open>min n 20\<close> of them, the sample number \<open>k\<close> in cell \<open>k mod 20\<close>.\<close>

theorem lpf_holds_last_samples:
  "\<exists>l. lpf_samples vs lpf_init = Some l \<and> lpfNumSamples l = min (length vs) 20 \<and>
     (\<forall>k < length vs. length vs \<le> k + 20 \<longrightarrow> lpfSamples l ! (k mod 20) = vs ! k)"
  using lpf_samples_window [OF lpf_window_init, of vs]
  by (auto simp: lpf_window_def LPF_TOTAL_SAMPLES_def)

theorem lpf_holds_last_samples_witness:
  "\<exists>l. lpf_samples [F32 1, F32 2] lpf_init = Some l \<and> lpfNumSamples l = 2 \<and>
     lpfSamples l ! 1 = F32 2"
  using lpf_holds_last_samples [of "[F32 1, F32 2]"] by force

text \<open>\<open>resetLPF\<close> is undefined in every state: its last line writes the element after the end of
  \<open>lpfSamples\<close>, instead of clearing the array.\<close>

theorem resetLPF_undefined:
  assumes "length (lpfSamples l) = LPF_TOTAL_SAMPLES"
  shows "resetLPF l = None"
  by (simp add: resetLPF_def aset_out_of_bounds assms)

theorem resetLPF_undefined_witness: "resetLPF lpf_init = None"
  by (rule resetLPF_undefined) (simp add: lpf_init_def)

end
