(* ===== verification/Luminaire.thy ===== *)
theory Luminaire
  imports Controller Lpf
begin

text \<open>
  The luminaire of \<open>luminaire.cpp\<close>: lux/voltage conversion, the reference, the control step and the
  sampling loop. Readings are arguments: \<open>adc\<close> is a result of \<open>analogRead(LDR_PIN)\<close>, a 10 bit
  number, and \<open>now\<close> one of \<open>micros()\<close>. \<open>residualRead\<close> is the entry of the calibration's
  \<open>residualArray\<close> for this node. \<open>analogWrite(LED_PIN, pwm)\<close> is the returned duty value.
\<close>

type_synonym adc = "10 word"

record luminaire =
  lastSampleTime :: u32
  lpfSampleTime :: u32
  ldrSlopeB :: f32
  ldrSlopeM :: f32
  systemGain :: f32
  simulator :: simulador
  lum_controller :: controller
  occupied :: bool
  luxRef :: f32
  luxRefAfterConsensus :: f32
  luxOccupied :: f32
  luxNonOccupied :: f32
  lum_cost :: f32
  samplingTime :: u32
  measuredVoltage :: f32

text \<open>The global object before \<open>setup\<close>: static storage is zero, and the declared initial values.\<close>

definition luminaire_boot :: luminaire where
  "luminaire_boot = \<lparr>lastSampleTime = 0, lpfSampleTime = 0, ldrSlopeB = f_int 0, ldrSlopeM = f_int 0,
     systemGain = 0,
     simulator = \<lparr>stepTimeInitial = 0, sim_vInitial = 0, sim_vFinal = 0, sim_tau = 0,
       sim_a = 0, sim_b = 0\<rparr>,
     lum_controller = controller_init, occupied = False, luxRef = 0, luxRefAfterConsensus = 0,
     luxOccupied = f_int 100, luxNonOccupied = f_int 30, lum_cost = 0, samplingTime = 0,
     measuredVoltage = 0\<rparr>"

definition R1_val :: int where "R1_val = 10"
definition CONTROL_DELAY :: u32 where "CONTROL_DELAY = 10000"
definition LPF_SAMPLING_DELAY :: u32 where "LPF_SAMPLING_DELAY = CONTROL_DELAY div 80"

definition getVoltage :: "adc \<Rightarrow> f32" where
  "getVoltage adc = f_int (uint adc * 5) / f_int 1024"

definition luxToVoltage :: "libm \<Rightarrow> luminaire \<Rightarrow> f32 \<Rightarrow> f32" where
  "luxToVoltage m l lux =
     (let rLDR = powf m (f_int 10) (ldrSlopeM l * log10f m lux + ldrSlopeB l)
      in f_int (5 * R1_val) / (f_int R1_val + rLDR))"

definition voltageToLux :: "libm \<Rightarrow> luminaire \<Rightarrow> f32 \<Rightarrow> f32" where
  "voltageToLux m l voltage =
     (let rLDR = f_int R1_val * (f_int 5 - voltage) / voltage
      in powf m (f_int 10) ((log10f m rLDR - ldrSlopeB l) / ldrSlopeM l))"

definition setOccupied :: "bool \<Rightarrow> luminaire \<Rightarrow> luminaire" where
  "setOccupied b l =
     (let l = l\<lparr>occupied := b\<rparr>
      in l\<lparr>luxRef := (if occupied l then luxOccupied l else luxNonOccupied l)\<rparr>)"

definition setSystemGain :: "f32 \<Rightarrow> luminaire \<Rightarrow> luminaire" where
  "setSystemGain kii l = l\<lparr>systemGain := kii\<rparr>"

definition setLuxRefAfterConsensus ::
    "libm \<Rightarrow> u32 \<Rightarrow> adc \<Rightarrow> f32 \<Rightarrow> luminaire \<Rightarrow> luminaire option" where
  "setLuxRefAfterConsensus m now adc lux l = do {
     let l = l\<lparr>luxRefAfterConsensus := lux\<rparr>;
     sim \<leftarrow> startStep m now (getVoltage adc) (luxToVoltage m l (luxRefAfterConsensus l)) (simulator l);
     Some (l\<lparr>simulator := sim\<rparr>)
   }"

text \<open>\<open>init\<close>: the three parameters come from the EEPROM.\<close>

definition luminaire_init :: "f32 \<Rightarrow> f32 \<Rightarrow> f32 \<Rightarrow> bool \<Rightarrow> luminaire \<Rightarrow> luminaire" where
  "luminaire_init slopeM slopeB cost occ l =
     setOccupied occ (l\<lparr>ldrSlopeM := slopeM, ldrSlopeB := slopeB, lum_cost := cost\<rparr>)"

text \<open>One control step; the result includes the value written to the LED pin.\<close>

definition control_error :: "libm \<Rightarrow> u32 \<Rightarrow> adc \<Rightarrow> luminaire \<Rightarrow> f32" where
  "control_error m timeNow adc l =
     (let e = simulate m timeNow (simulator l) - getVoltage adc
      in if f_abs e \<le> f_dec 1 100 then f_int 0 else e)"

definition control ::
    "libm \<Rightarrow> u32 \<Rightarrow> u32 \<Rightarrow> adc \<Rightarrow> f32 \<Rightarrow> luminaire \<Rightarrow> (int \<times> luminaire) option" where
  "control m timeNow t adc residualRead l = do {
     let errorVoltage = control_error m timeNow adc l;
     let l = l\<lparr>measuredVoltage := getVoltage adc\<rparr>;
     (pwm, c) \<leftarrow> calc errorVoltage t (luxRefAfterConsensus l) (systemGain l) residualRead
                  (lum_controller l);
     Some (pwm, l\<lparr>lum_controller := c\<rparr>)
   }"

text \<open>
  \<open>loop\<close>: \<open>adc1\<close> is the reading of the control step, \<open>adc2\<close> that of the low-pass filter. The first
  component of the result is the duty written, if a control step ran (then \<open>didControl\<close> is set).
\<close>

definition luminaire_loop ::
    "libm \<Rightarrow> u32 \<Rightarrow> adc \<Rightarrow> adc \<Rightarrow> f32 \<Rightarrow> luminaire \<Rightarrow> lpf \<Rightarrow> (int option \<times> luminaire \<times> lpf) option" where
  "luminaire_loop m timeNow adc1 adc2 residualRead l f = do {
     let l = l\<lparr>samplingTime := timeNow - lastSampleTime l\<rparr>;
     (out, l) \<leftarrow> (if CONTROL_DELAY \<le> samplingTime l then do {
         let l = (if lastSampleTime l = 0 then l\<lparr>samplingTime := 0\<rparr> else l);
         (pwm, l) \<leftarrow> control m timeNow (samplingTime l) adc1 residualRead l;
         Some (Some pwm, l\<lparr>lastSampleTime := timeNow\<rparr>)
       } else Some (None, l));
     (if LPF_SAMPLING_DELAY < timeNow - lpfSampleTime l then do {
         f \<leftarrow> lpf_sample (getVoltage adc2) f;
         Some (out, l\<lparr>lpfSampleTime := timeNow\<rparr>, f)
       } else Some (out, l, f))
   }"

definition resetLuminaire :: "luminaire \<Rightarrow> luminaire" where
  "resetLuminaire l =
     setOccupied False (l\<lparr>lastSampleTime := 0, lpfSampleTime := 0, systemGain := f_int 0,
       lum_controller := controllerReset (lum_controller l),
       luxRef := f_int 0, luxRefAfterConsensus := f_int 0,
       luxOccupied := f_int 100, luxNonOccupied := f_int 30\<rparr>)"

subsection \<open>The measured voltage\<close>

lemma getVoltage_bound: "is_fin (getVoltage adc)" "0 \<le> fval (getVoltage adc)" "fval (getVoltage adc) \<le> 5"
proof -
  have lt: "uint adc < 1024" using uint_lt2p [of adc] by simp
  have n: "0 \<le> uint adc" by simp
  have v: "fval (f_int (uint adc * 5)) = uint adc * 5" "is_fin (f_int (uint adc * 5))"
    "fval (f_int 1024) = 1024" "is_fin (f_int 1024)"
    using lt n f_int_facts [of "uint adc * 5"] by (simp_all add: f_int_facts)
  have r: "real_of_int (uint adc) \<le> 1023" "0 \<le> real_of_int (uint adc)" using lt n by linarith+
  have q: "\<bar>fval (f_int (uint adc * 5)) / fval (f_int 1024)\<bar> < 2 ^ 100" using r v by simp
  note e = f_divide_error [OF v(2,4) _ q]
  show fin: "is_fin (getVoltage adc)" using e(1) v by (simp add: getVoltage_def)
  have neg: "f_neg (getVoltage adc) = False"
  proof -
    have "f_neg (f_int (uint adc * 5)) = False" "f_neg (f_int 1024) = False"
      using n by (simp_all add: f_int_def)
    moreover have "f_mag (f_int 1024) \<noteq> 0" using v(3) by (simp flip: fval_eq_0_iff)
    ultimately show ?thesis using v by (simp add: getVoltage_def f_divide_finite)
  qed
  show "0 \<le> fval (getVoltage adc)" by (simp add: fval_signed neg signed_def)
  have "max (1 / 2 ^ 150) (\<bar>real_of_int (uint adc * 5) / 1024\<bar> / 2 ^ 24) \<le> 1 / 2 ^ 20"
    using r by simp
  then have "\<bar>fval (getVoltage adc) - real_of_int (uint adc * 5) / 1024\<bar> \<le> 1 / 2 ^ 20"
    using e(2) v by (simp add: getVoltage_def)
  then have "fval (getVoltage adc) \<le> real_of_int (uint adc * 5) / 1024 + 1 / 2 ^ 20"
    by linarith
  also have "\<dots> \<le> 5" using r by simp
  finally show "fval (getVoltage adc) \<le> 5" .
qed

subsection \<open>The control step\<close>

text \<open>A voltage error of at most 0.01 is ignored: the controller sees exactly 0.\<close>

theorem control_deadband:
  assumes "f_abs (simulate m timeNow (simulator l) - getVoltage adc) \<le> f_dec 1 100"
  shows "control_error m timeNow adc l = f_int 0"
  using assms by (simp add: control_error_def Let_def)

definition libm_example :: libm where
  "libm_example = \<lparr>powf = (\<lambda>_ _. F32 0x3F800000), log10f = (\<lambda>_. F32 0x3F800000),
     logf = (\<lambda>_. F32 0x3F800000), expf = (\<lambda>_. F32 0x3F800000)\<rparr>"

lemma example_voltage: "getVoltage 0 = F32 0"
  by (simp add: getVoltage_def f_eval)

lemma example_simulated: "simulate libm_example t (simulator luminaire_boot) = F32 0"
  by (simp add: simulate_def libm_example_def luminaire_boot_def f_eval)

lemma example_error_small:
  "f_abs (simulate libm_example t (simulator luminaire_boot) - getVoltage 0) \<le> f_dec 1 100"
  unfolding example_simulated example_voltage by (simp add: f_eval)

theorem control_deadband_witness:
  "control_error libm_example 10000 0 luminaire_boot = f_int 0"
  by (rule control_deadband [OF example_error_small])

text \<open>The duty value a pass of the loop writes to the LED is between 0 and 255, it is written only
  when 10 ms have passed since the last control step, and then the step is recorded.\<close>

theorem luminaire_loop_writes_duty:
  assumes "luminaire_loop m now adc1 adc2 res l f = Some (Some pwm, l', f')"
  shows "0 \<le> pwm \<and> pwm \<le> 255 \<and> CONTROL_DELAY \<le> now - lastSampleTime l \<and>
     lastSampleTime l' = now \<and> measuredVoltage l' = getVoltage adc1"
proof -
  have "\<exists>err t c'. calc err t (luxRefAfterConsensus l) (systemGain l) res (lum_controller l)
      = Some (pwm, c')"
    using assms
    by (auto simp: luminaire_loop_def control_def Let_def bind_eq_Some_conv split: if_splits)
  then have "0 \<le> pwm \<and> pwm \<le> 255" using calc_range_aux by blast
  then show ?thesis
    using assms
    by (auto simp: luminaire_loop_def control_def Let_def bind_eq_Some_conv split: if_splits)
qed


definition luminaire_running :: luminaire where
  "luminaire_running = luminaire_boot\<lparr>systemGain := f_int 1, luxRefAfterConsensus := f_int 100\<rparr>"

lemma luminaire_loop_example:
  "\<exists>l' f'. luminaire_loop libm_example 10000 0 0 (f_int 0) luminaire_running lpf_init
     = Some (Some 100, l', f')"
proof -
  have err: "control_error libm_example t 0 l = f_int 0" if "simulator l = simulator luminaire_boot" for t l
    using example_error_small by (simp add: control_error_def that Let_def)
  have uff: "f_to_i16 ((f_int 100 - f_int 0) / f_int 1) = Some 100" by (simp add: f_eval f_to_i16_def)
  have up: "f_int KP * f_int 0 = F32 0" by (simp add: f_eval KP_def)
  have gain: "f_int KI / f_int 1000000 = F32 0x3AC49BA6" by (simp add: f_eval KI_def)
  have ui: "calc_ui (ctl_ui controller_init) 0 (f_int 0) = F32 0"
    unfolding calc_ui_def gain by (simp add: f_eval controller_init_def f_ulong_def)
  have sum: "f_int 100 + F32 0 + F32 0 = f_int 100" by (simp add: f_eval)
  have cmp: "\<not> f_int 255 < f_int 100" "\<not> f_int 100 < f_int 0"
    by (simp_all add: f_less_fval f_int_facts)
  have calc: "\<exists>c. calc (f_int 0) 0 (f_int 100) (f_int 1) (f_int 0) controller_init = Some (100, c)"
    by (simp add: calc_def uff up ui sum cmp f_to_i16_f_int)
  have sim: "simulator luminaire_running = simulator luminaire_boot"
    "lum_controller luminaire_running = controller_init" "systemGain luminaire_running = f_int 1"
    "luxRefAfterConsensus luminaire_running = f_int 100" "lastSampleTime luminaire_running = 0"
    "lpfSampleTime luminaire_running = 0"
    by (simp_all add: luminaire_running_def luminaire_boot_def)
  show ?thesis
    using calc
    by (auto simp: luminaire_loop_def control_def Let_def err sim CONTROL_DELAY_def
        LPF_SAMPLING_DELAY_def lpf_sample_def lpf_init_def aset_def LPF_TOTAL_SAMPLES_def)
qed

theorem luminaire_loop_writes_duty_witness:
  "\<exists>l' f'. luminaire_loop libm_example 10000 0 0 (f_int 0) luminaire_running lpf_init
     = Some (Some 100, l', f') \<and> (0 :: int) \<le> 100 \<and> lastSampleTime l' = 10000"
proof -
  obtain l' f' where run: "luminaire_loop libm_example 10000 0 0 (f_int 0) luminaire_running lpf_init
      = Some (Some 100, l', f')" using luminaire_loop_example by blast
  show ?thesis using run luminaire_loop_writes_duty [OF run] by auto
qed

end
