(* ===== verification/Calibration.thy ===== *)
theory Calibration
  imports Duty_Wire Luminaire
begin

text \<open>
  The calibration state machine of \<open>calibrationFSM.cpp\<close>: every node measures its residual illuminance,
  then the LEDs are turned on one after the other at two duty cycles, and each node computes its
  gain with respect to the lit LED and broadcasts it. The readings of \<open>micros()\<close> and of the LDR are
  arguments of the steps: \<open>now\<close> the time at the start of \<open>loop\<close>, \<open>now2\<close> the one \<open>setState\<close> stores.
\<close>

text \<open>What is fixed for a node: the mathematics library, the CAN driver and its id.\<close>

record node_env =
  env_libm :: libm
  env_drv :: driver
  nodeId :: u8

datatype calibration_state = CalibInit | WaitReady | WaitLedOn | WaitTransient

record calibration =
  cal_state :: calibration_state
  nodeLedOn :: int
  luxReadNum :: int
  cal_pwm :: "u16 list"
  luxReads :: "f32 list"
  cal_lastTransitionTime :: u32
  numNodesReady :: u16
  otherNodeLedOn :: bool
  gainMatrix :: "f32 list list"
  residualArray :: "f32 list"
  cal_done :: bool

text \<open>The static object after its constructor; \<open>nodeLedOn\<close> is not set there and static storage is 0.\<close>

definition calibration_init :: calibration where
  "calibration_init = \<lparr>cal_state = CalibInit, nodeLedOn = 0, luxReadNum = 0, cal_pwm = [20, 240],
     luxReads = [f_int 0, f_int 0], cal_lastTransitionTime = 0, numNodesReady = 0,
     otherNodeLedOn = False, gainMatrix = replicate MAX_NUM_NODES (replicate MAX_NUM_NODES (f_int 0)),
     residualArray = replicate MAX_NUM_NODES (f_int 0), cal_done = False\<rparr>"

subsection \<open>Operations\<close>

definition cal_setState :: "calibration_state \<Rightarrow> u32 \<Rightarrow> calibration \<Rightarrow> calibration" where
  "cal_setState st now c = c\<lparr>cal_state := st, cal_lastTransitionTime := now\<rparr>"

definition incrementNodesReady :: "calibration \<Rightarrow> calibration" where
  "incrementNodesReady c = c\<lparr>numNodesReady := numNodesReady c + 1\<rparr>"

definition setGain :: "u8 \<Rightarrow> u8 \<Rightarrow> f32 \<Rightarrow> calibration \<Rightarrow> calibration option" where
  "setGain i j gain c = do {
     g \<leftarrow> matrix_set (gainMatrix c) (unat i) (unat j) gain;
     Some (c\<lparr>gainMatrix := g\<rparr>)
   }"

definition gain_index :: "registry \<Rightarrow> u8 \<Rightarrow> u8 option" where
  "gain_index r nid = aget (nodeIndexOnGainMatrix r) (unat nid)"

definition runStateInit ::
    "node_env \<Rightarrow> registry \<Rightarrow> luminaire \<Rightarrow> adc \<Rightarrow> u32 \<Rightarrow> io \<Rightarrow> calibration \<Rightarrow> (io \<times> calibration) option" where
  "runStateInit e r l adc now2 s c = do {
     let residualReading = voltageToLux (env_libm e) l (getVoltage adc);
     let s = emit [SerialPrintFloat residualReading 2, SerialNewline] s;
     i \<leftarrow> gain_index r (nodeId e);
     res \<leftarrow> aset (residualArray c) (unat i) residualReading;
     let c = c\<lparr>residualArray := res\<rparr>;
     let s = sendCalibReady (env_drv e) (nodeId e) residualReading s;
     let c = incrementNodesReady c;
     let c = c\<lparr>nodeLedOn := -1\<rparr>;
     Some (s, cal_setState WaitReady now2 c)
   }"

text \<open>The next LED and reading number, when all nodes are ready.\<close>

definition next_reading :: "calibration \<Rightarrow> calibration option" where
  "next_reading c =
     (if nodeLedOn c = -1 \<or> luxReadNum c = 2
      then do { k \<leftarrow> i16_inc (nodeLedOn c); Some (c\<lparr>nodeLedOn := k, luxReadNum := 0\<rparr>) }
      else Some c)"

definition runStateWaitReady ::
    "node_env \<Rightarrow> registry \<Rightarrow> u32 \<Rightarrow> io \<Rightarrow> calibration \<Rightarrow> (io \<times> calibration) option" where
  "runStateWaitReady e r now2 s c = do {
     let s = emit [AnalogWrite 0] s;
     (if numNodesReady c = ucast (numTotalNodes r) then do {
        let c = c\<lparr>numNodesReady := 0\<rparr>;
        c \<leftarrow> next_reading c;
        (if int (node_count r) \<le> nodeLedOn c then Some (s, c\<lparr>cal_done := True\<rparr>)
         else if nodeLedOn c < 0 then None
         else do {
           nid \<leftarrow> aget (nodesList r) (nat (nodeLedOn c));
           (if nid = nodeId e then do {
              duty \<leftarrow> (if luxReadNum c < 0 then None else aget (cal_pwm c) (nat (luxReadNum c)));
              let s = emit [AnalogWrite (uint duty)] s;
              let s = sendCalibLedOn (env_drv e) (nodeId e) s;
              Some (s, cal_setState WaitTransient now2 c)
            } else Some (s, cal_setState WaitLedOn now2 c))
         })
      } else Some (s, c))
   }"

definition runStateWaitLedOn :: "u32 \<Rightarrow> calibration \<Rightarrow> calibration" where
  "runStateWaitLedOn now2 c =
     (if otherNodeLedOn c
      then cal_setState WaitTransient now2 (c\<lparr>otherNodeLedOn := False\<rparr>)
      else c)"

text \<open>One reading: \<open>luxReads[luxReadNum]\<close> gets the illuminance less \<open>residualArray[nodeId]\<close>.\<close>

definition take_reading ::
    "node_env \<Rightarrow> luminaire \<Rightarrow> adc \<Rightarrow> calibration \<Rightarrow> calibration option" where
  "take_reading e l adc c = do {
     res \<leftarrow> aget (residualArray c) (unat (nodeId e));
     reads \<leftarrow> (if luxReadNum c < 0 then None
        else aset (luxReads c) (nat (luxReadNum c)) (voltageToLux (env_libm e) l (getVoltage adc) - res));
     k \<leftarrow> i16_inc (luxReadNum c);
     Some (c\<lparr>luxReads := reads, luxReadNum := k\<rparr>)
   }"

definition measured_gain :: "calibration \<Rightarrow> f32" where
  "measured_gain c =
     (luxReads c ! 1 - luxReads c ! 0) / f_int (uint (cal_pwm c ! 1 - cal_pwm c ! 0))"

definition runStateWaitTrasient ::
    "node_env \<Rightarrow> registry \<Rightarrow> luminaire \<Rightarrow> adc \<Rightarrow> u32 \<Rightarrow> u32 \<Rightarrow> io \<Rightarrow> calibration
       \<Rightarrow> (io \<times> calibration) option" where
  "runStateWaitTrasient e r l adc timeSinceLastTransition now2 s c =
     (if 1000000 < timeSinceLastTransition then do {
        c \<leftarrow> take_reading e l adc c;
        (gain, c) \<leftarrow> (if luxReadNum c = 2 then do {
             i \<leftarrow> gain_index r (nodeId e);
             c' \<leftarrow> setGain i (word_of_int (nodeLedOn c)) (measured_gain c) c;
             Some (measured_gain c, c')
           } else Some (f_int (-1), c));
        let s = sendCalibReady (env_drv e) (nodeId e) gain s;
        Some (s, cal_setState WaitReady now2 (incrementNodesReady c))
      } else Some (s, c))"

definition calib_loop ::
    "node_env \<Rightarrow> registry \<Rightarrow> luminaire \<Rightarrow> adc \<Rightarrow> u32 \<Rightarrow> u32 \<Rightarrow> io \<Rightarrow> calibration
       \<Rightarrow> (io \<times> calibration) option" where
  "calib_loop e r l adc now now2 s c =
     (let timeSinceLastTransition = now - cal_lastTransitionTime c in
      case cal_state c of
        CalibInit \<Rightarrow> runStateInit e r l adc now2 s c
      | WaitReady \<Rightarrow> runStateWaitReady e r now2 s c
      | WaitLedOn \<Rightarrow> Some (s, runStateWaitLedOn now2 c)
      | WaitTransient \<Rightarrow> runStateWaitTrasient e r l adc timeSinceLastTransition now2 s c)"

definition receivedGainOrResidual :: "registry \<Rightarrow> u8 \<Rightarrow> f32 \<Rightarrow> calibration \<Rightarrow> calibration option" where
  "receivedGainOrResidual r sender v c = do {
     i \<leftarrow> gain_index r sender;
     (if nodeLedOn c = -1
      then do { res \<leftarrow> aset (residualArray c) (unat i) v; Some (c\<lparr>residualArray := res\<rparr>) }
      else setGain i (word_of_int (nodeLedOn c)) v c)
   }"

text \<open>The \<open>CAN_CALIB_READY\<close> branch of \<open>Communication::received\<close>.\<close>

definition calib_ready_frame :: "registry \<Rightarrow> u8 \<Rightarrow> u8 list \<Rightarrow> calibration \<Rightarrow> calibration option" where
  "calib_ready_frame r sender data c = do {
     gainValue \<leftarrow> float_of_bytes data;
     c \<leftarrow> (if f_int 0 \<le> gainValue then receivedGainOrResidual r sender gainValue c else Some c);
     Some (incrementNodesReady c)
   }"

fun clear_rows :: "nat \<Rightarrow> nat list \<Rightarrow> f32 list list \<times> f32 list \<Rightarrow> (f32 list list \<times> f32 list) option" where
  "clear_rows n [] s = Some s"
| "clear_rows n (i # js) (g, res) = do {
     row \<leftarrow> aget g i;
     row' \<leftarrow> fill_checked n (f_int 0) row;
     g' \<leftarrow> aset g i row';
     res' \<leftarrow> aset res i (f_int 0);
     clear_rows n js (g', res')
   }"

definition resetCalib :: "nat \<Rightarrow> calibration \<Rightarrow> calibration option" where
  "resetCalib n c = do {
     let c = c\<lparr>cal_state := CalibInit, numNodesReady := 0, luxReadNum := 0, cal_pwm := [20, 240],
       luxReads := [f_int 0, f_int 0], otherNodeLedOn := False, cal_done := False\<rparr>;
     (g, res) \<leftarrow> clear_rows n [0..<n] (gainMatrix c, residualArray c);
     Some (c\<lparr>gainMatrix := g, residualArray := res\<rparr>)
   }"

text \<open>\<open>printResidualAndGainMatrix\<close>: the debug output, with 8 decimals.\<close>

fun print_row :: "string \<Rightarrow> f32 list \<Rightarrow> nat list \<Rightarrow> effect list option" where
  "print_row sep row [] = Some []"
| "print_row sep row (j # js) = do {
     v \<leftarrow> aget row j;
     rest \<leftarrow> print_row sep row js;
     Some (SerialPrint sep # SerialPrintFloat v 8 # rest)
   }"

fun print_rows :: "nat \<Rightarrow> f32 list list \<Rightarrow> nat list \<Rightarrow> effect list option" where
  "print_rows n g [] = Some []"
| "print_rows n g (i # js) = do {
     row \<leftarrow> aget g i;
     line \<leftarrow> print_row [CHR 0x09, CHR 0x09] row [0..<n];
     rest \<leftarrow> print_rows n g js;
     Some (SerialPrint [CHR 0x0A] # SerialNewline # line @ rest)
   }"

definition printResidualAndGainMatrix :: "nat \<Rightarrow> calibration \<Rightarrow> effect list option" where
  "printResidualAndGainMatrix n c = do {
     a \<leftarrow> print_row [CHR 0x09] (residualArray c) [0..<n];
     b \<leftarrow> print_rows n (gainMatrix c) [0..<n];
     Some ([SerialPrint ''Residual:'', SerialNewline] @ a @
       [SerialPrint (CHR 0x0A # ''Gains:''), SerialNewline] @ b)
   }"

subsection \<open>Memory safety\<close>

lemma gain_index_member:
  assumes "registry_ok r" "nid \<in> set (members r)"
  shows "\<exists>i. gain_index r nid = Some i \<and> unat i < node_count r \<and> members r ! unat i = nid"
proof -
  obtain k where k: "k < length (members r)" "members r ! k = nid"
    using assms(2) by (auto simp: in_set_conv_nth)
  have len: "length (members r) = node_count r" "node_count r \<le> 7"
    "length (nodeIndexOnGainMatrix r) = 21"
    using assms(1)
    by (auto simp: registry_ok_def registry_shape_def members_def MAX_NUM_NODES_def MAX_NODE_ID_def)
  have "valid_id nid" using assms by (auto simp: registry_ok_def registry_shape_def list_all_iff)
  then have "unat nid < 21" by (simp add: valid_id_def MAX_NODE_ID_def)
  moreover have "nodeIndexOnGainMatrix r ! unat nid = of_nat k"
    using assms(1) k len by (auto simp: registry_ok_def)
  moreover have "unat (of_nat k :: u8) = k" using k len by (simp add: unat_of_nat)
  ultimately show ?thesis using k len by (auto simp: gain_index_def aget_def)
qed

text \<open>
  The invariant of the machine, for a node count \<open>n\<close>: the arrays have their declared sizes and the
  LED and reading counters point into them in the states that use them.
\<close>

definition calib_ok :: "nat \<Rightarrow> calibration \<Rightarrow> bool" where
  "calib_ok n c \<longleftrightarrow>
     matrix_shape MAX_NUM_NODES MAX_NUM_NODES (gainMatrix c) \<and>
     length (residualArray c) = MAX_NUM_NODES \<and> length (luxReads c) = 2 \<and> cal_pwm c = [20, 240] \<and>
     -1 \<le> nodeLedOn c \<and> nodeLedOn c \<le> int MAX_NUM_NODES \<and>
     (case cal_state c of
        CalibInit \<Rightarrow> luxReadNum c = 0
      | WaitReady \<Rightarrow> (nodeLedOn c \<le> int n \<and> luxReadNum c = 0) \<or>
          (0 \<le> nodeLedOn c \<and> nodeLedOn c < int n \<and> luxReadNum c \<in> {1, 2})
      | _ \<Rightarrow> 0 \<le> nodeLedOn c \<and> nodeLedOn c < int n \<and> luxReadNum c \<in> {0, 1})"

lemma calib_init_ok: "calib_ok n calibration_init"
  by (simp add: calib_ok_def calibration_init_def matrix_shape_def MAX_NUM_NODES_def list_all_length)

lemmas calib_ops = cal_setState_def incrementNodesReady_def next_reading_def setGain_def
  take_reading_def i16_inc_def in_i16_def

definition calib_env :: "node_env \<Rightarrow> registry \<Rightarrow> u8 \<Rightarrow> bool" where
  "calib_env e r i \<longleftrightarrow> registry_ok r \<and> gain_index r (nodeId e) = Some i \<and> unat i < node_count r"

lemma calib_env_member:
  "registry_ok r \<Longrightarrow> nodeId e \<in> set (members r) \<Longrightarrow> \<exists>i. calib_env e r i"
  using gain_index_member by (fastforce simp: calib_env_def)

lemma count_bounds:
  assumes "calib_env e r i"
  shows "node_count r \<le> 7" "length (nodesList r) = 7" "unat i < 7"
    "uint (numTotalNodes r) \<le> 7" "- 1 \<le> uint (numTotalNodes r)"
    "gain_index r (nodeId e) = Some i" "registry_ok r"
proof -
  show n: "node_count r \<le> 7" and "length (nodesList r) = 7"
    using assms unfolding calib_env_def registry_ok_def registry_shape_def MAX_NUM_NODES_def by blast+
  show "unat i < 7" "gain_index r (nodeId e) = Some i" "registry_ok r"
    using assms n by (simp_all add: calib_env_def)
  have "int (node_count r) \<le> 7" using n by linarith
  then show "uint (numTotalNodes r) \<le> 7" by simp
  show "- 1 \<le> uint (numTotalNodes r)" by (rule order_trans [of _ 0]) simp_all
qed

lemma init_safe:
  assumes env: "calib_env e r i" and "calib_ok (node_count r) c" "cal_state c = CalibInit"
  shows "\<exists>s' c'. runStateInit e r l adc now2 s c = Some (s', c') \<and> calib_ok (node_count r) c' \<and>
     nodeLedOn c' = -1 \<and> luxReadNum c' = 0 \<and> cal_state c' = WaitReady \<and> cal_done c' = cal_done c"
  using assms count_bounds [OF env]
  by (auto simp: runStateInit_def calib_ops calib_ok_def aset_def MAX_NUM_NODES_def Let_def)

lemma next_reading_safe:
  assumes "calib_ok n c" "cal_state c = WaitReady" "n \<le> 7"
  shows "\<exists>c1. next_reading c = Some c1 \<and> calib_ok n c1 \<and> cal_state c1 = WaitReady \<and>
     luxReadNum c1 \<in> {0, 1} \<and> 0 \<le> nodeLedOn c1"
  using assms
  by (auto simp: next_reading_def i16_inc_def in_i16_def calib_ok_def MAX_NUM_NODES_def)

lemma wait_ready_safe:
  assumes env: "calib_env e r i" and "calib_ok (node_count r) c" "cal_state c = WaitReady"
  shows "\<exists>s' c'. runStateWaitReady e r now2 s c = Some (s', c') \<and> calib_ok (node_count r) c'"
proof (cases "numNodesReady c = ucast (numTotalNodes r)")
  case False
  then show ?thesis using assms by (simp add: runStateWaitReady_def)
next
  case True
  let ?c0 = "c\<lparr>numNodesReady := 0\<rparr>"
  have "calib_ok (node_count r) ?c0" "cal_state ?c0 = WaitReady" using assms by (simp_all add: calib_ok_def)
  then obtain c1 where c1: "next_reading ?c0 = Some c1" "calib_ok (node_count r) c1"
    "cal_state c1 = WaitReady" "luxReadNum c1 \<in> {0, 1}" "0 \<le> nodeLedOn c1"
    using next_reading_safe count_bounds(1) [OF env] by blast
  show ?thesis
  proof (cases "int (node_count r) \<le> nodeLedOn c1")
    case last: True
    then show ?thesis using True c1 count_bounds(5) [OF env]
      by (simp add: runStateWaitReady_def calib_ok_def)
  next
    case more: False
    then have "nat (nodeLedOn c1) < 7" using count_bounds(4) [OF env] by simp
    then have nid: "aget (nodesList r) (nat (nodeLedOn c1)) = Some (nodesList r ! nat (nodeLedOn c1))"
      using count_bounds(2) [OF env] by (simp add: aget_in_bounds)
    have ok: "calib_ok (node_count r) (cal_setState st now2 c1)" if "st = WaitTransient \<or> st = WaitLedOn" for st
      using that c1(2,4,5) more by (auto simp: calib_ok_def cal_setState_def)
    have duty: "\<exists>d. aget (cal_pwm c1) (nat (luxReadNum c1)) = Some d" "\<not> luxReadNum c1 < 0"
      using c1(2,4) by (auto simp: aget_def calib_ok_def)
    then show ?thesis using True c1(1,5) more nid ok by (auto simp: runStateWaitReady_def Let_def)
  qed
qed

lemma wait_led_safe:
  assumes "calib_ok (node_count r) c" "cal_state c = WaitLedOn"
  shows "calib_ok (node_count r) (runStateWaitLedOn now2 c)"
  using assms by (auto simp: runStateWaitLedOn_def calib_ops calib_ok_def)

lemma led_word: "0 \<le> k \<Longrightarrow> k < 7 \<Longrightarrow> unat (word_of_int k :: u8) = nat k"
  by (simp add: unat_eq_nat_uint uint_word_of_int)

lemma transient_safe:
  assumes env: "calib_env e r i" and "calib_ok (node_count r) c" "cal_state c = WaitTransient" "unat (nodeId e) < MAX_NUM_NODES"
  shows "\<exists>s' c'. runStateWaitTrasient e r l adc t now2 s c = Some (s', c') \<and> calib_ok (node_count r) c'"
proof -
  have led: "0 \<le> nodeLedOn c" "nodeLedOn c < 7" using assms count_bounds [OF env] by (auto simp: calib_ok_def)
  have set: "matrix_set (gainMatrix c) (unat i) (unat (word_of_int (nodeLedOn c) :: u8)) v
      = Some ((gainMatrix c)[unat i := (gainMatrix c ! unat i)[nat (nodeLedOn c) := v]])"
    "matrix_shape 7 7 ((gainMatrix c)[unat i := (gainMatrix c ! unat i)[nat (nodeLedOn c) := v]])" for v
    using matrix_set_in_bounds [of 7 7 "gainMatrix c" "unat i" "nat (nodeLedOn c)" v]
      matrix_set_shape [of 7 7 "gainMatrix c" "unat i" "nat (nodeLedOn c)" v] assms led count_bounds [OF env]
    by (auto simp: led_word calib_ok_def MAX_NUM_NODES_def)
  show ?thesis
    using assms led count_bounds [OF env] set
    by (auto simp: runStateWaitTrasient_def calib_ops calib_ok_def aget_def aset_def
        MAX_NUM_NODES_def Let_def)
qed

lemma calib_loop_safe_aux:
  assumes env: "calib_env e r i" and "calib_ok (node_count r) c" "unat (nodeId e) < MAX_NUM_NODES"
  shows "\<exists>s' c'. calib_loop e r l adc now now2 s c = Some (s', c') \<and> calib_ok (node_count r) c'"
proof (cases "cal_state c")
  case CalibInit
  then show ?thesis using init_safe [OF env assms(2), of l adc now2 s] by (auto simp: calib_loop_def)
next
  case WaitReady
  then show ?thesis using wait_ready_safe [OF env assms(2), of now2 s] by (simp add: calib_loop_def)
next
  case WaitLedOn
  then show ?thesis using wait_led_safe [OF assms(2), of now2] by (simp add: calib_loop_def)
next
  case WaitTransient
  then show ?thesis using transient_safe [OF env assms(2) _ assms(3)] by (simp add: calib_loop_def)
qed


definition env_example :: node_env where
  "env_example = \<lparr>env_libm = libm_example, env_drv = (\<lambda>_ _. 0), nodeId = 2\<rparr>"


text \<open>C33. A node whose id is 7 or more never completes a measurement: the residual is taken at the
  node id instead of at its index, outside \<open>residualArray\<close>.\<close>

theorem calib_large_id_undefined:
  assumes "MAX_NUM_NODES \<le> unat (nodeId e)" "length (residualArray c) = MAX_NUM_NODES"
    and "cal_state c = WaitTransient" "1000000 < now - cal_lastTransitionTime c"
  shows "calib_loop e r l adc now now2 s c = None"
  using assms by (simp add: calib_loop_def runStateWaitTrasient_def take_reading_def aget_def)

theorem calib_large_id_undefined_witness:
  "calib_loop (env_example\<lparr>nodeId := 9\<rparr>) registry_example luminaire_running 300 2000000 2000001 io_boot
     (calibration_init\<lparr>cal_state := WaitTransient\<rparr>) = None"
  by (rule calib_large_id_undefined)
    (simp_all add: MAX_NUM_NODES_def calibration_init_def word_less_nat_alt)

subsection \<open>The number of measurements\<close>

text \<open>What can happen to the calibration of a node: a pass of \<open>loop\<close>, a ready frame, a LED-on frame.\<close>

datatype calib_event =
    Pass adc u32 u32
  | ReadyFrame u8 "u8 list"
  | LedOnFrame

fun calib_step :: "node_env \<Rightarrow> registry \<Rightarrow> luminaire \<Rightarrow> calib_event \<Rightarrow> io \<times> calibration \<Rightarrow>
    (io \<times> calibration) option" where
  "calib_step e r l (Pass adc now now2) (s, c) = calib_loop e r l adc now now2 s c"
| "calib_step e r l (ReadyFrame sender data) (s, c) =
     do { c \<leftarrow> calib_ready_frame r sender data c; Some (s, c) }"
| "calib_step e r l LedOnFrame (s, c) = Some (s, c\<lparr>otherNodeLedOn := True\<rparr>)"

fun calib_run :: "node_env \<Rightarrow> registry \<Rightarrow> luminaire \<Rightarrow> calib_event list \<Rightarrow> io \<times> calibration \<Rightarrow>
    (io \<times> calibration) option" where
  "calib_run e r l [] sc = Some sc"
| "calib_run e r l (ev # evs) sc = do { sc \<leftarrow> calib_step e r l ev sc; calib_run e r l evs sc }"

text \<open>The ready messages a node has put on the bus.\<close>

definition ready_count :: "io \<Rightarrow> nat" where
  "ready_count s = length (filter (\<lambda>f. id_type (can_id f) = CAN_CALIB_READY) (sent_frames (log s)))"

lemma send_message_simps [simp]:
  "sent_frames (log (send_message drv i dlc bs s)) = sent_frames (log s) @ [sendingFrame (send_message drv i dlc bs s)]"
  "can_id (sendingFrame (send_message drv i dlc bs s)) = i"
  by (simp_all add: send_message_def put_data_def)

lemma ready_count_simps [simp]:
  "ready_count (sendCalibReady drv n v s) = Suc (ready_count s)"
  "ready_count (sendCalibLedOn drv n s) = ready_count s"
  "ready_count (emit [SerialPrintFloat v k, SerialNewline] s) = ready_count s"
  "ready_count (emit [AnalogWrite d] s) = ready_count s"
  by (simp_all add: ready_count_def sendCalibReady_def sendCalibLedOn_def id_fields can_types)
    (simp_all add: sent_frames_def emit_def)

text \<open>The position in the schedule: two readings for each LED.\<close>

definition position :: "calibration \<Rightarrow> int" where
  "position c = (if nodeLedOn c = -1 then 0 else 2 * nodeLedOn c + luxReadNum c)"

definition schedule_inv :: "nat \<Rightarrow> nat \<Rightarrow> io \<times> calibration \<Rightarrow> bool" where
  "schedule_inv n start sc \<longleftrightarrow> (case sc of (s, c) \<Rightarrow>
     calib_ok n c \<and>
     (cal_state c = CalibInit \<longrightarrow> \<not> cal_done c \<and> ready_count s = start) \<and>
     (cal_state c \<noteq> CalibInit \<longrightarrow> int (ready_count s) = int start + 1 + position c) \<and>
     (cal_done c \<longrightarrow> cal_state c = WaitReady \<and> nodeLedOn c = int n \<and> luxReadNum c = 0))"

lemma received_gain_kept:
  assumes "receivedGainOrResidual r sender v c = Some c'"
  shows "\<exists>g res. c' = c\<lparr>gainMatrix := g, residualArray := res\<rparr> \<and> length res = length (residualArray c) \<and>
     (matrix_shape a b (gainMatrix c) \<longrightarrow> matrix_shape a b g)"
proof (cases "nodeLedOn c = -1")
  case True
  then show ?thesis
    using assms by (auto simp: receivedGainOrResidual_def bind_eq_Some_conv aset_Some_iff
        intro!: exI [of _ "gainMatrix c"])
next
  case False
  then obtain i g where "matrix_set (gainMatrix c) i (unat (word_of_int (nodeLedOn c) :: u8)) v = Some g"
    "c' = c\<lparr>gainMatrix := g\<rparr>"
    using assms by (auto simp: receivedGainOrResidual_def setGain_def bind_eq_Some_conv)
  then show ?thesis
    by (intro exI [of _ g] exI [of _ "residualArray c"]) (auto dest: matrix_set_shape)
qed

lemma calib_frame_kept:
  assumes "calib_ready_frame r sender data c = Some c'"
  shows "\<exists>g res. c' = c\<lparr>gainMatrix := g, residualArray := res, numNodesReady := numNodesReady c + 1\<rparr> \<and>
     length res = length (residualArray c) \<and> (matrix_shape a b (gainMatrix c) \<longrightarrow> matrix_shape a b g)"
proof -
  obtain v c1 where c1: "(if f_int 0 \<le> v then receivedGainOrResidual r sender v c else Some c) = Some c1"
    and c': "c' = incrementNodesReady c1"
    using assms by (auto simp: calib_ready_frame_def bind_eq_Some_conv)
  have "\<exists>g res. c1 = c\<lparr>gainMatrix := g, residualArray := res\<rparr> \<and> length res = length (residualArray c) \<and>
     (matrix_shape a b (gainMatrix c) \<longrightarrow> matrix_shape a b g)"
  proof (cases "f_int 0 \<le> v")
    case True
    then show ?thesis using received_gain_kept c1 by simp
  next
    case False
    then show ?thesis using c1 by (auto intro!: exI [of _ "gainMatrix c"] exI [of _ "residualArray c"])
  qed
  then obtain g res where "c1 = c\<lparr>gainMatrix := g, residualArray := res\<rparr>"
    "length res = length (residualArray c) \<and> (matrix_shape a b (gainMatrix c) \<longrightarrow> matrix_shape a b g)"
    by blast
  then show ?thesis by (intro exI [of _ g] exI [of _ res]) (simp add: c' incrementNodesReady_def)
qed

lemma calib_frame_ok:
  assumes "calib_ready_frame r sender data c = Some c'"
  shows "cal_state c' = cal_state c \<and> nodeLedOn c' = nodeLedOn c \<and> luxReadNum c' = luxReadNum c \<and>
    cal_done c' = cal_done c \<and> (calib_ok n c \<longrightarrow> calib_ok n c')"
  using calib_frame_kept [OF assms, of MAX_NUM_NODES MAX_NUM_NODES] by (cases "cal_state c") (auto simp: calib_ok_def)

lemma init_schedule:
  assumes "runStateInit e r l adc now2 s c = Some (s', c')" "schedule_inv n start (s, c)"
    "cal_state c = CalibInit"
  shows "cal_state c' = WaitReady \<and> \<not> cal_done c' \<and> nodeLedOn c' = -1 \<and> ready_count s' = start + 1"
  using assms
  by (auto simp: runStateInit_def Let_def bind_eq_Some_conv schedule_inv_def calib_ops)

lemma next_reading_position:
  assumes "next_reading c = Some c'" "nodeLedOn c = -1 \<Longrightarrow> luxReadNum c = 0" "- 1 \<le> nodeLedOn c"
  shows "position c' = position c" "cal_done c' = cal_done c" "cal_state c' = cal_state c"
    "luxReadNum c' = 0 \<or> nodeLedOn c' = nodeLedOn c \<and> luxReadNum c' = luxReadNum c"
    "luxReadNum c' \<noteq> 2"
    "nodeLedOn c' = nodeLedOn c \<or> (nodeLedOn c = -1 \<or> luxReadNum c = 2) \<and> nodeLedOn c' = nodeLedOn c + 1"
  using assms
  by (auto simp: next_reading_def i16_inc_def bind_eq_Some_conv position_def split: if_splits)

lemma wait_ready_facts:
  assumes "schedule_inv n start (s, c)" "cal_state c = WaitReady"
  shows "nodeLedOn c = -1 \<Longrightarrow> luxReadNum c = 0" "nodeLedOn c \<le> int n" "- 1 \<le> nodeLedOn c"
    "luxReadNum c = 2 \<Longrightarrow> nodeLedOn c < int n" "luxReadNum c \<in> {1, 2} \<Longrightarrow> nodeLedOn c < int n"
    "cal_done c \<Longrightarrow> nodeLedOn c = int n \<and> luxReadNum c = 0" "luxReadNum c \<in> {0, 1, 2}"
  using assms by (auto simp: schedule_inv_def calib_ok_def)

lemma wait_ready_schedule:
  assumes "runStateWaitReady e r now2 s c = Some (s', c')" "schedule_inv (node_count r) start (s, c)"
    "cal_state c = WaitReady"
  shows "cal_state c' \<noteq> CalibInit \<and> ready_count s' = ready_count s \<and> position c' = position c \<and>
     (cal_done c' \<longrightarrow> cal_state c' = WaitReady \<and> nodeLedOn c' = int (node_count r) \<and> luxReadNum c' = 0)"
proof (cases "numNodesReady c = ucast (numTotalNodes r)")
  case False
  then show ?thesis
    using assms(1,3) wait_ready_facts(6) [OF assms(2,3)] by (auto simp: runStateWaitReady_def)
next
  case True
  let ?c0 = "c\<lparr>numNodesReady := 0\<rparr>"
  obtain c1 where c1: "next_reading ?c0 = Some c1"
    using assms(1) True by (auto simp: runStateWaitReady_def Let_def bind_eq_Some_conv)
  have p0: "position ?c0 = position c" by (simp add: position_def)
  note f = wait_ready_facts [OF assms(2,3)]
  have n: "position c1 = position c" "cal_done c1 = cal_done c" "cal_state c1 = WaitReady"
    using next_reading_position(1-3) [OF c1] f(1,3) assms(3) p0 by simp_all
  have le: "nodeLedOn c1 \<le> int (node_count r)" "luxReadNum c1 \<noteq> 0 \<Longrightarrow> nodeLedOn c1 < int (node_count r)"
    using next_reading_position(4-6) [OF c1] f by auto
  show ?thesis
  proof (cases "int (node_count r) \<le> nodeLedOn c1")
    case last: True
    then have "c' = c1\<lparr>cal_done := True\<rparr>" "s' = emit [AnalogWrite 0] s"
      using assms(1) True c1 by (auto simp: runStateWaitReady_def)
    moreover from this have "position c' = position c1" by (simp add: position_def)
    ultimately show ?thesis using n le last by auto
  next
    case more: False
    have nd: "\<not> cal_done c1"
      using more n(2) f(6) order_trans [of "- 1" 0 "uint (numTotalNodes r)"] next_reading_position(4-6) [OF c1] f(1,4) by auto
    have "ready_count s' = ready_count s \<and>
      (c' = cal_setState WaitTransient now2 c1 \<or> c' = cal_setState WaitLedOn now2 c1)"
      using assms(1) True c1 more
      by (auto simp: runStateWaitReady_def Let_def bind_eq_Some_conv split: if_splits)
    then show ?thesis using n nd by (auto simp: cal_setState_def position_def)
  qed
qed

lemma transient_schedule:
  assumes "runStateWaitTrasient e r l adc t now2 s c = Some (s', c')" "0 \<le> nodeLedOn c"
    "cal_state c = WaitTransient"
  shows "cal_state c' \<noteq> CalibInit \<and> cal_done c' = cal_done c \<and>
     int (ready_count s') - position c' = int (ready_count s) - position c"
  using assms
  by (auto simp: runStateWaitTrasient_def Let_def bind_eq_Some_conv calib_ops position_def split: if_splits)

lemma calib_step_schedule:
  assumes "calib_step e r l ev (s, c) = Some (s', c')" "schedule_inv (node_count r) start (s, c)"
    and env: "calib_env e r i" and small: "unat (nodeId e) < MAX_NUM_NODES"
  shows "schedule_inv (node_count r) start (s', c')"
proof (cases ev)
  case (Pass adc now now2)
  then have run: "calib_loop e r l adc now now2 s c = Some (s', c')" using assms(1) by simp
  have ok: "calib_ok (node_count r) c'"
    using calib_loop_safe_aux [OF env _ small, of c l adc now now2 s] run assms(2)
    by (auto simp: schedule_inv_def)
  show ?thesis
  proof (cases "cal_state c")
    case CalibInit
    then show ?thesis
      using init_schedule [OF _ assms(2) CalibInit, of e r l adc now2] run ok
      by (simp add: calib_loop_def schedule_inv_def position_def)
  next
    case WaitReady
    then show ?thesis
      using wait_ready_schedule [OF _ assms(2) WaitReady, of e now2] run ok assms(2)
      by (auto simp: calib_loop_def schedule_inv_def)
  next
    case WaitLedOn
    then show ?thesis using run ok assms(2)
      by (auto simp: calib_loop_def schedule_inv_def runStateWaitLedOn_def calib_ops position_def
          split: if_splits)
  next
    case WaitTransient
    then show ?thesis
      using transient_schedule [OF _ _ WaitTransient,
          of e r l adc "now - cal_lastTransitionTime c" now2 s s' c'] run ok assms(2)
      by (auto simp: calib_loop_def schedule_inv_def calib_ok_def [of _ c])
  qed
next
  case (ReadyFrame sender data)
  then obtain f: "calib_ready_frame r sender data c = Some c'" and "s' = s"
    using assms(1) by (auto simp: bind_eq_Some_conv)
  then show ?thesis using assms(2) calib_frame_ok [OF f]
    by (simp add: schedule_inv_def position_def)
next
  case LedOnFrame
  then have "s' = s" "c' = c\<lparr>otherNodeLedOn := True\<rparr>" using assms(1) by auto
  then show ?thesis using assms(2)
    by (cases "cal_state c") (simp_all add: schedule_inv_def calib_ok_def position_def)
qed

lemma calib_run_schedule:
  assumes "calib_run e r l evs sc = Some sc'" "schedule_inv (node_count r) start sc"
    and env: "calib_env e r i" and small: "unat (nodeId e) < MAX_NUM_NODES"
  shows "schedule_inv (node_count r) start sc'"
  using assms(1,2)
proof (induction evs arbitrary: sc)
  case (Cons ev evs)
  obtain s c where sc: "sc = (s, c)" by (cases sc)
  obtain s1 c1 where "calib_step e r l ev (s, c) = Some (s1, c1)" "calib_run e r l evs (s1, c1) = Some sc'"
    using Cons.prems(1) by (auto simp: sc bind_eq_Some_conv)
  then show ?case using Cons.IH calib_step_schedule [OF _ _ env small] Cons.prems(2) sc by blast
qed simp

text \<open>C3. However passes and incoming frames interleave, a calibration that has ended went through the
  whole schedule: the node has sent its residual and exactly two readings for every node of the
  network, so it stands at the same point of the schedule as its peers.\<close>

theorem calib_done_complete:
  assumes "calib_run e r l evs (s, calibration_init) = Some (s', c')" "cal_done c'"
    and "registry_ok r" "nodeId e \<in> set (members r)" "unat (nodeId e) < MAX_NUM_NODES"
  shows "ready_count s' = ready_count s + 1 + 2 * node_count r \<and> nodeLedOn c' = int (node_count r)"
proof -
  obtain i where env: "calib_env e r i" using calib_env_member [OF assms(3,4)] by blast
  have "schedule_inv (node_count r) (ready_count s) (s, calibration_init)"
    by (simp add: schedule_inv_def calib_init_ok) (simp add: calibration_init_def)
  from calib_run_schedule [OF assms(1) this env assms(5)] assms(2)
  have "int (ready_count s') = int (ready_count s) + 1 + position c'" "nodeLedOn c' = int (node_count r)"
    "luxReadNum c' = 0"
    by (auto simp: schedule_inv_def)
  moreover from this have "nodeLedOn c' \<noteq> - 1" by linarith
  ultimately show ?thesis unfolding position_def by (simp only: if_False) linarith
qed

definition registry_single :: registry where
  "registry_single = \<lparr>nodesList = [2] @ replicate 6 0, nodeIndexOnGainMatrix = replicate 21 0,
     numTotalNodes = 1\<rparr>"

lemma registry_single_ok:
  "registry_ok registry_single" "members registry_single = [2]" "node_count registry_single = 1"
  by (auto simp: registry_ok_def registry_shape_def members_def registry_single_def valid_id_def
      MAX_NUM_NODES_def MAX_NODE_ID_def)

lemma calib_run_example:
  "\<exists>s' c'. calib_run env_example registry_single luminaire_running
     [Pass 300 0 0, Pass 300 10 10, Pass 300 1000011 1000012, Pass 300 1000013 1000014,
      Pass 300 3000000 3000001, Pass 300 3000002 3000003] (io_boot, calibration_init)
     = Some (s', c') \<and> cal_done c'"
  by (simp add: env_example_def registry_single_def calib_loop_def calibration_init_def
      runStateInit_def runStateWaitReady_def runStateWaitTrasient_def gain_index_def aget_def aset_def
      take_reading_def calib_ops matrix_set_def MAX_NUM_NODES_def word_less_nat_alt Let_def)

theorem calib_done_complete_witness:
  "\<exists>s' c' evs. calib_run env_example registry_single luminaire_running evs (io_boot, calibration_init)
     = Some (s', c') \<and> cal_done c' \<and> ready_count s' = ready_count io_boot + 3"
proof -
  obtain s' c' evs where run: "calib_run env_example registry_single luminaire_running evs
      (io_boot, calibration_init) = Some (s', c')" "cal_done c'"
    using calib_run_example by blast
  have "nodeId env_example = 2" by (simp add: env_example_def)
  then have "ready_count s' = ready_count io_boot + 3"
    using calib_done_complete [OF run] registry_single_ok by (simp add: MAX_NUM_NODES_def)
  then show ?thesis using run by blast
qed

subsection \<open>What a peer learns from a ready message\<close>

lemma ready_frame_value:
  "float_of_bytes (can_data (sendingFrame (sendCalibReady drv n v s))) = Some v"
  by (simp add: sendCalibReady_def send_message_def put_data_def conv_float.dec_enc)

lemma second_reading:
  assumes "runStateWaitTrasient e r l adc t now2 s c = Some (s', c')" "1000000 < t" "luxReadNum c = 1"
    and "0 \<le> nodeLedOn c" "nodeLedOn c < 7" "matrix_shape 7 7 (gainMatrix c)"
    and "gain_index r (nodeId e) = Some i" "unat i < 7"
  shows "\<exists>g. sendingFrame s' = sendingFrame (sendCalibReady (env_drv e) (nodeId e) g s) \<and>
     gainMatrix c' ! unat i ! nat (nodeLedOn c) = g"
proof -
  let ?led = "unat (word_of_int (nodeLedOn c) :: u8)"
  have led: "?led = nat (nodeLedOn c)" "nat (nodeLedOn c) < 7" using assms(4,5) by (simp_all add: led_word)
  have set: "matrix_set (gainMatrix c) (unat i) ?led v
      = Some ((gainMatrix c)[unat i := (gainMatrix c ! unat i)[nat (nodeLedOn c) := v]])" for v
    using matrix_set_in_bounds [OF assms(6,8) led(2)] led(1) by simp
  have cell: "(gainMatrix c)[unat i := (gainMatrix c ! unat i)[nat (nodeLedOn c) := v]]
      ! unat i ! nat (nodeLedOn c) = v" for v
    using assms(6,8) led(2) by (simp add: matrix_shape_def list_all_length)
  obtain c1 where "take_reading e l adc c = Some c1" and c1: "gainMatrix c1 = gainMatrix c"
    "nodeLedOn c1 = nodeLedOn c" "luxReadNum c1 = 2"
    using assms(1-3) by (auto simp: runStateWaitTrasient_def take_reading_def i16_inc_def
        bind_eq_Some_conv split: if_splits)
  then have "s' = sendCalibReady (env_drv e) (nodeId e) (measured_gain c1) s \<and>
      gainMatrix c' = (gainMatrix c)[unat i := (gainMatrix c ! unat i)[nat (nodeLedOn c) := measured_gain c1]]"
    using assms(1,2,7)
    by (auto simp: runStateWaitTrasient_def setGain_def set bind_eq_Some_conv cal_setState_def
        incrementNodesReady_def)
  then show ?thesis using cell by auto
qed

text \<open>C25. The gain a node computes with its second reading reaches the same cell of the matrix of a peer
  at the same LED, bit for bit, when it is not negative; a negative gain is kept by the node
  itself and dropped by every peer, so the matrices differ from then on.\<close>

theorem calib_gain_transfer:
  assumes "runStateWaitTrasient e r l adc t now2 s ca = Some (s', ca')" "1000000 < t" "luxReadNum ca = 1"
    and "0 \<le> nodeLedOn ca" "nodeLedOn ca < 7" "nodeLedOn cb = nodeLedOn ca"
    and "matrix_shape 7 7 (gainMatrix ca)" "matrix_shape 7 7 (gainMatrix cb)"
    and "gain_index r (nodeId e) = Some i" "unat i < 7"
    and "calib_ready_frame r (nodeId e) (can_data (sendingFrame s')) cb = Some cb'"
  shows "gainMatrix cb' ! unat i ! nat (nodeLedOn ca) =
     (if f_int 0 \<le> gainMatrix ca' ! unat i ! nat (nodeLedOn ca)
      then gainMatrix ca' ! unat i ! nat (nodeLedOn ca) else gainMatrix cb ! unat i ! nat (nodeLedOn ca))"
proof -
  obtain g where frame: "sendingFrame s' = sendingFrame (sendCalibReady (env_drv e) (nodeId e) g s)"
    and own: "gainMatrix ca' ! unat i ! nat (nodeLedOn ca) = g"
    using second_reading [OF assms(1-5,7,9,10)] by blast
  have led: "unat (word_of_int (nodeLedOn cb) :: u8) = nat (nodeLedOn ca)" "nat (nodeLedOn ca) < 7"
    using assms(4-6) by (simp_all add: led_word)
  have set: "matrix_set (gainMatrix cb) (unat i) (unat (word_of_int (nodeLedOn cb) :: u8)) v
      = Some ((gainMatrix cb)[unat i := (gainMatrix cb ! unat i)[nat (nodeLedOn ca) := v]])" for v
    using matrix_set_in_bounds [OF assms(8,10) led(2)] led(1) by simp
  show ?thesis
  proof (cases "f_int 0 \<le> g")
    case True
    then have "receivedGainOrResidual r (nodeId e) g cb = Some
        (cb\<lparr>gainMatrix := (gainMatrix cb)[unat i := (gainMatrix cb ! unat i)[nat (nodeLedOn ca) := g]]\<rparr>)"
      using assms(4,9) set [unfolded assms(6)]
      by (simp add: receivedGainOrResidual_def setGain_def assms(6))
    then have "gainMatrix cb' = (gainMatrix cb)[unat i := (gainMatrix cb ! unat i)[nat (nodeLedOn ca) := g]]"
      using assms(11) True
      by (auto simp: calib_ready_frame_def frame ready_frame_value incrementNodesReady_def)
    then show ?thesis using True own assms(8,10) led(2) by (simp add: matrix_shape_def list_all_length)
  next
    case False
    then have "gainMatrix cb' = gainMatrix cb"
      using assms(11) by (auto simp: calib_ready_frame_def frame ready_frame_value incrementNodesReady_def)
    then show ?thesis using False own by simp
  qed
qed

text \<open>A node in the middle of the second reading of the first LED, with a first reading of 2 lux.\<close>

definition calib_second :: calibration where
  "calib_second = calibration_init\<lparr>cal_state := WaitTransient, luxReadNum := 1,
     luxReads := [F32 0x40000000, f_int 0]\<rparr>"

lemma second_reading_example:
  "\<exists>s' c'. runStateWaitTrasient env_example registry_single luminaire_running 300 2000000 5 io_boot
     calib_second = Some (s', c')"
  by (simp add: env_example_def registry_single_def calib_second_def calibration_init_def
      runStateWaitTrasient_def gain_index_def aget_def aset_def
      take_reading_def calib_ops matrix_set_def MAX_NUM_NODES_def word_less_nat_alt Let_def)

lemma receive_example:
  "float_of_bytes data = Some v \<Longrightarrow> \<exists>c'. calib_ready_frame registry_single 2 data calib_second = Some c'"
  by (auto simp: calib_ready_frame_def receivedGainOrResidual_def gain_index_def registry_single_def aget_def
      setGain_def matrix_set_def aset_def calib_second_def calibration_init_def MAX_NUM_NODES_def)

theorem calib_gain_transfer_witness:
  "\<exists>s' ca' cb'. runStateWaitTrasient env_example registry_single luminaire_running 300 2000000 5 io_boot
       calib_second = Some (s', ca') \<and>
     calib_ready_frame registry_single 2 (can_data (sendingFrame s')) calib_second = Some cb' \<and>
     gainMatrix cb' ! 0 ! 0 =
       (if f_int 0 \<le> gainMatrix ca' ! 0 ! 0 then gainMatrix ca' ! 0 ! 0 else f_int 0)"
proof -
  obtain s' ca' where run: "runStateWaitTrasient env_example registry_single luminaire_running 300 2000000 5
      io_boot calib_second = Some (s', ca')" using second_reading_example by blast
  have env: "nodeId env_example = 2" "gain_index registry_single (nodeId env_example) = Some 0"
    by (simp_all add: env_example_def gain_index_def registry_single_def aget_def)
  have c: "luxReadNum calib_second = 1" "nodeLedOn calib_second = 0" "matrix_shape 7 7 (gainMatrix calib_second)"
    "gainMatrix calib_second ! 0 ! 0 = f_int 0"
    by (simp_all add: calib_second_def calibration_init_def matrix_shape_def list_all_length MAX_NUM_NODES_def)
  have t: "(1000000 :: u32) < 2000000" by (simp add: word_less_nat_alt)
  obtain g where "sendingFrame s' = sendingFrame (sendCalibReady (env_drv env_example) 2 g io_boot)"
    using second_reading [OF run t, of 0] env c by auto
  then obtain cb' where cb': "calib_ready_frame registry_single 2 (can_data (sendingFrame s')) calib_second = Some cb'"
    using receive_example ready_frame_value by metis
  show ?thesis
    using calib_gain_transfer [OF run t, of calib_second 0 cb'] env c cb' run by auto
qed

end
