(* ===== verification/Consensus.thy ===== *)
theory Consensus
  imports Calibration
begin

text \<open>
  The distributed optimisation of \<open>consensus.cpp\<close> (ADMM): each node minimises its own cost over six
  closed-form candidates, broadcasts its solution, waits for the solutions of the others, averages
  and updates its multipliers, fifty times; then the agreed illuminance becomes the reference of
  the local controller. \<open>n\<close> is \<open>numTotalNodes\<close>. Every array indexed by a node has 7 places, and the
  operations are undefined for more nodes or for a \<open>nodeIdx\<close> outside the network.
\<close>

definition OFF_STATE :: u8 where "OFF_STATE = 0"
definition ITERATE_STATE :: u8 where "ITERATE_STATE = 1"
definition SENDING_DUTY_CYCLE_STATE :: u8 where "SENDING_DUTY_CYCLE_STATE = 2"
definition WAITING_RECIVE_DUTY_CYCLE_STATE :: u8 where "WAITING_RECIVE_DUTY_CYCLE_STATE = 3"
definition UPDATE_STATE :: u8 where "UPDATE_STATE = 4"

lemmas consensus_states = OFF_STATE_def ITERATE_STATE_def SENDING_DUTY_CYCLE_STATE_def
  WAITING_RECIVE_DUTY_CYCLE_STATE_def UPDATE_STATE_def

record consensus =
  dutyCycleAv :: "f32 list"
  lagrangeMultipliers :: "f32 list"
  ki :: "f32 list"
  kiNorm :: f32
  kinormKiiDiff :: f32
  LiRef :: f32
  rho :: f32
  nodeIdx :: u8
  maxIter :: u8
  numIter :: u8
  numberOfMsgExpected :: u16
  consensusState :: u8
  dutyCycleBest :: "f32 list"
  receivedDutyCycle :: "f32 list"
  numberOfMsgReceived :: u16

definition consensus_boot :: consensus where
  "consensus_boot = \<lparr>dutyCycleAv = replicate MAX_NUM_NODES (f_int 0),
     lagrangeMultipliers = replicate MAX_NUM_NODES (f_int 0), ki = replicate MAX_NUM_NODES (f_int 0),
     kiNorm = f_int 0, kinormKiiDiff = f_int 0, LiRef = f_int 0, rho = f_dec 7 100, nodeIdx = -1,
     maxIter = 50, numIter = 0, numberOfMsgExpected = 0, consensusState = OFF_STATE,
     dutyCycleBest = replicate MAX_NUM_NODES (f_int 0),
     receivedDutyCycle = replicate MAX_NUM_NODES (f_int 0), numberOfMsgReceived = 0\<rparr>"

text \<open>A loop over the first places of an array, writing the values of a list.\<close>

definition set_prefix :: "'a list \<Rightarrow> 'a list \<Rightarrow> 'a list" where
  "set_prefix ys xs = ys @ drop (length ys) xs"

lemma length_set_prefix [simp]: "length ys \<le> length xs \<Longrightarrow> length (set_prefix ys xs) = length xs"
  by (simp add: set_prefix_def)

lemma nth_set_prefix: "i < length ys \<Longrightarrow> set_prefix ys xs ! i = ys ! i"
  by (simp add: set_prefix_def nth_append)

subsection \<open>Initialisation\<close>

definition scaled_gain :: "f32 \<Rightarrow> f32" where
  "scaled_gain g = g * f_int 255 / f_int 100"

definition consensus_init ::
    "node_env \<Rightarrow> registry \<Rightarrow> luminaire \<Rightarrow> calibration \<Rightarrow> consensus \<Rightarrow> consensus option" where
  "consensus_init e r l cal s = do {
     let n = node_count r;
     idx \<leftarrow> gain_index r (nodeId e);
     row \<leftarrow> aget (gainMatrix cal) (unat idx);
     gains \<leftarrow> (if n \<le> MAX_NUM_NODES then Some (map (\<lambda>i. scaled_gain (row ! i)) [0..<n]) else None);
     let newKi = set_prefix gains (ki s);
     let norm = foldl (\<lambda>acc i. acc + powf (env_libm e) (newKi ! i) (f_int 2)) (f_int 0) [0..<n];
     own \<leftarrow> aget newKi (unat idx);
     Some (s\<lparr>numberOfMsgExpected := of_nat (vector_messages n * (n - 1)), nodeIdx := idx,
       consensusState := ITERATE_STATE, numIter := 0, numberOfMsgReceived := 0, ki := newKi,
       kiNorm := norm, dutyCycleBest := fill n (f_int 0) (dutyCycleBest s),
       dutyCycleAv := fill n (f_int 0) (dutyCycleAv s),
       lagrangeMultipliers := fill n (f_int 0) (lagrangeMultipliers s),
       receivedDutyCycle := fill n (f_int 0) (receivedDutyCycle s),
       kinormKiiDiff := norm - powf (env_libm e) own (f_int 2), LiRef := luxRef l\<rparr>)
   }"

subsection \<open>Cost and feasibility\<close>

definition multiplyTwoArrays :: "nat \<Rightarrow> f32 list \<Rightarrow> f32 list \<Rightarrow> f32" where
  "multiplyTwoArrays n a b = foldl (\<lambda>mult i. mult + a ! i * b ! i) (f_int 0) [0..<n]"

definition evaluate_cost :: "libm \<Rightarrow> nat \<Rightarrow> f32 \<Rightarrow> consensus \<Rightarrow> f32 list \<Rightarrow> f32" where
  "evaluate_cost m n cost s d =
     (let norm = foldl (\<lambda>acc i. acc + powf m (d ! i - dutyCycleAv s ! i) (f_int 2)) (f_int 0) [0..<n];
          diff = map (\<lambda>i. d ! i - dutyCycleAv s ! i) [0..<n]
      in cost * d ! unat (nodeIdx s) + multiplyTwoArrays n (lagrangeMultipliers s) diff
           + rho s / f_int 2 * norm)"

definition check_feasibility :: "nat \<Rightarrow> f32 \<Rightarrow> consensus \<Rightarrow> f32 list \<Rightarrow> bool" where
  "check_feasibility n residual s d =
     (let tol = f_dec 1 100; own = d ! unat (nodeIdx s) in
      if own < f_int 0 - tol then False
      else if f_int 100 + tol < own then False
      else if multiplyTwoArrays n d (ki s) < LiRef s - residual - tol then False
      else True)"

subsection \<open>One iteration\<close>

definition z_vector :: "nat \<Rightarrow> f32 \<Rightarrow> consensus \<Rightarrow> f32 list" where
  "z_vector n cost s =
     (let z = map (\<lambda>i. rho s * dutyCycleAv s ! i - lagrangeMultipliers s ! i) [0..<n];
          own = unat (nodeIdx s)
      in z[own := z ! own - cost])"

text \<open>The six candidates, in the order of the code: unconstrained; constrained to the linear
  boundary, to 0, to 100, to the linear boundary and 0, to the linear boundary and 100.\<close>

definition unconstrained :: "nat \<Rightarrow> consensus \<Rightarrow> f32 list \<Rightarrow> f32 list" where
  "unconstrained n s z = map (\<lambda>i. f_int 1 / rho s * z ! i) [0..<n]"

definition linear_boundary :: "nat \<Rightarrow> f32 \<Rightarrow> consensus \<Rightarrow> f32 list \<Rightarrow> f32 list" where
  "linear_boundary n residual s z =
     map (\<lambda>i. f_int 1 / rho s * z ! i - ki s ! i / kiNorm s *
       (residual - LiRef s + f_int 1 / rho s * multiplyTwoArrays n z (ki s))) [0..<n]"

definition linear_and_bound :: "nat \<Rightarrow> f32 \<Rightarrow> consensus \<Rightarrow> f32 list \<Rightarrow> f32 list" where
  "linear_and_bound n shift s z =
     (let own = unat (nodeIdx s) in
      map (\<lambda>i. f_int 1 / rho s * z ! i - ki s ! i / kinormKiiDiff s * shift +
        ki s ! i / (rho s * kinormKiiDiff s) *
          (ki s ! own * z ! own - multiplyTwoArrays n z (ki s))) [0..<n])"

definition candidates :: "nat \<Rightarrow> f32 \<Rightarrow> f32 \<Rightarrow> consensus \<Rightarrow> f32 list list" where
  "candidates n cost residual s =
     (let z = z_vector n cost s; own = unat (nodeIdx s) in
      [unconstrained n s z,
       linear_boundary n residual s z,
       (unconstrained n s z)[own := f_int 0],
       (unconstrained n s z)[own := f_int 100],
       (linear_and_bound n (residual - LiRef s) s z)[own := f_int 0],
       (linear_and_bound n (residual - LiRef s + f_int 100 * ki s ! own) s z)[own := f_int 100]])"

definition consider_candidate ::
    "(f32 list \<Rightarrow> bool) \<Rightarrow> (f32 list \<Rightarrow> f32) \<Rightarrow> f32 list \<Rightarrow> f32 list \<times> f32 \<Rightarrow> f32 list \<times> f32" where
  "consider_candidate feasible cost d best =
     (if feasible d then (if cost d < snd best then (d, cost d) else best) else best)"

definition iterate_result :: "libm \<Rightarrow> nat \<Rightarrow> f32 \<Rightarrow> f32 \<Rightarrow> consensus \<Rightarrow> f32 list \<times> f32" where
  "iterate_result m n cost residual s =
     fold (consider_candidate (check_feasibility n residual s) (evaluate_cost m n cost s))
       (candidates n cost residual s) (replicate n (f_int (-1)), f_int 100000)"

definition consensus_iterate ::
    "node_env \<Rightarrow> nat \<Rightarrow> luminaire \<Rightarrow> calibration \<Rightarrow> consensus \<Rightarrow> consensus option" where
  "consensus_iterate e n l cal s = do {
     residual \<leftarrow> aget (residualArray cal) (unat (nodeIdx s));
     (if n \<le> MAX_NUM_NODES \<and> unat (nodeIdx s) < n
      then Some (s\<lparr>dutyCycleBest :=
        set_prefix (fst (iterate_result (env_libm e) n (lum_cost l) residual s)) (dutyCycleBest s)\<rparr>)
      else None)
   }"

subsection \<open>The state machine\<close>

definition consensus_update :: "nat \<Rightarrow> consensus \<Rightarrow> consensus option" where
  "consensus_update n s = do {
     (if n \<le> MAX_NUM_NODES then Some () else None);
     let av = map (\<lambda>j. (receivedDutyCycle s ! j + dutyCycleBest s ! j) /
                f_int (uint (numberOfMsgReceived s + 1))) [0..<n];
     let lm = map (\<lambda>j. lagrangeMultipliers s ! j + rho s * (dutyCycleBest s ! j - av ! j)) [0..<n];
     Some (s\<lparr>dutyCycleAv := set_prefix av (dutyCycleAv s),
       lagrangeMultipliers := set_prefix lm (lagrangeMultipliers s),
       numberOfMsgReceived := 0, consensusState := ITERATE_STATE, numIter := numIter s + 1,
       receivedDutyCycle := fill n (f_int 0) (receivedDutyCycle s)\<rparr>)
   }"

definition consensus_lux :: "nat \<Rightarrow> f32 \<Rightarrow> consensus \<Rightarrow> f32" where
  "consensus_lux n residual s =
     foldl (\<lambda>acc i. acc + dutyCycleBest s ! i * ki s ! i) (f_int 0) [0..<n] + residual"

text \<open>The block of the update state.\<close>

definition consensus_finish ::
    "node_env \<Rightarrow> nat \<Rightarrow> calibration \<Rightarrow> u32 \<Rightarrow> adc \<Rightarrow> luminaire \<Rightarrow> consensus
       \<Rightarrow> (luminaire \<times> consensus) option" where
  "consensus_finish e n cal now adc l s = do {
     s \<leftarrow> consensus_update n s;
     (if numIter s = maxIter s then do {
        let s = s\<lparr>consensusState := OFF_STATE, numIter := 0, numberOfMsgReceived := 0\<rparr>;
        residual \<leftarrow> aget (residualArray cal) (unat (nodeIdx s));
        l \<leftarrow> setLuxRefAfterConsensus (env_libm e) now adc (consensus_lux n residual s) l;
        Some (l, s)
      } else Some (l, s))
   }"

definition consensus_main ::
    "node_env \<Rightarrow> registry \<Rightarrow> calibration \<Rightarrow> u32 \<Rightarrow> adc \<Rightarrow> io \<Rightarrow> luminaire \<Rightarrow> consensus
       \<Rightarrow> (io \<times> luminaire \<times> consensus) option" where
  "consensus_main e r cal now adc out l s = do {
     let n = node_count r;
     s \<leftarrow> (if consensusState s = ITERATE_STATE then do {
             s \<leftarrow> consensus_iterate e n l cal s;
             Some (s\<lparr>consensusState := SENDING_DUTY_CYCLE_STATE\<rparr>)
           } else Some s);
     (out, s) \<leftarrow> (if consensusState s = SENDING_DUTY_CYCLE_STATE then do {
             out \<leftarrow> sendConsensusDutyCycle (env_drv e) (nodeId e) n (dutyCycleBest s) out;
             Some (out, s\<lparr>consensusState := WAITING_RECIVE_DUTY_CYCLE_STATE\<rparr>)
           } else Some (out, s));
     let s = (if consensusState s = WAITING_RECIVE_DUTY_CYCLE_STATE \<and>
                 numberOfMsgReceived s = numberOfMsgExpected s
              then s\<lparr>consensusState := UPDATE_STATE\<rparr> else s);
     (if consensusState s = UPDATE_STATE then do {
        (l, s) \<leftarrow> consensus_finish e n cal now adc l s;
        Some (out, l, s)
      } else Some (out, l, s))
   }"

text \<open>The \<open>CAN_CONSENSUS\<close> branch of \<open>Communication::received\<close>, without its debug print.\<close>

definition consensus_received :: "nat \<Rightarrow> can_frame \<Rightarrow> consensus \<Rightarrow> consensus option" where
  "consensus_received n f s = do {
     recv \<leftarrow> consensus_frame n f (receivedDutyCycle s);
     Some (s\<lparr>receivedDutyCycle := recv, numberOfMsgReceived := numberOfMsgReceived s + 1\<rparr>)
   }"

definition resetConsensus :: "nat \<Rightarrow> consensus \<Rightarrow> consensus option" where
  "resetConsensus n s =
     (if n \<le> MAX_NUM_NODES
      then Some (s\<lparr>dutyCycleAv := fill n (f_int 0) (dutyCycleAv s),
        lagrangeMultipliers := fill n (f_int 0) (lagrangeMultipliers s),
        receivedDutyCycle := fill n (f_int 0) (receivedDutyCycle s),
        dutyCycleBest := fill n (f_int 0) (dutyCycleBest s), ki := fill n (f_int 0) (ki s),
        kiNorm := f_int 0, kinormKiiDiff := f_int 0, LiRef := f_int 0, rho := f_dec 7 100,
        nodeIdx := -1, maxIter := 50, numberOfMsgReceived := 0, numIter := 0,
        consensusState := OFF_STATE\<rparr>)
      else None)"

subsection \<open>The iteration chooses the best feasible candidate\<close>

lemma f_less_trans: "x < y \<Longrightarrow> y < z \<Longrightarrow> x < (z :: f32)"
  using f_less_le_trans f_less_imp_le by blast

lemma fold_consider:
  assumes "\<not> is_nan c0" "fold (consider_candidate feas cost) ds (b0, c0) = (b, c)"
  shows "\<not> is_nan c \<and> (c = c0 \<or> c < c0) \<and> (\<forall>d \<in> set ds. feas d \<longrightarrow> \<not> cost d < c) \<and>
     ((b, c) = (b0, c0) \<or> b \<in> set ds \<and> feas b \<and> c = cost b)"
  using assms
proof (induction ds arbitrary: b0 c0)
  case (Cons d ds)
  obtain b1 c1 where step: "consider_candidate feas cost d (b0, c0) = (b1, c1)"
    by (cases "consider_candidate feas cost d (b0, c0)")
  have irrefl: "\<not> cost d < cost d" by (simp add: less_f32_def)
  have c1: "\<not> is_nan c1 \<and> (c1 = c0 \<or> c1 < c0) \<and> (feas d \<longrightarrow> \<not> cost d < c1) \<and>
    ((b1, c1) = (b0, c0) \<or> b1 = d \<and> feas d \<and> c1 = cost d)"
  proof (cases "feas d \<and> cost d < c0")
    case True
    then have "c1 = cost d" "b1 = d" using step by (auto simp: consider_candidate_def)
    then show ?thesis using True irrefl f_not_nan_of_less [of "cost d" c0] by simp
  next
    case False
    then have "c1 = c0" "b1 = b0" using step by (auto simp: consider_candidate_def split: if_splits)
    then show ?thesis using False Cons.prems(1) by simp
  qed
  have "fold (consider_candidate feas cost) ds (b1, c1) = (b, c)" using Cons.prems(2) step by simp
  note ih = Cons.IH [OF conjunct1 [OF c1] this]
  have "c = c0 \<or> c < c0" using conjunct1 [OF conjunct2 [OF ih]] conjunct1 [OF conjunct2 [OF c1]]
      f_less_trans [of c c1 c0] by auto
  moreover have "feas d \<longrightarrow> \<not> cost d < c"
    using conjunct1 [OF conjunct2 [OF ih]] c1 f_less_trans [of "cost d" c c1] by auto
  moreover have "(b, c) = (b0, c0) \<or> b \<in> set (d # ds) \<and> feas b \<and> c = cost b"
    using ih c1 by auto
  ultimately show ?case using ih by simp
qed simp

lemma candidate_lengths: "d \<in> set (candidates n cost residual s) \<Longrightarrow> length d = n"
  by (auto simp: candidates_def Let_def unconstrained_def linear_boundary_def linear_and_bound_def)

text \<open>C1. The vector an iteration broadcasts is optimal among the six candidates: it is a feasible
  candidate, and no feasible candidate costs less; only when no feasible candidate costs less than
  100000 is it the vector of -1.\<close>

theorem consensus_iterate_optimal:
  assumes "consensus_iterate e n l cal s = Some s'"
    and "residual = residualArray cal ! unat (nodeIdx s)" "best = take n (dutyCycleBest s')"
    and "cost = evaluate_cost (env_libm e) n (lum_cost l) s"
  shows "best \<in> set (candidates n (lum_cost l) residual s) \<and> check_feasibility n residual s best \<and>
       (\<forall>d \<in> set (candidates n (lum_cost l) residual s). check_feasibility n residual s d \<longrightarrow> \<not> cost d < cost best)
     \<or> best = replicate n (f_int (-1)) \<and>
       (\<forall>d \<in> set (candidates n (lum_cost l) residual s). check_feasibility n residual s d \<longrightarrow> \<not> cost d < f_int 100000)"
proof -
  obtain b c where bc: "iterate_result (env_libm e) n (lum_cost l) residual s = (b, c)"
    by (cases "iterate_result (env_libm e) n (lum_cost l) residual s")
  have s': "dutyCycleBest s' = set_prefix b (dutyCycleBest s)"
    using assms(1,2) bc by (auto simp: consensus_iterate_def bind_eq_Some_conv aget_Some_iff split: if_splits)
  have nn: "\<not> is_nan (f_int 100000)" using f_int_facts [of 100000] by simp
  note f = fold_consider [OF nn bc [unfolded iterate_result_def], folded assms(4)]
  have "length b = n" using f by (auto simp: candidate_lengths)
  then have "best = b" using s' assms(3) by (simp add: set_prefix_def)
  then show ?thesis using f by auto
qed

text \<open>A network of one node after \<open>init\<close>, with no light measured.\<close>

definition consensus_single :: consensus where
  "consensus_single = consensus_boot\<lparr>nodeIdx := 0, consensusState := ITERATE_STATE\<rparr>"

theorem consensus_iterate_optimal_witness:
  "\<exists>s'. consensus_iterate env_example 1 luminaire_running calibration_init consensus_single = Some s' \<and>
     (take 1 (dutyCycleBest s') \<in> set (candidates 1 (lum_cost luminaire_running) (f_int 0) consensus_single) \<or>
      take 1 (dutyCycleBest s') = [f_int (-1)])"
proof -
  obtain s' where s': "consensus_iterate env_example 1 luminaire_running calibration_init consensus_single = Some s'"
    by (simp add: consensus_iterate_def consensus_single_def consensus_boot_def calibration_init_def
        aget_def MAX_NUM_NODES_def)
  have res: "f_int 0 = residualArray calibration_init ! unat (nodeIdx consensus_single)"
    by (simp add: consensus_single_def calibration_init_def MAX_NUM_NODES_def)
  show ?thesis using consensus_iterate_optimal [OF s' res refl refl] s' by auto
qed

subsection \<open>Messages expected and the average\<close>


lemma consensus_init_example:
  "\<exists>s'. consensus_init env_example registry_example luminaire_running calibration_init consensus_boot = Some s'"
  by (simp add: consensus_init_def env_example_def gain_index_def registry_example_def aget_def Let_def
      calibration_init_def consensus_boot_def MAX_NUM_NODES_def set_prefix_def)


subsection \<open>The life of one optimisation\<close>

text \<open>What can happen to the consensus of a node: the last step of \<open>loop\<close> in \<open>main.cpp\<close>, and a vector
  frame of a peer.\<close>

definition consensus_pass ::
    "node_env \<Rightarrow> registry \<Rightarrow> calibration \<Rightarrow> u32 \<Rightarrow> adc \<Rightarrow> io \<times> luminaire \<times> consensus
       \<Rightarrow> (io \<times> luminaire \<times> consensus) option" where
  "consensus_pass e r cal now adc st =
     (case st of (out, l, s) \<Rightarrow>
        if consensusState s \<noteq> OFF_STATE then consensus_main e r cal now adc out l s else Some st)"

datatype consensus_event = MainPass u32 adc | VectorFrame can_frame

fun consensus_step :: "node_env \<Rightarrow> registry \<Rightarrow> calibration \<Rightarrow> consensus_event \<Rightarrow>
    io \<times> luminaire \<times> consensus \<Rightarrow> (io \<times> luminaire \<times> consensus) option" where
  "consensus_step e r cal (MainPass now adc) st = consensus_pass e r cal now adc st"
| "consensus_step e r cal (VectorFrame f) (out, l, s) =
     do { s \<leftarrow> consensus_received (node_count r) f s; Some (out, l, s) }"

fun consensus_run :: "node_env \<Rightarrow> registry \<Rightarrow> calibration \<Rightarrow> consensus_event list \<Rightarrow>
    io \<times> luminaire \<times> consensus \<Rightarrow> (io \<times> luminaire \<times> consensus) option" where
  "consensus_run e r cal [] st = Some st"
| "consensus_run e r cal (ev # evs) st =
     do { st \<leftarrow> consensus_step e r cal ev st; consensus_run e r cal evs st }"

definition vector_count :: "io \<Rightarrow> nat" where
  "vector_count s = length (filter (\<lambda>f. id_type (can_id f) = CAN_CONSENSUS) (sent_frames (log s)))"

lemma send_vector_count:
  assumes "send_vector drv n ms val s = Some s'" "id_type (can_id (sendingFrame s)) = CAN_CONSENSUS"
  shows "vector_count s' = vector_count s + length ms"
  using assms
proof (induction ms arbitrary: s)
  case (Cons m ms)
  obtain data where "send_vector drv n ms val (sendFrame drv
      (s\<lparr>sendingFrame := (sendingFrame s)\<lparr>can_data := data[6 := of_nat m]\<rparr>\<rparr>)) = Some s'"
    using Cons.prems(1) by (auto simp: bind_eq_Some_conv)
  from Cons.IH [OF this] Cons.prems(2) show ?case by (simp add: vector_count_def)
qed simp

lemma send_consensus_count:
  assumes "sendConsensusDutyCycle drv src n val s = Some s'"
  shows "vector_count s' = vector_count s + vector_messages n"
  using send_vector_count [OF assms [unfolded sendConsensusDutyCycle_def]]
  by (simp add: id_fields vector_count_def)

text \<open>The first half of \<open>consensus_main\<close>: from the iteration to the wait.\<close>

lemma consensus_iterate_fields:
  assumes "consensus_iterate e n l cal s = Some s'"
  shows "maxIter s' = maxIter s" "numIter s' = numIter s" "numberOfMsgReceived s' = numberOfMsgReceived s"
    "numberOfMsgExpected s' = numberOfMsgExpected s" "consensusState s' = consensusState s"
  using assms by (auto simp: consensus_iterate_def bind_eq_Some_conv split: if_splits)

lemma consensus_update_fields:
  assumes "consensus_update n s = Some s'"
  shows "maxIter s' = maxIter s" "numIter s' = numIter s + 1" "consensusState s' = ITERATE_STATE"
  using assms by (auto simp: consensus_update_def Let_def bind_eq_Some_conv split: if_splits)

lemma consensus_finish_fields:
  assumes "consensus_finish e n cal now adc l s = Some (l', s')"
  shows "maxIter s' = maxIter s \<and>
     (if numIter s + 1 = maxIter s then consensusState s' = OFF_STATE
      else consensusState s' = ITERATE_STATE \<and> numIter s' = numIter s + 1)"
proof -
  obtain s1 where s1: "consensus_update n s = Some s1"
    using assms by (auto simp: consensus_finish_def bind_eq_Some_conv)
  show ?thesis
    using assms consensus_update_fields [OF s1]
    by (auto simp: consensus_finish_def s1 bind_eq_Some_conv Let_def split: if_splits)
qed

text \<open>One call of \<open>consensus_main\<close> between two calls of \<open>loop\<close>.\<close>

lemma consensus_main_iterate:
  assumes "consensus_main e r cal now adc out l s = Some (out', l', s')" "consensusState s = ITERATE_STATE"
  shows "vector_count out' = vector_count out + vector_messages (node_count r) \<and> maxIter s' = maxIter s \<and>
     (if numberOfMsgReceived s = numberOfMsgExpected s
      then (if numIter s + 1 = maxIter s then consensusState s' = OFF_STATE
            else consensusState s' = ITERATE_STATE \<and> numIter s' = numIter s + 1)
      else consensusState s' = WAITING_RECIVE_DUTY_CYCLE_STATE \<and> numIter s' = numIter s)"
proof -
  obtain s1 out1 where it: "consensus_iterate e (node_count r) l cal s = Some s1"
    and send: "sendConsensusDutyCycle (env_drv e) (nodeId e) (node_count r) (dutyCycleBest s1) out = Some out1"
    using assms by (auto simp: consensus_main_def Let_def bind_eq_Some_conv)
  note f = consensus_iterate_fields [OF it] and c = send_consensus_count [OF send]
  show ?thesis
  proof (cases "numberOfMsgReceived s = numberOfMsgExpected s")
    case True
    then have "out' = out1 \<and> (\<exists>t. consensus_finish e (node_count r) cal now adc l t = Some (l', s') \<and>
        maxIter t = maxIter s \<and> numIter t = numIter s)"
      using assms it send f
      by (auto simp: consensus_main_def Let_def bind_eq_Some_conv consensus_states)
    then show ?thesis using c True by (auto dest!: consensus_finish_fields split: if_splits)
  next
    case False
    then show ?thesis
      using assms it send f c by (auto simp: consensus_main_def Let_def consensus_states)
  qed
qed

lemma consensus_main_wait:
  assumes "consensus_main e r cal now adc out l s = Some (out', l', s')"
    "consensusState s = WAITING_RECIVE_DUTY_CYCLE_STATE"
  shows "out' = out \<and> maxIter s' = maxIter s \<and>
     (if numberOfMsgReceived s = numberOfMsgExpected s
      then (if numIter s + 1 = maxIter s then consensusState s' = OFF_STATE
            else consensusState s' = ITERATE_STATE \<and> numIter s' = numIter s + 1)
      else s' = s \<and> l' = l)"
proof (cases "numberOfMsgReceived s = numberOfMsgExpected s")
  case True
  then have "out' = out \<and> (\<exists>t. consensus_finish e (node_count r) cal now adc l t = Some (l', s') \<and>
      maxIter t = maxIter s \<and> numIter t = numIter s)"
    using assms by (auto simp: consensus_main_def Let_def bind_eq_Some_conv consensus_states)
  then show ?thesis using True by (auto dest!: consensus_finish_fields split: if_splits)
next
  case False
  then show ?thesis using assms by (auto simp: consensus_main_def Let_def consensus_states)
qed

text \<open>The frames sent, against the iterations done, between two events.\<close>

definition iteration_inv :: "nat \<Rightarrow> nat \<Rightarrow> io \<times> luminaire \<times> consensus \<Rightarrow> bool" where
  "iteration_inv vm start st \<longleftrightarrow> (case st of (out, l, s) \<Rightarrow>
     maxIter s = 50 \<and>
     (if consensusState s = OFF_STATE then vector_count out = start + 50 * vm
      else if consensusState s = ITERATE_STATE
      then unat (numIter s) < 50 \<and> vector_count out = start + unat (numIter s) * vm
      else consensusState s = WAITING_RECIVE_DUTY_CYCLE_STATE \<and> unat (numIter s) < 50 \<and>
        vector_count out = start + (unat (numIter s) + 1) * vm))"

lemma next_iteration:
  assumes "unat k < 50"
  shows "(k :: u8) + 1 = 50 \<longleftrightarrow> unat k + 1 = 50" "unat (k + 1) = unat k + 1"
proof -
  show *: "unat (k + 1) = unat k + 1" using assms by (simp add: unat_word_ariths)
  show "k + 1 = 50 \<longleftrightarrow> unat k + 1 = 50" unfolding * [symmetric] word_unat_eq_iff by simp
qed

lemma iteration_step:
  assumes "consensus_step e r cal ev st = Some st'" "iteration_inv (vector_messages (node_count r)) start st"
  shows "iteration_inv (vector_messages (node_count r)) start st'"
proof -
  obtain out l s where st: "st = (out, l, s)" by (cases st)
  obtain out' l' s' where st': "st' = (out', l', s')" by (cases st')
  show ?thesis
  proof (cases ev)
    case (VectorFrame f)
    then show ?thesis
      using assms by (auto simp: st consensus_received_def iteration_inv_def bind_eq_Some_conv)
  next
    case (MainPass now adc)
    consider "consensusState s = OFF_STATE" | "consensusState s = ITERATE_STATE"
      | "consensusState s = WAITING_RECIVE_DUTY_CYCLE_STATE"
      using assms(2) by (auto simp: iteration_inv_def st split: if_splits)
    then show ?thesis
    proof cases
      case 1
      then show ?thesis using assms MainPass by (simp add: st consensus_pass_def)
    next
      case 2
      then have run: "consensus_main e r cal now adc out l s = Some (out', l', s')"
        using assms(1) MainPass by (simp add: st st' consensus_pass_def consensus_states)
      show ?thesis
        using consensus_main_iterate [OF run 2] assms(2) 2 next_iteration [of "numIter s"]
        by (auto simp: iteration_inv_def st st' consensus_states split: if_splits)
    next
      case 3
      then have run: "consensus_main e r cal now adc out l s = Some (out', l', s')"
        using assms(1) MainPass by (simp add: st st' consensus_pass_def consensus_states)
      show ?thesis
        using consensus_main_wait [OF run 3] assms(2) 3 next_iteration [of "numIter s"]
        by (auto simp: iteration_inv_def st st' consensus_states split: if_splits)
    qed
  qed
qed

lemma iteration_run:
  assumes "consensus_run e r cal evs st = Some st'" "iteration_inv (vector_messages (node_count r)) start st"
  shows "iteration_inv (vector_messages (node_count r)) start st'"
  using assms
proof (induction evs arbitrary: st)
  case (Cons ev evs)
  from Cons.prems(1) obtain st1 where "consensus_step e r cal ev st = Some st1"
    and run: "consensus_run e r cal evs st1 = Some st'" by (auto simp: bind_eq_Some_conv)
  then show ?case using Cons.IH [OF run] iteration_step Cons.prems(2) by blast
qed simp

text \<open>C4. An optimisation that stops has done exactly fifty iterations: from the state \<open>init\<close> leaves to
  the off state, whatever the interleaving of passes and incoming vectors, the node has broadcast
  its vector fifty times.\<close>

theorem consensus_runs_fifty_iterations:
  assumes "consensus_run e r cal evs (out, l, s) = Some (out', l', s')"
    and "consensusState s = ITERATE_STATE" "numIter s = 0" "maxIter s = 50"
    and "consensusState s' = OFF_STATE"
  shows "vector_count out' = vector_count out + 50 * vector_messages (node_count r)"
proof -
  have "iteration_inv (vector_messages (node_count r)) (vector_count out) (out, l, s)"
    using assms(2-4) by (simp add: iteration_inv_def consensus_states)
  from iteration_run [OF assms(1) this] assms(5) show ?thesis by (simp add: iteration_inv_def)
qed

text \<open>A lone node whose \<open>pow\<close> always fails: no candidate is taken, and it still finishes.\<close>

definition env_nan :: node_env where
  "env_nan = env_example\<lparr>env_libm := libm_example\<lparr>powf := (\<lambda>_ _. f_nan)\<rparr>\<rparr>"

lemma nan_absorbs: "is_nan y \<Longrightarrow> is_nan (x + y)" "is_nan y \<Longrightarrow> is_nan (x * y)" "is_nan f_nan"
proof -
  show nan: "is_nan f_nan" by (simp add: f_eval)
  show "is_nan y \<Longrightarrow> is_nan (x + y)" "is_nan y \<Longrightarrow> is_nan (x * y)"
    using nan by (simp_all add: plus_f32_def times_f32_def f_add_def f_mult_def)
qed

lemma iterate_nan:
  "iterate_result (env_libm env_nan) 1 cost residual s = ([f_int (-1)], f_int 100000)"
proof -
  have "is_nan (evaluate_cost (env_libm env_nan) 1 cost s d)" for d
    by (simp add: evaluate_cost_def env_nan_def nan_absorbs)
  then have "\<not> evaluate_cost (env_libm env_nan) 1 cost s d < x" for d x
    using f_not_nan_of_less by blast
  then have step: "consider_candidate feas (evaluate_cost (env_libm env_nan) 1 cost s) d b = b" for feas d b
    by (simp add: consider_candidate_def)
  have "fold (consider_candidate feas (evaluate_cost (env_libm env_nan) 1 cost s)) ds b = b" for feas ds b
    by (induction ds) (simp_all add: step [unfolded One_nat_def])
  then show ?thesis by (simp add: iterate_result_def)
qed

definition lone :: "nat \<Rightarrow> io \<times> luminaire \<times> consensus \<Rightarrow> bool" where
  "lone k st \<longleftrightarrow> (case st of (out, l, s) \<Rightarrow>
     nodeIdx s = 0 \<and> numberOfMsgExpected s = 0 \<and> numberOfMsgReceived s = 0 \<and> maxIter s = 50 \<and>
     (if k < 50 then simulator l = simulator luminaire_boot \<and> consensusState s = ITERATE_STATE \<and> unat (numIter s) = k else consensusState s = OFF_STATE))"

lemma lone_target: "simulator l = simulator luminaire_boot \<Longrightarrow>
    \<exists>l'. setLuxRefAfterConsensus (env_libm env_nan) now adc v l = Some l'"
proof -
  have "f_to_i16 (- F32 0 * F32 0x3F800000 + F32 0) = Some 0"
    by (simp add: f_eval f_to_i16_def)
  then show "simulator l = simulator luminaire_boot \<Longrightarrow>
      \<exists>l'. setLuxRefAfterConsensus (env_libm env_nan) now adc v l = Some l'"
    by (simp add: setLuxRefAfterConsensus_def startStep_def getTau_def luminaire_boot_def env_nan_def
        libm_example_def zero_f32_def Let_def)
qed

lemma lone_pass:
  assumes "lone k st" "k < 50"
  shows "\<exists>st'. consensus_pass env_nan registry_single calibration_init now adc st = Some st' \<and> lone (k + 1) st'"
proof -
  obtain out l s where st: "st = (out, l, s)" by (cases st)
  have s: "nodeIdx s = 0" "numberOfMsgExpected s = 0" "numberOfMsgReceived s = 0" "maxIter s = 50"
    "consensusState s = ITERATE_STATE" "unat (numIter s) = k" "simulator l = simulator luminaire_boot"
    using assms by (simp_all add: lone_def st)
  define s1 where "s1 = s\<lparr>dutyCycleBest := set_prefix [f_int (-1)] (dutyCycleBest s)\<rparr>"
  have it: "consensus_iterate env_nan 1 l calibration_init s = Some s1"
    using s(1) iterate_nan by (simp add: consensus_iterate_def s1_def calibration_init_def aget_def MAX_NUM_NODES_def)
  obtain aux where aux: "duty_encode (f_int (-1)) = Some aux"
    using duty_encode_near [of "f_int (-1)"] f_int_facts [of "- 1"] by auto
  then obtain out1 where send: "sendConsensusDutyCycle (env_drv env_nan) (nodeId env_nan) 1 (dutyCycleBest s1) out = Some out1"
    by (auto simp: sendConsensusDutyCycle_def vector_messages_def aget_def s1_def set_prefix_def)
  define s2 where "s2 = s1\<lparr>consensusState := UPDATE_STATE\<rparr>"
  have main: "consensus_main env_nan registry_single calibration_init now adc out l s =
      do { (l, s) \<leftarrow> consensus_finish env_nan 1 calibration_init now adc l s2; Some (out1, l, s) }"
    using s it [unfolded One_nat_def] send [unfolded One_nat_def]
    by (simp add: consensus_main_def Let_def registry_single_ok consensus_states s1_def s2_def)
  obtain s3 where upd: "consensus_update 1 s2 = Some s3" and s3: "numberOfMsgReceived s3 = 0" "nodeIdx s3 = 0"
    "numberOfMsgExpected s3 = 0"
    using s by (simp add: consensus_update_def MAX_NUM_NODES_def Let_def s2_def s1_def)
  have f: "maxIter s3 = 50" "numIter s3 = numIter s + 1" "consensusState s3 = ITERATE_STATE"
    using consensus_update_fields [OF upd] s by (simp_all add: s2_def s1_def)
  note nxt = next_iteration [of "numIter s"]
  show ?thesis
  proof (cases "k + 1 = 50")
    case False
    then have "consensus_finish env_nan 1 calibration_init now adc l s2 = Some (l, s3)"
      using f nxt assms(2) s(6) upd by (simp add: consensus_finish_def del: One_nat_def)
    then show ?thesis
      using main f s s3 nxt False assms(2)
      by (simp add: consensus_pass_def st lone_def consensus_states del: One_nat_def)
  next
    case True
    obtain l' where l': "setLuxRefAfterConsensus (env_libm env_nan) now adc
        (consensus_lux 1 (f_int 0) (s3\<lparr>consensusState := OFF_STATE, numIter := 0, numberOfMsgReceived := 0\<rparr>)) l
        = Some l'"
      using lone_target [OF s(7)] by blast
    have "consensus_finish env_nan 1 calibration_init now adc l s2 =
        Some (l', s3\<lparr>consensusState := OFF_STATE, numIter := 0, numberOfMsgReceived := 0\<rparr>)"
      using f nxt True s(6) upd s3 l'
      by (simp add: consensus_finish_def Let_def aget_def calibration_init_def MAX_NUM_NODES_def del: One_nat_def)
    then show ?thesis
      using main f s s3 True
      by (simp add: consensus_pass_def st lone_def consensus_states del: One_nat_def)
  qed
qed

lemma lone_run:
  assumes "lone k st" "k + j = 50"
  shows "\<exists>st'. consensus_run env_nan registry_single calibration_init (replicate j (MainPass now adc)) st
     = Some st' \<and> lone 50 st'"
  using assms
proof (induction j arbitrary: k st)
  case (Suc j)
  then obtain st1 where "consensus_pass env_nan registry_single calibration_init now adc st = Some st1"
    "lone (k + 1) st1" using lone_pass [of k st now adc] by auto
  then show ?case using Suc.IH [of "k + 1" st1] Suc.prems(2) by simp
qed auto

theorem consensus_runs_fifty_iterations_witness:
  "\<exists>evs out' l' s'. consensus_run env_nan registry_single calibration_init evs
       (io_boot, luminaire_boot, consensus_single) = Some (out', l', s') \<and>
     consensusState s' = OFF_STATE \<and> vector_count out' = vector_count io_boot + 50"
proof -
  have single: "consensusState consensus_single = ITERATE_STATE" "numIter consensus_single = 0"
    "maxIter consensus_single = 50"
    by (simp_all add: consensus_single_def consensus_boot_def)
  have "lone 0 (io_boot, luminaire_boot, consensus_single)"
    by (simp add: lone_def consensus_single_def consensus_boot_def)
  then obtain out' l' s' where run: "consensus_run env_nan registry_single calibration_init
      (replicate 50 (MainPass 0 0)) (io_boot, luminaire_boot, consensus_single) = Some (out', l', s')"
    and off: "consensusState s' = OFF_STATE"
    using lone_run [of 0 _ 50 0 0] by (fastforce simp: lone_def)
  show ?thesis
    using consensus_runs_fifty_iterations [OF run single off] registry_single_ok(3) run off
    by (intro exI conjI) (assumption | simp add: vector_messages_def)+
qed

subsection \<open>The frame counter can overrun\<close>



end
