(* ===== verification/Metrics.thy ===== *)
theory Metrics
  imports Luminaire
begin

text \<open>
  The performance metrics of \<open>metrics.cpp\<close>: energy, visibility error and flicker error, updated after
  every control step. On the AVR \<open>double\<close> is the 32 bit float, \<open>unsigned long\<close> has 32 bits and wraps, and
  \<open>int\<close> has 16 bits, so the conversion of the flicker product to \<open>int\<close> can be undefined.
  \<open>prev0\<close> and \<open>prev1\<close> are \<open>previousLuxSamples[0]\<close> and \<open>[1]\<close>.
\<close>

record metrics =
  numberOfSamples :: u32
  prev0 :: f32
  prev1 :: f32
  currentLux :: f32
  energyConsumedSinceLastReset :: f32
  flickerError :: f32
  visibilityError :: f32

definition nominalPower :: f32 where "nominalPower = f_int 1"

definition metrics_init :: metrics where
  "metrics_init = \<lparr>numberOfSamples = 0, prev0 = f_int 0, prev1 = f_int 0, currentLux = f_int 0,
     energyConsumedSinceLastReset = f_int 0, flickerError = f_int 0, visibilityError = f_int 0\<rparr>"

definition powerConsumption :: "luminaire \<Rightarrow> f32" where
  "powerConsumption l = nominalPower * ctl_u (lum_controller l) / f_int 255"

definition energyConsumption :: "luminaire \<Rightarrow> f32" where
  "energyConsumption l = powerConsumption l * f_ulong (samplingTime l) / f_int 1000000"

definition visibilityErrorUpdate :: "luminaire \<Rightarrow> metrics \<Rightarrow> metrics" where
  "visibilityErrorUpdate l s =
     (let newSample = f_max (f_int 0) (luxRefAfterConsensus l - currentLux s)
      in s\<lparr>visibilityError := (visibilityError s * f_ulong (numberOfSamples s) + newSample)
            / f_ulong (numberOfSamples s + 1)\<rparr>)"

text \<open>The new flicker sample; \<open>flickerFlag\<close> is the product truncated to a 16 bit \<open>int\<close>.\<close>

definition flicker_sample :: "luminaire \<Rightarrow> metrics \<Rightarrow> f32 option" where
  "flicker_sample l s = do {
     flickerFlag \<leftarrow> f_to_i16 ((currentLux s - prev0 s) * (prev0 s - prev1 s));
     Some (if flickerFlag < 0
           then (f_abs (currentLux s - prev0 s) + f_abs (prev0 s - prev1 s))
                  / (f_ulong (2 * samplingTime l) / f_int 1000000)
           else f_int 0)
   }"

definition flickerErrorUpdate :: "luminaire \<Rightarrow> metrics \<Rightarrow> metrics option" where
  "flickerErrorUpdate l s = do {
     s \<leftarrow> (if 3 \<le> numberOfSamples s then do {
             newSample \<leftarrow> flicker_sample l s;
             Some (s\<lparr>flickerError := (flickerError s * f_ulong (numberOfSamples s - 2) + newSample)
                       / f_ulong (numberOfSamples s - 1)\<rparr>)
           } else Some s);
     Some (s\<lparr>prev1 := prev0 s, prev0 := currentLux s\<rparr>)
   }"

definition updateMetrics :: "libm \<Rightarrow> adc \<Rightarrow> luminaire \<Rightarrow> metrics \<Rightarrow> metrics option" where
  "updateMetrics m adc l s = do {
     let voltage = getVoltage adc;
     let s = s\<lparr>currentLux := voltageToLux m l voltage\<rparr>;
     let s = s\<lparr>energyConsumedSinceLastReset :=
       energyConsumedSinceLastReset s + energyConsumption l\<rparr>;
     s \<leftarrow> flickerErrorUpdate l s;
     let s = visibilityErrorUpdate l s;
     Some (s\<lparr>numberOfSamples := numberOfSamples s + 1\<rparr>)
   }"

definition resetMetrics :: "metrics \<Rightarrow> metrics" where
  "resetMetrics s = s\<lparr>numberOfSamples := 0, prev0 := f_int 0, prev1 := f_int 0,
     currentLux := f_int 0, energyConsumedSinceLastReset := f_int 0, flickerError := f_int 0,
     visibilityError := f_int 0\<rparr>"

lemma resetMetrics_is_init: "resetMetrics s = metrics_init"
  by (simp add: resetMetrics_def metrics_init_def)

subsection \<open>Histories\<close>

text \<open>A sequence of updates: the ADC reading and the luminaire at each of them.\<close>

fun update_all :: "libm \<Rightarrow> (adc \<times> luminaire) list \<Rightarrow> metrics \<Rightarrow> metrics option" where
  "update_all m [] s = Some s"
| "update_all m ((adc, l) # hist) s = do { s \<leftarrow> updateMetrics m adc l s; update_all m hist s }"

lemma update_all_append:
  "update_all m (xs @ ys) s = do { s \<leftarrow> update_all m xs s; update_all m ys s }"
  by (induction xs arbitrary: s) (auto split: bind_splits)

lemma updateMetrics_fields:
  assumes "updateMetrics m adc l s = Some s'"
  shows "numberOfSamples s' = numberOfSamples s + 1" "prev1 s' = prev0 s"
    "prev0 s' = voltageToLux m l (getVoltage adc)" "currentLux s' = voltageToLux m l (getVoltage adc)"
    "energyConsumedSinceLastReset s' = energyConsumedSinceLastReset s + energyConsumption l"
  using assms
  by (auto simp: updateMetrics_def flickerErrorUpdate_def visibilityErrorUpdate_def Let_def
      bind_eq_Some_conv split: if_splits)

text \<open>The energy the code accumulates, as a fold over the control signals of the history.\<close>

definition energy_sum :: "(adc \<times> luminaire) list \<Rightarrow> f32 \<Rightarrow> f32" where
  "energy_sum hist e = fold (\<lambda>(adc, l) e. e + energyConsumption l) hist e"

lemma update_all_fields:
  assumes "update_all m hist s = Some s'"
  shows "numberOfSamples s' = numberOfSamples s + of_nat (length hist) \<and>
     energyConsumedSinceLastReset s' = energy_sum hist (energyConsumedSinceLastReset s)"
  using assms
proof (induction hist arbitrary: s)
  case Nil
  then show ?case by (simp add: energy_sum_def)
next
  case (Cons e hist)
  obtain adc l where e: "e = (adc, l)" by (cases e)
  obtain s1 where s1: "updateMetrics m adc l s = Some s1" and rest: "update_all m hist s1 = Some s'"
    using Cons.prems by (auto simp: e bind_eq_Some_conv)
  show ?case using Cons.IH [OF rest] updateMetrics_fields [OF s1] by (simp add: e energy_sum_def)
qed

lemma update_all_last:
  assumes "update_all m (hist @ [(a1, l1), (a2, l2)]) s = Some s'"
  shows "prev0 s' = voltageToLux m l2 (getVoltage a2) \<and> prev1 s' = voltageToLux m l1 (getVoltage a1)"
proof -
  obtain s1 s2 where "updateMetrics m a1 l1 s1 = Some s2" and "updateMetrics m a2 l2 s2 = Some s'"
    using assms by (auto simp: update_all_append bind_eq_Some_conv)
  then show ?thesis by (simp add: updateMetrics_fields)
qed

text \<open>Whatever the history since the last reset, the metrics object has counted every update
  (modulo the 32 bit counter), holds the last two illuminances in the two places the next flicker
  sample reads them from, and its energy is the sum of the power of each update times its sampling
  time.\<close>

theorem metrics_track_history:
  assumes "update_all m (hist @ [(a1, l1), (a2, l2)]) (resetMetrics s) = Some s'"
  shows "numberOfSamples s' = of_nat (length hist + 2) \<and>
     prev0 s' = voltageToLux m l2 (getVoltage a2) \<and> prev1 s' = voltageToLux m l1 (getVoltage a1) \<and>
     energyConsumedSinceLastReset s' = energy_sum (hist @ [(a1, l1), (a2, l2)]) (f_int 0)"
  using update_all_fields [OF assms] update_all_last [OF assms]
  by (simp add: resetMetrics_def add.commute)

lemma metrics_example: "\<exists>s. update_all libm_example [(0, luminaire_boot), (0, luminaire_boot)]
    (resetMetrics metrics_init) = Some s"
  by (simp add: updateMetrics_def flickerErrorUpdate_def visibilityErrorUpdate_def Let_def
      resetMetrics_def word_le_nat_alt)

theorem metrics_track_history_witness:
  "\<exists>s. update_all libm_example [(0, luminaire_boot), (0, luminaire_boot)] (resetMetrics metrics_init) = Some s
     \<and> numberOfSamples s = 2 \<and> prev0 s = F32 0x3F800000"
proof -
  obtain s where s: "update_all libm_example ([] @ [(0, luminaire_boot), (0, luminaire_boot)])
      (resetMetrics metrics_init) = Some s"
    using metrics_example by auto
  show ?thesis
    using metrics_track_history [OF s] s
    by (auto simp: voltageToLux_def libm_example_def Let_def)
qed

subsection \<open>The flicker flag\<close>

text \<open>Flicker is lost in the truncation: when the product of the last two changes of the
  illuminance is larger than -1, also when it is negative, the conversion of the product to
  \<open>int\<close> gives 0 and the sample counted is 0.\<close>

theorem flicker_small_is_lost:
  assumes "f_int (-1) < (currentLux s - prev0 s) * (prev0 s - prev1 s)"
    and "(currentLux s - prev0 s) * (prev0 s - prev1 s) < f_int 0"
  shows "flicker_sample l s = Some (f_int 0)"
proof -
  let ?p = "(currentLux s - prev0 s) * (prev0 s - prev1 s)"
  have le: "f_int (-1) \<le> ?p" "?p \<le> f_int 0" using assms by (simp_all add: f_less_imp_le)
  note b = f_trunc_between [OF le]
  have ends: "fval (f_int (- 1)) = - 1" "fval (f_int 0) = 0" "is_fin (f_int (- 1))" "is_fin (f_int 0)"
    using f_int_facts [of "- 1"] f_int_facts [of 0] by simp_all
  have lt: "- 1 < fval ?p" "fval ?p < 0" using assms b(1) ends by (simp_all add: f_less_fval)
  have "\<bar>fint ?p\<bar> < 2 ^ 149"
  proof -
    have "real_of_int (- (2 ^ 149)) < real_of_int (fint ?p)" "real_of_int (fint ?p) < 0"
      using lt by (simp_all add: fval_def field_simps)
    then have "- (2 ^ 149) < fint ?p" "fint ?p < 0" by (simp_all only: of_int_less_iff of_int_less_0_iff)
    then show ?thesis by simp
  qed
  then have "f_trunc ?p = 0" by (simp add: f_trunc_def)
  then have "f_to_i16 ?p = Some 0" using b(1) by (simp add: f_to_i16_def f_to_int_def)
  then show ?thesis by (simp add: flicker_sample_def)
qed

definition flicker_example :: metrics where
  "flicker_example = metrics_init\<lparr>numberOfSamples := 5, currentLux := F32 0x42C90000,
     prev0 := F32 0x42C80000, prev1 := F32 0x42C90000\<rparr>"

lemma flicker_example_product:
  "(currentLux flicker_example - prev0 flicker_example) *
     (prev0 flicker_example - prev1 flicker_example) = F32 0xBE800000"
proof -
  have d: "F32 0x42C90000 - F32 0x42C80000 = F32 0x3F000000"
    "F32 0x42C80000 - F32 0x42C90000 = F32 0xBF000000" by (simp_all add: f_eval)
  have "F32 0x3F000000 * F32 0xBF000000 = F32 0xBE800000" by (simp add: f_eval)
  then show ?thesis by (simp add: flicker_example_def d)
qed

theorem flicker_small_is_lost_witness:
  "flicker_sample luminaire_running flicker_example = Some (f_int 0)"
proof -
  have "f_int (-1) < F32 0xBE800000" "F32 0xBE800000 < f_int 0" by (simp_all add: f_eval)
  then show ?thesis
    using flicker_small_is_lost [of flicker_example luminaire_running] by (simp add: flicker_example_product)
qed

end
