(* ===== verification/Node_State.thy ===== *)
theory Node_State
  imports Consensus Metrics
begin

text \<open>
  The state of a whole node: the global objects of \<open>main.cpp\<close>, with the records of the serial interface
  (\<open>serialComm.h\<close>) and of the main state machine (\<open>mainFSM.h\<close>). The constants of a node (its id, the
  mathematics library, the CAN driver) are the \<^typ>\<open>node_env\<close> of the calibration theory.
\<close>

record serialcomm =
  numNodesWaitingResult :: u8
  runningTotalCommand :: bool
  totalCommandResult :: f32
  pcDiscoveryHadResponse :: bool

definition serial_boot :: serialcomm where
  "serial_boot = \<lparr>numNodesWaitingResult = 0, runningTotalCommand = False, totalCommandResult = 0,
     pcDiscoveryHadResponse = False\<rparr>"

definition resetSerialComm :: "serialcomm \<Rightarrow> serialcomm" where
  "resetSerialComm s =
     s\<lparr>numNodesWaitingResult := 0, runningTotalCommand := False, totalCommandResult := f_int 0\<rparr>"

datatype main_state = Init | WakeupWait | Calibrate | Run

record mainfsm =
  main_state :: main_state
  main_lastTransitionTime :: u32

definition mainfsm_boot :: mainfsm where
  "mainfsm_boot = \<lparr>main_state = Init, main_lastTransitionTime = 0\<rparr>"

definition main_setState :: "main_state \<Rightarrow> u32 \<Rightarrow> mainfsm \<Rightarrow> mainfsm" where
  "main_setState st now f = f\<lparr>main_state := st, main_lastTransitionTime := now\<rparr>"

definition resetMainFSM :: "mainfsm \<Rightarrow> mainfsm" where
  "resetMainFSM f = f\<lparr>main_state := Init\<rparr>"

record node =
  n_reg :: registry
  hubNode :: u8
  timeSinceLastReset :: u32
  didControl :: bool
  n_io :: io
  n_lum :: luminaire
  n_main :: mainfsm
  n_lpf :: lpf
  n_cal :: calibration
  n_ser :: serialcomm
  n_cons :: consensus
  n_met :: metrics
  interrupt :: bool
  mcp2515_overflow :: bool
  arduino_overflow :: bool
  cf_stream :: "can_frame stream"
  timeLastPCDiscovery :: u32

definition frame_zero :: can_frame where
  "frame_zero = \<lparr>can_id = 0, can_dlc = 0, can_data = replicate 8 0\<rparr>"

definition node_boot :: node where
  "node_boot = \<lparr>n_reg = registry_boot, hubNode = 0, timeSinceLastReset = 0, didControl = False,
     n_io = io_boot, n_lum = luminaire_boot, n_main = mainfsm_boot, n_lpf = lpf_init,
     n_cal = calibration_init, n_ser = serial_boot, n_cons = consensus_boot, n_met = metrics_init,
     interrupt = False, mcp2515_overflow = False, arduino_overflow = False,
     cf_stream = stream_init (replicate buffsize frame_zero), timeLastPCDiscovery = 0\<rparr>"

text \<open>
  The values an operation reads from the hardware: results of \<open>analogRead\<close> and \<open>micros\<close> in the order
  it takes them, and of \<open>millis\<close>.
\<close>

record readings =
  rd_adc :: adc
  rd_adc2 :: adc
  rd_t0 :: u32
  rd_t1 :: u32
  rd_t2 :: u32
  rd_t3 :: u32
  rd_millis :: u32

definition rd_example :: readings where
  "rd_example = \<lparr>rd_adc = 512, rd_adc2 = 512, rd_t0 = 0, rd_t1 = 0, rd_t2 = 0, rd_t3 = 0, rd_millis = 0\<rparr>"

definition n_emit :: "effect list \<Rightarrow> node \<Rightarrow> node" where
  "n_emit es n = n\<lparr>n_io := emit es (n_io n)\<rparr>"

end
