(* ===== verification/Serial_Comm.thy ===== *)
theory Serial_Comm
  imports Node_State
begin

text \<open>
  The serial interface of a node (\<open>serialComm.cpp\<close>): the commands of the PC, their execution here or on
  another node, the sum of a command addressed to all nodes, and the discovery of the PC. Serial
  output goes to the log of \<^typ>\<open>io\<close>. An operation that the source leaves undefined is
  \<^term>\<open>None\<close>, also the reply to an unknown \<open>get\<close> type, which is an uninitialised union.
\<close>

subsection \<open>Output\<close>

definition sendResponse :: "u32 \<Rightarrow> effect list" where
  "sendResponse v =
     [SerialWrite 255, SerialWrite (char_code (CHR ''R'')),
      SerialWrite (ucast (drop_bit 24 v AND 0xFF)), SerialWrite (ucast (drop_bit 16 v AND 0xFF)),
      SerialWrite (ucast (drop_bit 8 v AND 0xFF)), SerialWrite (ucast (v AND 0xFF)), SerialFlush]"

definition sendListNodesToPC :: "registry \<Rightarrow> effect list option" where
  "sendListNodesToPC r =
     (if node_count r \<le> length (nodesList r)
      then Some ([SerialWrite 255, SerialWrite (char_code (CHR ''L'')), SerialWrite (numTotalNodes r)] @
        map SerialWrite (take (node_count r) (nodesList r)) @ [SerialFlush])
      else None)"

text \<open>\<open>registerNewNode\<close> with its prints and the list it sends when this node is the hub.\<close>

definition node_register :: "node_env \<Rightarrow> u8 \<Rightarrow> node \<Rightarrow> node option" where
  "node_register e nid n = do {
     let n = n_emit [SerialPrint ''Registering new node '', SerialPrintInt (uint nid), SerialNewline] n;
     r \<leftarrow> registerNewNode nid (n_reg n);
     let n = n\<lparr>n_reg := r\<rparr>;
     (if nodeId e = hubNode n
      then do { es \<leftarrow> sendListNodesToPC (n_reg n); Some (n_emit es n) }
      else Some n)
   }"

definition node_reset_glob :: "node_env \<Rightarrow> node \<Rightarrow> node option" where
  "node_reset_glob e n = do {
     let r = n_reg n;
     (nodes, idx) \<leftarrow> clear_nodes (node_count r) 0 (nodesList r, nodeIndexOnGainMatrix r);
     node_register e (nodeId e)
       (n\<lparr>n_reg := \<lparr>nodesList = nodes, nodeIndexOnGainMatrix = idx, numTotalNodes = 0\<rparr>\<rparr>)
   }"

subsection \<open>Command execution\<close>

definition is_char :: "u8 \<Rightarrow> char \<Rightarrow> bool" where
  "is_char b c \<longleftrightarrow> b = char_code c"

definition get_value :: "node_env \<Rightarrow> readings \<Rightarrow> u8 \<Rightarrow> node \<Rightarrow> u32 option" where
  "get_value e rd t n =
     (let l = n_lum n in
      if is_char t CHR ''I'' then Some (f_bits (voltageToLux (env_libm e) l (getVoltage (rd_adc rd))))
      else if is_char t CHR ''d'' then Some (f_bits (ctl_u (lum_controller l) * f_int 100 / f_int 255))
      else if is_char t CHR ''o'' then Some (if occupied l = False then 0 else 1)
      else if is_char t CHR ''O'' then Some (f_bits (luxOccupied l))
      else if is_char t CHR ''U'' then Some (f_bits (luxNonOccupied l))
      else if is_char t CHR ''L'' then Some (f_bits (luxRef l))
      else if is_char t CHR ''x'' then do {
        i \<leftarrow> gain_index (n_reg n) (nodeId e);
        v \<leftarrow> aget (residualArray (n_cal n)) (unat i);
        Some (f_bits v)
      }
      else if is_char t CHR ''r'' then Some (f_bits (luxRefAfterConsensus l))
      else if is_char t CHR ''c'' then Some (f_bits (lum_cost l))
      else if is_char t CHR ''t'' then Some (f_bits (f_ulong ((rd_millis rd - timeSinceLastReset n) div 1000)))
      else if is_char t CHR ''p'' then Some (f_bits (powerConsumption l))
      else if is_char t CHR ''e'' then Some (f_bits (energyConsumedSinceLastReset (n_met n)))
      else if is_char t CHR ''v'' then Some (f_bits (visibilityError (n_met n)))
      else if is_char t CHR ''f'' then Some (f_bits (flickerError (n_met n)))
      else None)"

text \<open>\<open>communication.sendDoConsensus(); consensus.init();\<close>\<close>

definition restart_consensus :: "node_env \<Rightarrow> node \<Rightarrow> node option" where
  "restart_consensus e n = do {
     let n = n\<lparr>n_io := sendDoConsensus (env_drv e) (nodeId e) (n_io n)\<rparr>;
     s \<leftarrow> consensus_init e (n_reg n) (n_lum n) (n_cal n) (n_cons n);
     Some (n\<lparr>n_cons := s\<rparr>)
   }"

definition set_reference_occupied :: "node_env \<Rightarrow> f32 \<Rightarrow> node \<Rightarrow> node option" where
  "set_reference_occupied e v n =
     (if \<not> f_eq (luxOccupied (n_lum n)) v then
        (let n = n\<lparr>n_lum := (n_lum n)\<lparr>luxOccupied := v\<rparr>\<rparr> in
         if occupied (n_lum n) then restart_consensus e (n\<lparr>n_lum := (n_lum n)\<lparr>luxRef := v\<rparr>\<rparr>) else Some n)
      else Some n)"

definition set_reference_unoccupied :: "node_env \<Rightarrow> f32 \<Rightarrow> node \<Rightarrow> node option" where
  "set_reference_unoccupied e v n =
     (if \<not> f_eq (luxNonOccupied (n_lum n)) v then
        (let n = n\<lparr>n_lum := (n_lum n)\<lparr>luxNonOccupied := v\<rparr>\<rparr> in
         if \<not> occupied (n_lum n) then restart_consensus e (n\<lparr>n_lum := (n_lum n)\<lparr>luxRef := v\<rparr>\<rparr>) else Some n)
      else Some n)"

definition EEPROM_ADDR_COST :: nat where "EEPROM_ADDR_COST = 9"

definition set_cost :: "node_env \<Rightarrow> f32 \<Rightarrow> node \<Rightarrow> node option" where
  "set_cost e v n =
     (if \<not> f_eq (lum_cost (n_lum n)) v then do {
        n \<leftarrow> restart_consensus e (n\<lparr>n_lum := (n_lum n)\<lparr>lum_cost := v\<rparr>\<rparr>);
        Some (n_emit [EepromPut EEPROM_ADDR_COST (lum_cost (n_lum n))] n)
      } else Some n)"

definition set_occupied :: "node_env \<Rightarrow> u32 \<Rightarrow> node \<Rightarrow> node option" where
  "set_occupied e v n =
     (let received = (if v = 1 then True else False) in
      if received \<noteq> occupied (n_lum n)
      then restart_consensus e (n\<lparr>n_lum := setOccupied received (n_lum n)\<rparr>)
      else Some n)"

definition reset_node :: "node_env \<Rightarrow> readings \<Rightarrow> node \<Rightarrow> node option" where
  "reset_node e rd n = do {
     let k = node_count (n_reg n);
     cal \<leftarrow> resetCalib k (n_cal n);
     let n = n\<lparr>n_cal := cal\<rparr>;
     s \<leftarrow> resetConsensus k (n_cons n);
     let n = n\<lparr>n_cons := s\<rparr>;
     f \<leftarrow> resetLPF (n_lpf n);
     let n = n\<lparr>n_lpf := f\<rparr>;
     let n = n_emit [DigitalWrite 0] (n\<lparr>n_lum := resetLuminaire (n_lum n)\<rparr>);
     let n = n\<lparr>n_main := resetMainFSM (n_main n)\<rparr>;
     let n = n\<lparr>n_met := resetMetrics (n_met n)\<rparr>;
     n \<leftarrow> node_reset_glob e n;
     let n = n\<lparr>n_ser := resetSerialComm (n_ser n)\<rparr>;
     Some (n\<lparr>timeSinceLastReset := rd_millis rd\<rparr>)
   }"

definition executeCommand :: "node_env \<Rightarrow> readings \<Rightarrow> command \<Rightarrow> node \<Rightarrow> (u32 \<times> node) option" where
  "executeCommand e rd c n =
     (if is_char (cmd c) CHR ''g'' then do { v \<leftarrow> get_value e rd (getType c) n; Some (v, n) }
      else if is_char (cmd c) CHR ''O'' then
        do { n \<leftarrow> set_reference_occupied e (getFloatValue c) n; Some (1, n) }
      else if is_char (cmd c) CHR ''U'' then
        do { n \<leftarrow> set_reference_unoccupied e (getFloatValue c) n; Some (1, n) }
      else if is_char (cmd c) CHR ''c'' then
        do { n \<leftarrow> set_cost e (getFloatValue c) n; Some (1, n) }
      else if is_char (cmd c) CHR ''r'' then do { n \<leftarrow> reset_node e rd n; Some (1, n) }
      else if is_char (cmd c) CHR ''o'' then
        do { n \<leftarrow> set_occupied e (cmd_value c) n; Some (1, n) }
      else Some (0, n))"

subsection \<open>Commands of the PC and replies of the nodes\<close>

definition sendTotalIfAllValueForTotalReceived :: "node \<Rightarrow> node" where
  "sendTotalIfAllValueForTotalReceived n =
     (if numNodesWaitingResult (n_ser n) = 0
      then (let n = n_emit (sendResponse (f_bits (totalCommandResult (n_ser n)))) n
            in n\<lparr>n_ser := (n_ser n)\<lparr>runningTotalCommand := False\<rparr>\<rparr>)
      else n)"

definition receivedCommandResponseFromCAN :: "u32 \<Rightarrow> node \<Rightarrow> node" where
  "receivedCommandResponseFromCAN v n =
     (if \<not> runningTotalCommand (n_ser n) then n_emit (sendResponse v) n
      else sendTotalIfAllValueForTotalReceived
        (n\<lparr>n_ser := (n_ser n)\<lparr>totalCommandResult := totalCommandResult (n_ser n) + F32 v,
           numNodesWaitingResult := numNodesWaitingResult (n_ser n) - 1\<rparr>\<rparr>))"

definition handle_command :: "node_env \<Rightarrow> readings \<Rightarrow> command \<Rightarrow> node \<Rightarrow> node option" where
  "handle_command e rd c n =
     (if is_char (cmd c) CHR ''D'' then
        (let n = n\<lparr>n_ser := (n_ser n)\<lparr>pcDiscoveryHadResponse := True\<rparr>\<rparr> in
         if hubNode n \<noteq> nodeId e then
           (let n = n_emit [SerialPrint ''[Debug] This node is now HUB''] n;
                n = n\<lparr>hubNode := nodeId e\<rparr>;
                n = n\<lparr>n_io := sendBroadcastIsHubNode (env_drv e) (nodeId e) (n_io n)\<rparr>
            in do { es \<leftarrow> sendListNodesToPC (n_reg n); Some (n_emit es n) })
         else Some n)
      else if destination c = 0 then do {
        let n = n\<lparr>n_ser := (n_ser n)\<lparr>numNodesWaitingResult := numTotalNodes (n_reg n) - 1,
          runningTotalCommand := True\<rparr>\<rparr>;
        (v, n) \<leftarrow> executeCommand e rd c n;
        let n = n\<lparr>n_ser := (n_ser n)\<lparr>totalCommandResult := F32 v\<rparr>\<rparr>;
        let n = n\<lparr>n_io := sendCommandRequest (env_drv e) (nodeId e) 0 c (n_io n)\<rparr>;
        Some (sendTotalIfAllValueForTotalReceived n)
      }
      else if destination c = nodeId e then do {
        (v, n) \<leftarrow> executeCommand e rd c n;
        Some (n_emit (sendResponse v) n)
      }
      else if checkIfNodeExists (destination c) (n_reg n) then
        (let n = n_emit [SerialPrint ''Sending command request!'', SerialNewline] n in
         Some (n\<lparr>n_io := sendCommandRequest (env_drv e) (nodeId e) (destination c) c (n_io n)\<rparr>))
      else Some (n_emit [SerialPrint ''[DEBUG] error, node '', SerialPrintInt (uint (destination c)),
        SerialPrint '' doesn't exist'', SerialNewline] n))"

text \<open>
  \<open>readSerial\<close>: \<open>bytes\<close> is what the port delivers during the call. Six bytes are read after a
  synchronisation byte; if fewer come before the timeout the rest of the buffer is uninitialised.
  \<open>rds k\<close> are the readings of the \<open>k\<close>-th command.
\<close>

function readSerial :: "node_env \<Rightarrow> (nat \<Rightarrow> readings) \<Rightarrow> u8 list \<Rightarrow> nat \<Rightarrow> node \<Rightarrow> node option" where
  "readSerial e rds [] k n = Some n"
| "readSerial e rds (b # bs) k n =
     (if b = 255 then do {
        c \<leftarrow> command_of_buffer (take 6 bs);
        n \<leftarrow> handle_command e (rds k) c n;
        readSerial e rds (drop 6 bs) (k + 1) n
      } else readSerial e rds bs k n)"
  by pat_completeness auto
termination by (relation "measure (\<lambda>(e, rds, bs, k, n). length bs)") auto

text \<open>Every two seconds; a hub whose last discovery had no answer gives up the role.\<close>

definition sendPCDiscovery :: "node_env \<Rightarrow> node \<Rightarrow> node" where
  "sendPCDiscovery e n =
     (let n = (if hubNode n = nodeId e \<and> \<not> pcDiscoveryHadResponse (n_ser n)
               then (let n = n\<lparr>hubNode := 0\<rparr> in
                     n\<lparr>n_io := sendBroadcastNoLongerIsHubNode (env_drv e) (nodeId e) (n_io n)\<rparr>)
               else n);
          n = n\<lparr>n_ser := (n_ser n)\<lparr>pcDiscoveryHadResponse := False\<rparr>\<rparr>
      in n_emit [SerialWrite 255, SerialWrite (char_code (CHR ''D'')), SerialFlush] n)"

subsection \<open>Reading commands\<close>

lemma readSerial_noise:
  "255 \<notin> set noise \<Longrightarrow> readSerial e rds (noise @ bs) k n = readSerial e rds bs k n"
  by (induction noise) auto

lemma readSerial_command_aux:
  assumes "255 \<notin> set noise"
  shows "readSerial e rds (noise @ 255 # toByteArray c @ rest) k n =
     do { n \<leftarrow> handle_command e (rds k) c n; readSerial e rds rest (k + 1) n }"
proof -
  have len: "length (toByteArray c) = 6" by (rule cmd_codec.enc_width)
  then have "command_of_buffer (take 6 (toByteArray c @ rest)) = Some c"
    using cmd_codec.dec_enc_exact by simp
  then show ?thesis using len by (simp add: readSerial_noise [OF assms])
qed

text \<open>A command sent by the PC is the command executed: whatever bytes without the synchronisation
  byte precede it, the six bytes after a 255 are decoded to the command they encode, and reading goes
  on after them.\<close>

theorem readSerial_command:
  assumes "255 \<notin> set noise"
  shows "readSerial e rds (noise @ 255 # toByteArray c @ rest) k n =
     do { n \<leftarrow> handle_command e (rds k) c n; readSerial e rds rest (k + 1) n }"
  using assms by (rule readSerial_command_aux)

theorem readSerial_command_witness:
  "readSerial env_example (\<lambda>_. rd_example) ([10, 7] @ 255 # toByteArray (command_type (char_code (CHR ''D'')) 0 0)) 0 node_boot =
     do { n \<leftarrow> handle_command env_example rd_example (command_type (char_code (CHR ''D'')) 0 0) node_boot;
          readSerial env_example (\<lambda>_. rd_example) [] 1 n }"
  using readSerial_command [of "[10, 7]" env_example "\<lambda>_. rd_example" "command_type (char_code (CHR ''D'')) 0 0" "[]" 0 node_boot]
  by simp

subsection \<open>Setting values\<close>

lemma char_codes [simp]:
  "char_code (CHR ''g'') = 103" "char_code (CHR ''O'') = 79" "char_code (CHR ''U'') = 85"
  "char_code (CHR ''c'') = 99" "char_code (CHR ''r'') = 114" "char_code (CHR ''o'') = 111"
  "char_code (CHR ''D'') = 68" "char_code (CHR ''R'') = 82" "char_code (CHR ''L'') = 76"
  "char_code (CHR ''F'') = 70"
  by (simp_all add: char_code_def)

lemma f_eq_refl: "\<not> is_nan v \<Longrightarrow> f_eq v v"
  by (simp add: f_eq_def)

lemma restart_consensus_lum: "restart_consensus e n = Some n' \<Longrightarrow> n_lum n' = n_lum n"
  by (auto simp: restart_consensus_def bind_eq_Some_conv Let_def)

definition is_setter :: "command \<Rightarrow> bool" where
  "is_setter c \<longleftrightarrow> is_char (cmd c) CHR ''O'' \<or> is_char (cmd c) CHR ''U'' \<or> is_char (cmd c) CHR ''c'' \<or>
     is_char (cmd c) CHR ''o''"

lemma setter_done:
  assumes "executeCommand e rd c n = Some (v, n')" "is_setter c" "\<not> is_nan (getFloatValue c)"
  shows "v = 1 \<and>
     (is_char (cmd c) CHR ''O'' \<longrightarrow> f_eq (luxOccupied (n_lum n')) (getFloatValue c)) \<and>
     (is_char (cmd c) CHR ''U'' \<longrightarrow> f_eq (luxNonOccupied (n_lum n')) (getFloatValue c)) \<and>
     (is_char (cmd c) CHR ''c'' \<longrightarrow> f_eq (lum_cost (n_lum n')) (getFloatValue c)) \<and>
     (is_char (cmd c) CHR ''o'' \<longrightarrow> occupied (n_lum n') = (cmd_value c = 1))"
  using assms f_eq_refl [OF assms(3)]
  by (auto simp: executeCommand_def is_setter_def is_char_def set_reference_occupied_def
      set_reference_unoccupied_def set_cost_def set_occupied_def bind_eq_Some_conv Let_def n_emit_def
      setOccupied_def dest!: restart_consensus_lum split: if_splits)

text \<open>Setting is idempotent: repeating the command that sets a reference, the cost or the occupancy
  changes nothing and sends nothing, so a repeated command does not restart the optimisation.\<close>

theorem setter_idempotent:
  assumes "executeCommand e rd c n = Some (v, n')" "is_setter c" "\<not> is_nan (getFloatValue c)"
  shows "executeCommand e rd' c n' = Some (1, n')"
  using setter_done [OF assms] assms(2)
  by (auto simp: executeCommand_def is_setter_def is_char_def set_reference_occupied_def
      set_reference_unoccupied_def set_cost_def set_occupied_def Let_def)

definition set_cost_command :: command where
  "set_cost_command = command_float (char_code (CHR ''c'')) 2 (f_int 3)"

definition node_single :: node where
  "node_single = node_boot\<lparr>n_reg := registry_single\<rparr>"

lemma set_cost_example: "\<exists>n'. executeCommand env_example rd set_cost_command node_single = Some (1, n')"
proof -
  have ne: "\<not> f_eq (F32 0) (f_int 3)" by (simp add: f_eval)
  obtain s where "consensus_init env_example registry_single (luminaire_boot\<lparr>lum_cost := f_int 3\<rparr>)
      calibration_init consensus_boot = Some s"
    by (simp add: consensus_init_def env_example_def gain_index_def registry_single_def aget_def Let_def
      calibration_init_def consensus_boot_def MAX_NUM_NODES_def set_prefix_def)
  then show ?thesis
    using ne
    by (simp add: executeCommand_def set_cost_command_def command_float_def setFloatValue_def is_char_def
        command_default_def set_cost_def getFloatValue_def node_single_def node_boot_def Let_def
        restart_consensus_def luminaire_boot_def zero_f32_def)
qed

theorem setter_idempotent_witness:
  "\<exists>n'. executeCommand env_example rd_example set_cost_command node_single = Some (1, n') \<and>
     executeCommand env_example rd_example set_cost_command n' = Some (1, n')"
proof -
  obtain n' where n': "executeCommand env_example rd_example set_cost_command node_single = Some (1, n')"
    using set_cost_example by blast
  have "is_setter set_cost_command" "\<not> is_nan (getFloatValue set_cost_command)"
    using f_int_facts [of 3]
    by (simp_all add: set_cost_command_def is_setter_def is_char_def command_float_def setFloatValue_def
        getFloatValue_def)
  then show ?thesis using setter_idempotent [OF n'] n' by blast
qed

text \<open>C32. The reset command never completes: it always reaches the reset of the low-pass filter, which
  writes behind its array.\<close>

theorem reset_command_undefined:
  assumes "is_char (cmd c) CHR ''r''" "length (lpfSamples (n_lpf n)) = LPF_TOTAL_SAMPLES"
  shows "executeCommand e rd c n = None"
proof -
  have "resetLPF (n_lpf n) = None" using assms(2) by (simp add: resetLPF_def aset_def)
  then have "reset_node e rd n = None"
    by (auto simp: reset_node_def Let_def bind_eq_None_conv split: bind_splits)
  then show ?thesis using assms(1) by (auto simp: executeCommand_def is_char_def)
qed

theorem reset_command_undefined_witness:
  "executeCommand env_example rd_example (command_type (char_code (CHR ''r'')) 2 0) node_single = None"
  by (rule reset_command_undefined)
    (simp_all add: command_type_def setType_def is_char_def node_single_def node_boot_def lpf_init_def)

subsection \<open>Commands to all nodes\<close>

lemma total_step:
  assumes "runningTotalCommand (n_ser n)" "1 < unat (numNodesWaitingResult (n_ser n))"
  shows "receivedCommandResponseFromCAN v n = n\<lparr>n_ser := (n_ser n)
    \<lparr>totalCommandResult := totalCommandResult (n_ser n) + F32 v,
     numNodesWaitingResult := numNodesWaitingResult (n_ser n) - 1\<rparr>\<rparr>"
proof -
  have "numNodesWaitingResult (n_ser n) - 1 \<noteq> 0" using assms(2) by auto
  then show ?thesis
    using assms(1)
    by (simp add: receivedCommandResponseFromCAN_def sendTotalIfAllValueForTotalReceived_def)
qed



subsection \<open>The role of hub\<close>

text \<open>A hub survives a discovery period exactly when the PC answered in it: with an answer since the
  last discovery it stays the hub, without one it gives up the role and tells the network.\<close>

theorem hub_needs_answer:
  assumes "hubNode n = nodeId e" "nodeId e \<noteq> 0"
  shows "(hubNode (sendPCDiscovery e n) = nodeId e \<longleftrightarrow> pcDiscoveryHadResponse (n_ser n)) \<and>
     sent_frames (log (n_io (sendPCDiscovery e n))) = sent_frames (log (n_io n)) @
       (if pcDiscoveryHadResponse (n_ser n) then []
        else [sendingFrame (sendBroadcastNoLongerIsHubNode (env_drv e) (nodeId e) (n_io n))]) \<and>
     \<not> pcDiscoveryHadResponse (n_ser (sendPCDiscovery e n))"
  using assms
  by (simp add: sendPCDiscovery_def Let_def n_emit_def emit_def sendBroadcastNoLongerIsHubNode_def
      sent_frames_def [of "[SerialWrite _, SerialWrite _, SerialFlush]"])

theorem hub_needs_answer_witness:
  "hubNode (sendPCDiscovery env_example (node_single\<lparr>hubNode := 2\<rparr>)) \<noteq> 2"
  using hub_needs_answer [of "node_single\<lparr>hubNode := 2\<rparr>" env_example]
  by (simp add: env_example_def node_single_def node_boot_def serial_boot_def)

end
