(* ===== verification/Communication.thy ===== *)
theory Communication
  imports Serial_Comm
begin

text \<open>
  The receiving half of \<open>communication.cpp\<close>: what a node does with a CAN frame. The message type and
  the sender are read from the identifier; each type is one branch.
\<close>

definition freq_data_serial :: "u8 list \<Rightarrow> effect list option" where
  "freq_data_serial data =
     (if length data < 4 then None
      else Some ([SerialWrite 255, SerialWrite (char_code (CHR ''F''))] @
        map SerialWrite (take 4 data) @ [SerialFlush]))"

definition received :: "node_env \<Rightarrow> readings \<Rightarrow> can_frame \<Rightarrow> node \<Rightarrow> node option" where
  "received e rd f n =
     (let msgType = id_type (can_id f); sender = id_sender (can_id f) in
      if msgType = CAN_WAKEUP_BROADCAST then node_register e sender n
      else if msgType = CAN_CALIB_READY then do {
        c \<leftarrow> calib_ready_frame (n_reg n) sender (can_data f) (n_cal n);
        Some (n\<lparr>n_cal := c\<rparr>)
      }
      else if msgType = CAN_CALIB_LED_ON then Some (n\<lparr>n_cal := (n_cal n)\<lparr>otherNodeLedOn := True\<rparr>\<rparr>)
      else if msgType = CAN_IS_HUB_NODE then Some (n\<lparr>hubNode := sender\<rparr>)
      else if msgType = CAN_FREQUENT_DATA then do {
        es \<leftarrow> freq_data_serial (can_data f);
        Some (n_emit es n)
      }
      else if msgType = CAN_NO_LONGER_IS_HUB_NODE then
        Some (if hubNode n = sender then n\<lparr>hubNode := 0\<rparr> else n)
      else if msgType = CAN_COMMANDS_REQUEST then do {
        c \<leftarrow> command_of_buffer (can_data f);
        (v, n) \<leftarrow> executeCommand e rd c n;
        Some (n\<lparr>n_io := sendCommandResponse (env_drv e) (nodeId e) sender v (n_io n)\<rparr>)
      }
      else if msgType = CAN_COMMANDS_RESPONSE then do {
        v \<leftarrow> conv_of_bytes (can_data f);
        Some (receivedCommandResponseFromCAN v n)
      }
      else if msgType = CAN_CONSENSUS then do {
        let n = n_emit [SerialPrintInt (uint (can_data f ! 6)), SerialNewline] n;
        s \<leftarrow> consensus_received (node_count (n_reg n)) f (n_cons n);
        Some (n\<lparr>n_cons := s\<rparr>)
      }
      else if msgType = CAN_DO_CONSENSUS then do {
        s \<leftarrow> consensus_init e (n_reg n) (n_lum n) (n_cal n) (n_cons n);
        Some (n\<lparr>n_cons := s\<rparr>)
      }
      else Some n)"

text \<open>\<open>writeFloat\<close>: its parameter is an integer, converted to a float; four data bytes stay uninitialised.\<close>

definition writeFloat :: "driver \<Rightarrow> u32 \<Rightarrow> u32 \<Rightarrow> u8 list \<Rightarrow> io \<Rightarrow> io" where
  "writeFloat drv i val stale s =
     emit [CanTx \<lparr>can_id = i, can_dlc = 4, can_data = float_bytes (f_ulong val) @ stale\<rparr>] s"

subsection \<open>Commands executed on another node\<close>

lemma sent_frame:
  "sendingFrame (send_message drv i dlc bs s) =
     put_data bs ((sendingFrame s)\<lparr>can_id := i, can_dlc := of_nat dlc\<rparr>)"
  by (simp add: send_message_def)


definition get_cost_command :: command where
  "get_cost_command = command_type (char_code (CHR ''g'')) 2 (char_code (CHR ''c''))"

lemma get_cost_example: "executeCommand env_example rd get_cost_command node_single = Some (0, node_single)"
proof -
  have "cmd get_cost_command = 103" "getType get_cost_command = 99"
    by (simp_all add: get_cost_command_def command_type_def setType_def getType_def)
  moreover have "char_code (CHR ''I'') = 73" "char_code (CHR ''d'') = 100" "char_code (CHR ''x'') = 120"
    by (simp_all add: char_code_def)
  ultimately show ?thesis
    by (simp add: executeCommand_def is_char_def get_value_def node_single_def node_boot_def
        luminaire_boot_def zero_f32_def Let_def)
qed


subsection \<open>Frequent data\<close>

definition serial_bytes :: "u8 list \<Rightarrow> effect list" where
  "serial_bytes bs = map SerialWrite bs @ [SerialFlush]"

lemma length_freq_bytes: "length (freq_bytes p) = 4"
  by (simp add: freq_bytes_def Let_def)

text \<open>The frequent data of every node look the same on the serial line: what the hub writes for the
  frame another node sent is what that node would write for the same packet.\<close>

theorem frequent_data_relayed:
  "received e rd (sendingFrame (sendFrequentDataToHub drv src (nodeId e) p s)) n
     = Some (n_emit (serial_bytes (freq_serial p)) n)"
proof -
  have "can_data (sendingFrame (sendFrequentDataToHub drv src (nodeId e) p s)) =
      freq_bytes p @ drop 4 (can_data (sendingFrame s))"
    using length_freq_bytes by (simp add: sendFrequentDataToHub_def sent_frame put_data_def)
  moreover have "id_type (can_id (sendingFrame (sendFrequentDataToHub drv src (nodeId e) p s))) = CAN_FREQUENT_DATA"
    by (simp add: sendFrequentDataToHub_def id_fields)
  ultimately show ?thesis
    by (simp add: received_def can_types freq_data_serial_def serial_bytes_def freq_serial_def
        freq_bytes_def Let_def)
qed

end
