(* ===== verification/Node_Loop.thy ===== *)
theory Node_Loop
  imports Communication
begin

text \<open>
  The main program: the state machine of \<open>mainFSM.cpp\<close>, and \<open>setup\<close>, \<open>loop\<close>, the interrupt handler and
  \<open>sendFrequentData\<close> of \<open>main.cpp\<close>. \<open>rds k\<close> are the hardware readings of the \<open>k\<close>-th operation of a pass.
  The interrupt handler is a step of its own; it runs between the others.
\<close>

subsection \<open>The main state machine\<close>

definition main_runStateInit :: "node_env \<Rightarrow> u32 \<Rightarrow> u32 \<Rightarrow> node \<Rightarrow> node" where
  "main_runStateInit e timeSinceLastTransition now n =
     (if 2000000 < timeSinceLastTransition
      then (let n = n\<lparr>n_io := sendBroadcastWakeup (env_drv e) (nodeId e) (n_io n)\<rparr>
            in n\<lparr>n_main := main_setState WakeupWait now (n_main n)\<rparr>)
      else n)"

definition main_runStateWakeupWait :: "u32 \<Rightarrow> u32 \<Rightarrow> node \<Rightarrow> node" where
  "main_runStateWakeupWait timeSinceLastTransition now n =
     (if 2000000 < timeSinceLastTransition
      then n\<lparr>n_main := main_setState Calibrate now (n_main n)\<rparr> else n)"

text \<open>What follows a finished calibration.\<close>

definition finish_calibration :: "node_env \<Rightarrow> u32 \<Rightarrow> node \<Rightarrow> node option" where
  "finish_calibration e now n = do {
     let n = n\<lparr>n_main := main_setState Run now (n_main n)\<rparr>;
     idx \<leftarrow> gain_index (n_reg n) (nodeId e);
     row \<leftarrow> aget (gainMatrix (n_cal n)) (unat idx);
     g \<leftarrow> aget row (unat idx);
     let n = n\<lparr>n_lum := setSystemGain g (n_lum n)\<rparr>;
     es \<leftarrow> printResidualAndGainMatrix (node_count (n_reg n)) (n_cal n);
     let n = n_emit es n;
     s \<leftarrow> consensus_init e (n_reg n) (n_lum n) (n_cal n) (n_cons n);
     Some (n\<lparr>n_cons := s\<rparr>)
   }"

definition main_calibrate :: "node_env \<Rightarrow> readings \<Rightarrow> node \<Rightarrow> node option" where
  "main_calibrate e rd n = do {
     (s, c) \<leftarrow> calib_loop e (n_reg n) (n_lum n) (rd_adc rd) (rd_t1 rd) (rd_t2 rd) (n_io n) (n_cal n);
     let n = n\<lparr>n_io := s, n_cal := c\<rparr>;
     (if cal_done (n_cal n) then finish_calibration e (rd_t3 rd) n else Some n)
   }"

text \<open>\<open>luminaire.loop()\<close>; the residual is read only by a control step.\<close>

definition main_run :: "node_env \<Rightarrow> readings \<Rightarrow> node \<Rightarrow> node option" where
  "main_run e rd n = do {
     residual \<leftarrow> (if CONTROL_DELAY \<le> rd_t1 rd - lastSampleTime (n_lum n)
        then do { i \<leftarrow> gain_index (n_reg n) (nodeId e); aget (residualArray (n_cal n)) (unat i) }
        else Some (f_int 0));
     (out, l, f) \<leftarrow> luminaire_loop (env_libm e) (rd_t1 rd) (rd_adc rd) (rd_adc2 rd) residual (n_lum n) (n_lpf n);
     let n = n\<lparr>n_lum := l, n_lpf := f\<rparr>;
     Some (case out of
         Some pwm \<Rightarrow> n_emit [AnalogWrite pwm] (n\<lparr>didControl := True\<rparr>)
       | None \<Rightarrow> n)
   }"

definition main_loop :: "node_env \<Rightarrow> readings \<Rightarrow> node \<Rightarrow> node option" where
  "main_loop e rd n =
     (let timeSinceLastTransition = rd_t0 rd - main_lastTransitionTime (n_main n) in
      case main_state (n_main n) of
        Init \<Rightarrow> Some (main_runStateInit e timeSinceLastTransition (rd_t1 rd) n)
      | WakeupWait \<Rightarrow> Some (main_runStateWakeupWait timeSinceLastTransition (rd_t1 rd) n)
      | Calibrate \<Rightarrow> main_calibrate e rd n
      | Run \<Rightarrow> main_run e rd n)"

subsection \<open>Frequent data\<close>

definition sendFrequentData :: "node_env \<Rightarrow> node \<Rightarrow> node option" where
  "sendFrequentData e n =
     (if hubNode n \<noteq> 0 then do {
        let iluminance = voltageToLux (env_libm e) (n_lum n) (measuredVoltage (n_lum n));
        pwm \<leftarrow> f_to_int 0 255 (ctl_u (lum_controller (n_lum n)));
        p \<leftarrow> freq_packet_make (nodeId e) iluminance (of_int pwm);
        Some (if hubNode n = nodeId e then n_emit (serial_bytes (freq_serial p)) n
              else n\<lparr>n_io := sendFrequentDataToHub (env_drv e) (nodeId e) (hubNode n) p (n_io n)\<rparr>)
      } else Some n)"

subsection \<open>Interrupts\<close>

text \<open>One receive buffer: \<open>pending\<close> is its interrupt flag and \<open>f\<close> the frame \<open>readMessage\<close> returns.\<close>

definition irq_buffer :: "bool \<Rightarrow> can_frame \<Rightarrow> node \<Rightarrow> node" where
  "irq_buffer pending f n =
     (if pending then
        (let (ok, st) = stream_put f (cf_stream n); n = n\<lparr>cf_stream := st\<rparr>
         in if ok then n else n\<lparr>arduino_overflow := True\<rparr>)
      else n)"

text \<open>\<open>overflow\<close> is the test of the two overflow flags of the chip.\<close>

definition irqHandler ::
    "bool \<Rightarrow> can_frame \<Rightarrow> bool \<Rightarrow> can_frame \<Rightarrow> bool \<Rightarrow> node \<Rightarrow> node" where
  "irqHandler rx0 f0 rx1 f1 overflow n =
     (let n = irq_buffer rx0 f0 n;
          n = irq_buffer rx1 f1 n;
          n = (if overflow then n\<lparr>mcp2515_overflow := True\<rparr> else n)
      in n\<lparr>interrupt := True\<rparr>)"

subsection \<open>Setup\<close>

text \<open>The EEPROM parameters; the node id is that of the environment.\<close>

record eeprom =
  ee_slopeM :: f32
  ee_slopeB :: f32
  ee_cost :: f32
  ee_a :: f32
  ee_b :: f32

definition node_setup :: "node_env \<Rightarrow> eeprom \<Rightarrow> node \<Rightarrow> node option" where
  "node_setup e ee n = do {
     let n = n\<lparr>n_reg := (n_reg n)\<lparr>numTotalNodes := 0\<rparr>\<rparr>;
     n \<leftarrow> node_register e (nodeId e) n;
     idx \<leftarrow> aset (nodeIndexOnGainMatrix (n_reg n)) 0 0;
     let n = n\<lparr>n_reg := (n_reg n)\<lparr>nodeIndexOnGainMatrix := idx\<rparr>\<rparr>;
     let sim = (simulator (n_lum n))\<lparr>sim_a := ee_a ee, sim_b := ee_b ee\<rparr>;
     let l = (n_lum n)\<lparr>simulator := sim\<rparr>;
     Some (n\<lparr>n_lum := luminaire_init (ee_slopeM ee) (ee_slopeB ee) (ee_cost ee) False l\<rparr>)
   }"

subsection \<open>One pass of the loop\<close>

definition overflow_reports :: "node \<Rightarrow> node" where
  "overflow_reports n =
     (let n = n\<lparr>interrupt := False\<rparr>;
          tabs = replicate 4 (CHR 0x09);
          n = (if mcp2515_overflow n
               then (n_emit [SerialPrint (tabs @ ''MCP2516 RX BufOverflow''), SerialNewline] n)
                      \<lparr>mcp2515_overflow := False\<rparr>
               else n)
      in if arduino_overflow n
         then (n_emit [SerialPrint (tabs @ ''ArduinoBuffers Overflow''), SerialNewline] n)
                \<lparr>arduino_overflow := False\<rparr>
         else n)"

text \<open>
  The loop that empties the stream. With no interrupt during the pass it ends after at most
  \<open>buffsize\<close> frames; \<open>fuel\<close> bounds the number of frames, and running out of it is \<^term>\<open>None\<close>.
\<close>

fun drain :: "nat \<Rightarrow> node_env \<Rightarrow> (nat \<Rightarrow> readings) \<Rightarrow> nat \<Rightarrow> node \<Rightarrow> node option" where
  "drain 0 e rds k n = None"
| "drain (Suc fuel) e rds k n =
     (case stream_get (cf_stream n) of
        (None, st) \<Rightarrow> Some (n\<lparr>cf_stream := st\<rparr>)
      | (Some f, st) \<Rightarrow> do {
          n \<leftarrow> received e (rds k) f (n\<lparr>cf_stream := st\<rparr>);
          drain fuel e rds (k + 1) n
        })"

definition receive_frames :: "node_env \<Rightarrow> (nat \<Rightarrow> readings) \<Rightarrow> node \<Rightarrow> node option" where
  "receive_frames e rds n =
     (if interrupt n then drain (buffsize + 1) e rds 0 (overflow_reports n) else Some n)"

definition discovery_timer :: "node_env \<Rightarrow> u32 \<Rightarrow> node \<Rightarrow> node" where
  "discovery_timer e timeNow n =
     (if 2000 < timeNow - timeLastPCDiscovery n
      then (sendPCDiscovery e n)\<lparr>timeLastPCDiscovery := timeNow\<rparr> else n)"

definition after_control :: "node_env \<Rightarrow> readings \<Rightarrow> node \<Rightarrow> node option" where
  "after_control e rd n =
     (if didControl n then do {
        n \<leftarrow> (if hubNode n \<noteq> 0 then sendFrequentData e n else Some n);
        m \<leftarrow> updateMetrics (env_libm e) (rd_adc rd) (n_lum n) (n_met n);
        Some (n\<lparr>n_met := m\<rparr>)
      } else Some n)"

definition consensus_part :: "node_env \<Rightarrow> readings \<Rightarrow> node \<Rightarrow> node option" where
  "consensus_part e rd n = do {
     (out, l, s) \<leftarrow> consensus_pass e (n_reg n) (n_cal n) (rd_t0 rd) (rd_adc rd) (n_io n, n_lum n, n_cons n);
     Some (n\<lparr>n_io := out, n_lum := l, n_cons := s\<rparr>)
   }"

text \<open>\<open>bytes\<close> is the serial input; the readings of its commands, of the frames and of the rest are apart.\<close>

definition node_loop ::
    "node_env \<Rightarrow> u8 list \<Rightarrow> (nat \<Rightarrow> readings) \<Rightarrow> (nat \<Rightarrow> readings) \<Rightarrow> (nat \<Rightarrow> readings) \<Rightarrow> node \<Rightarrow> node option" where
  "node_loop e bytes rds_serial rds_can rds n = do {
     n \<leftarrow> readSerial e rds_serial bytes 0 n;
     n \<leftarrow> receive_frames e rds_can n;
     let n = discovery_timer e (rd_millis (rds 0)) n;
     n \<leftarrow> main_loop e (rds 1) n;
     n \<leftarrow> after_control e (rds 2) n;
     n \<leftarrow> consensus_part e (rds 3) n;
     Some (n\<lparr>didControl := False\<rparr>)
   }"

subsection \<open>Setup leaves a node alone in its registry\<close>

text \<open>After \<open>setup\<close> with a valid id in the EEPROM the registry is well formed and lists this node
  alone, the reference is the unoccupied one, and the EEPROM parameters are in place.\<close>

theorem setup_registers_self:
  assumes "valid_id (nodeId e)"
  shows "\<exists>n. node_setup e ee node_boot = Some n \<and> registry_ok (n_reg n) \<and> members (n_reg n) = [nodeId e] \<and>
     luxRef (n_lum n) = luxNonOccupied (n_lum n) \<and> lum_cost (n_lum n) = ee_cost ee \<and>
     sim_a (simulator (n_lum n)) = ee_a ee \<and> sim_b (simulator (n_lum n)) = ee_b ee"
proof -
  have boot: "registry_boot\<lparr>numTotalNodes := 0\<rparr> = registry_boot" "members registry_boot = []"
    "node_count registry_boot = 0"
    by (simp_all add: registry_boot_def members_def)
  obtain r where r: "registerNewNode (nodeId e) registry_boot = Some r" "registry_ok r"
    "members r = [nodeId e]"
    using register_fresh_aux [OF registry_boot_ok _ assms] boot by (auto simp: MAX_NUM_NODES_def)
  have nz: "nodeId e \<noteq> 0" using assms by (simp add: valid_id_def)
  define r' where "r' = r\<lparr>nodeIndexOnGainMatrix := (nodeIndexOnGainMatrix r)[0 := 0]\<rparr>"
  have shape: "registry_shape r" using r(2) by (simp add: registry_ok_def)
  have len: "length (nodeIndexOnGainMatrix r) = MAX_NODE_ID + 1" "node_count r = 1"
    using shape members_length [OF shape] r(3) by (simp_all add: registry_shape_def)
  have ne: "nodeIndexOnGainMatrix r \<noteq> []" using len(1) by auto
  have mem: "members r' = members r" by (simp add: members_def r'_def)
  have "registry_ok r'"
    using r(2,3) len nz mem unat_gt_0 [of "nodeId e"]
    unfolding registry_ok_def registry_shape_def by (simp add: r'_def)
  moreover have "node_setup e ee node_boot = Some (n_emit [SerialPrint ''Registering new node '',
      SerialPrintInt (uint (nodeId e)), SerialNewline] node_boot
        \<lparr>n_reg := r', n_lum := luminaire_init (ee_slopeM ee) (ee_slopeB ee) (ee_cost ee) False
          (luminaire_boot\<lparr>simulator := (simulator luminaire_boot)\<lparr>sim_a := ee_a ee, sim_b := ee_b ee\<rparr>\<rparr>)\<rparr>)"
    using r(1) nz len boot ne
    by (simp add: node_setup_def node_register_def node_boot_def n_emit_def aset_def r'_def Let_def)
  ultimately show ?thesis
    using r(3) mem by (simp add: luminaire_init_def setOccupied_def n_emit_def)
qed

definition eeprom_example :: eeprom where
  "eeprom_example = \<lparr>ee_slopeM = f_int 0, ee_slopeB = f_int 1, ee_cost = f_int 1, ee_a = f_int 20, ee_b = f_int 3\<rparr>"

theorem setup_registers_self_witness:
  "\<exists>n. node_setup env_example eeprom_example node_boot = Some n \<and> members (n_reg n) = [2] \<and>
     lum_cost (n_lum n) = f_int 1"
  using setup_registers_self [of env_example eeprom_example]
  by (auto simp: env_example_def eeprom_example_def valid_id_def MAX_NODE_ID_def)

subsection \<open>Operations that leave the LED and the stream alone\<close>

definition led_duties :: "effect list \<Rightarrow> int list" where
  "led_duties es = concat (map (\<lambda>x. case x of AnalogWrite d \<Rightarrow> [d] | _ \<Rightarrow> []) es)"

lemma led_duties_simps [simp]:
  "led_duties [] = []" "led_duties (es @ es') = led_duties es @ led_duties es'"
  "led_duties (x # es) = (case x of AnalogWrite d \<Rightarrow> [d] | _ \<Rightarrow> []) @ led_duties es"
  "led_duties (map SerialWrite bs) = []"
  by (simp_all add: led_duties_def comp_def)

definition led_writes :: "node \<Rightarrow> int list" where
  "led_writes n = led_duties (log (n_io n))"

text \<open>\<open>quiet\<close>: no duty written, the receive stream and the two calibration duties unchanged.\<close>

definition quiet :: "node \<Rightarrow> node \<Rightarrow> bool" where
  "quiet n n' \<longleftrightarrow> led_writes n' = led_writes n \<and> cf_stream n' = cf_stream n \<and>
     (cal_pwm (n_cal n) = [20, 240] \<longrightarrow> cal_pwm (n_cal n') = [20, 240])"

lemma quiet_refl [intro, simp]: "quiet n n"
  by (simp add: quiet_def)

lemma quiet_trans: "quiet a b \<Longrightarrow> quiet b c \<Longrightarrow> quiet a c"
  by (simp add: quiet_def)

lemma quiet_emit: "led_duties es = [] \<Longrightarrow> quiet n (n_emit es n)"
  by (simp add: quiet_def n_emit_def emit_def led_writes_def)

lemma sendFrame_duties: "led_duties (log (sendFrame drv s)) = led_duties (log s)"
  by (simp add: sendFrame_def emit_def Let_def)

lemma send_duties [simp]: "led_duties (log (send_message drv i dlc bs s)) = led_duties (log s)"
  by (simp add: send_message_def sendFrame_duties)

lemmas send_defs = sendDoConsensus_def sendCommandRequest_def sendCommandResponse_def
  sendBroadcastIsHubNode_def sendBroadcastNoLongerIsHubNode_def sendFrequentDataToHub_def
  sendBroadcastWakeup_def sendCalibLedOn_def sendCalibReady_def

lemma quiet_register: "node_register e nid n = Some n' \<Longrightarrow> quiet n n'"
  by (auto simp: node_register_def bind_eq_Some_conv Let_def quiet_def n_emit_def emit_def
      led_writes_def sendListNodesToPC_def split: if_splits)

lemma quiet_restart: "restart_consensus e n = Some n' \<Longrightarrow> quiet n n'"
  by (auto simp: restart_consensus_def bind_eq_Some_conv Let_def quiet_def led_writes_def send_defs)

lemma quiet_lum: "quiet (n\<lparr>n_lum := l\<rparr>) n' \<Longrightarrow> quiet n n'"
  by (simp add: quiet_def led_writes_def)

lemma quiet_setters:
  "set_reference_occupied e v n = Some n' \<Longrightarrow> quiet n n'"
  "set_reference_unoccupied e v n = Some n' \<Longrightarrow> quiet n n'"
  "set_occupied e w n = Some n' \<Longrightarrow> quiet n n'"
  by (auto simp: set_reference_occupied_def set_reference_unoccupied_def set_occupied_def Let_def
      quiet_def led_writes_def dest!: quiet_restart split: if_splits)

lemma quiet_cost: "set_cost e v n = Some n' \<Longrightarrow> quiet n n'"
  by (auto simp: set_cost_def bind_eq_Some_conv Let_def quiet_def led_writes_def n_emit_def emit_def
      dest!: quiet_restart split: if_splits)

lemma reset_calib_pwm: "resetCalib k c = Some c' \<Longrightarrow> cal_pwm c' = [20, 240]"
  by (auto simp: resetCalib_def bind_eq_Some_conv Let_def)

lemma quiet_reset: "reset_node e rd n = Some n' \<Longrightarrow> quiet n n'"
  by (auto simp: reset_node_def node_reset_glob_def bind_eq_Some_conv Let_def quiet_def led_writes_def n_emit_def
      emit_def dest!: quiet_register reset_calib_pwm)

lemma quiet_execute: "executeCommand e rd c n = Some (v, n') \<Longrightarrow> quiet n n'"
  by (auto simp: executeCommand_def bind_eq_Some_conv
      intro: quiet_setters quiet_cost quiet_reset split: if_splits)

lemma quiet_response [simp]: "led_duties (sendResponse v) = []"
  by (simp add: sendResponse_def)

lemma quiet_total: "quiet n (sendTotalIfAllValueForTotalReceived n)"
  by (simp add: sendTotalIfAllValueForTotalReceived_def quiet_def led_writes_def n_emit_def emit_def Let_def)

lemma quiet_can_response: "quiet n (receivedCommandResponseFromCAN v n)"
  by (simp add: receivedCommandResponseFromCAN_def sendTotalIfAllValueForTotalReceived_def quiet_def
      led_writes_def n_emit_def emit_def Let_def)

lemma quiet_list: "sendListNodesToPC r = Some es \<Longrightarrow> led_duties es = []"
  by (auto simp: sendListNodesToPC_def split: if_splits)

lemma quiet_handle: "handle_command e rd c n = Some n' \<Longrightarrow> quiet n n'"
proof -
  have total: "quiet n (sendTotalIfAllValueForTotalReceived (n2\<lparr>n_ser := a, n_io := sendCommandRequest d i 0 c (n_io n2)\<rparr>))"
    if "executeCommand e rd c (n\<lparr>n_ser := b\<rparr>) = Some (v, n2)" for n2 a b d i v
    using quiet_execute [OF that] quiet_total [of "n2\<lparr>n_ser := a, n_io := sendCommandRequest d i 0 c (n_io n2)\<rparr>"]
    by (simp add: quiet_def led_writes_def send_defs)
  show "handle_command e rd c n = Some n' \<Longrightarrow> quiet n n'"
    by (auto simp: handle_command_def bind_eq_Some_conv Let_def total
        intro: quiet_trans [OF quiet_execute quiet_emit] split: if_splits)
      (auto simp: quiet_def led_writes_def n_emit_def emit_def send_defs dest: quiet_list)
qed

lemma quiet_serial: "readSerial e rds bytes k n = Some n' \<Longrightarrow> quiet n n'"
proof (induction e rds bytes k n rule: readSerial.induct)
  case (2 e rds b bs k n)
  then show ?case
    by (auto simp: bind_eq_Some_conv intro: quiet_trans [OF quiet_handle] split: if_splits)
qed simp

lemma quiet_received: "received e rd f n = Some n' \<Longrightarrow> quiet n n'"
proof -
  have cal: "cal_pwm c' = cal_pwm c" if "calib_ready_frame r sender data c = Some c'" for r sender data c c'
    using calib_frame_kept [OF that, of 7 7] by auto
  have exec: "quiet n (n2\<lparr>n_io := sendCommandResponse d i s v (n_io n2)\<rparr>)"
    if "executeCommand e rd c n = Some (v, n2)" for c n2 d i s v
    using quiet_execute [OF that] by (simp add: quiet_def led_writes_def send_defs)
  show "received e rd f n = Some n' \<Longrightarrow> quiet n n'"
    by (auto simp: received_def Let_def bind_eq_Some_conv exec
        intro: quiet_register quiet_can_response split: if_splits)
      (auto simp: quiet_def led_writes_def n_emit_def emit_def freq_data_serial_def dest: cal split: if_splits)
qed

subsection \<open>Emptying the stream\<close>

text \<open>The frames handled one after the other, each after it has been taken from the stream.\<close>

fun deliver :: "node_env \<Rightarrow> (nat \<Rightarrow> readings) \<Rightarrow> nat \<Rightarrow> can_frame list \<Rightarrow> node \<Rightarrow> node option" where
  "deliver e rds k [] n = Some n"
| "deliver e rds k (f # fs) n = do {
     n \<leftarrow> received e (rds k) f (n\<lparr>cf_stream := snd (stream_get (cf_stream n))\<rparr>);
     deliver e rds (k + 1) fs n
   }"

lemma drain_spec:
  assumes "stream_ok (cf_stream n)" "length (stream_contents (cf_stream n)) < fuel"
  shows "drain fuel e rds k n = deliver e rds k (stream_contents (cf_stream n)) n"
  using assms
proof (induction fuel arbitrary: k n)
  case (Suc fuel)
  show ?case
  proof (cases "stream_contents (cf_stream n)")
    case Nil
    then show ?thesis using ring.get_empty [OF Suc.prems(1)] by simp
  next
    case (Cons f fs)
    obtain st where get: "stream_get (cf_stream n) = (Some f, st)"
      using ring.get_head [OF Suc.prems(1) Cons] by (cases "stream_get (cf_stream n)") auto
    have st: "stream_ok st" "stream_contents st = fs"
      using ring.get_invar [OF Suc.prems(1)] ring.get_head [OF Suc.prems(1) Cons] by (simp_all add: get)
    show ?thesis
    proof (cases "received e (rds k) f (n\<lparr>cf_stream := st\<rparr>)")
      case None
      then show ?thesis by (simp add: get Cons)
    next
      case (Some n1)
      then have "cf_stream n1 = st" using quiet_received [OF Some] by (simp add: quiet_def)
      then show ?thesis using Suc.IH [of n1 "k + 1"] Suc.prems(2) st Some by (simp add: get Cons)
    qed
  qed
qed simp


definition led_on_frame :: can_frame where
  "led_on_frame = \<lparr>can_id = canMessageId 9 0 CAN_CALIB_LED_ON, can_dlc = 0, can_data = replicate 8 0\<rparr>"

definition node_with_frame :: node where
  "node_with_frame = node_boot\<lparr>cf_stream := snd (stream_put led_on_frame (cf_stream node_boot))\<rparr>"


subsection \<open>The duty cycles a node writes\<close>

definition led_ok :: "node \<Rightarrow> bool" where
  "led_ok n \<longleftrightarrow> cal_pwm (n_cal n) = [20, 240] \<and> (\<forall>d \<in> set (led_writes n). 0 \<le> d \<and> d \<le> 255)"

lemma led_ok_quiet [inv_intros]: "quiet n n' \<Longrightarrow> led_ok n \<Longrightarrow> led_ok n'"
  by (simp add: led_ok_def quiet_def)

definition duties_extend :: "io \<Rightarrow> io \<Rightarrow> bool" where
  "duties_extend s s' \<longleftrightarrow>
     (\<exists>ds. led_duties (log s') = led_duties (log s) @ ds \<and> (\<forall>d \<in> set ds. 0 \<le> d \<and> d \<le> 255))"

lemma duties_extend_simps [simp]:
  "duties_extend s s" "duties_extend s (send_message drv i dlc bs s)"
  "led_duties es = [] \<Longrightarrow> duties_extend s (emit es s)"
  by (simp_all add: duties_extend_def emit_def)

lemma calib_loop_led:
  assumes "calib_loop e r l adc now now2 s c = Some (s', c')" "cal_pwm c = [20, 240]"
  shows "cal_pwm c' = [20, 240]" "duties_extend s s'"
proof -
  have duty: "aget (cal_pwm c1) k = Some d \<Longrightarrow> cal_pwm c1 = [20, 240] \<Longrightarrow> 0 \<le> uint d \<and> uint d \<le> 255"
    for c1 :: calibration and k d
    by (auto simp: aget_Some_iff less_Suc_eq split: if_splits)
  show "cal_pwm c' = [20, 240]"
    using assms
    by (auto simp: calib_loop_def runStateInit_def runStateWaitReady_def runStateWaitLedOn_def
        runStateWaitTrasient_def take_reading_def next_reading_def setGain_def cal_setState_def
        incrementNodesReady_def bind_eq_Some_conv Let_def split: calibration_state.splits if_splits)
  show "duties_extend s s'"
  proof (cases "cal_state c")
    case CalibInit
    then show ?thesis using assms(1)
      by (auto simp: calib_loop_def runStateInit_def bind_eq_Some_conv Let_def duties_extend_def
          send_defs emit_def)
  next
    case WaitReady
    then show ?thesis using assms duty
      by (auto simp: calib_loop_def runStateWaitReady_def next_reading_def bind_eq_Some_conv Let_def
          duties_extend_def send_defs emit_def split: if_splits)
  next
    case WaitLedOn
    then show ?thesis using assms(1) by (simp add: calib_loop_def)
  next
    case WaitTransient
    then show ?thesis using assms(1)
      by (auto simp: calib_loop_def runStateWaitTrasient_def bind_eq_Some_conv Let_def send_defs split: if_splits)
  qed
qed

lemma print_row_duties: "print_row sep row js = Some es \<Longrightarrow> led_duties es = []"
  by (induction sep row js arbitrary: es rule: print_row.induct) (auto simp: bind_eq_Some_conv)

lemma print_rows_duties: "print_rows n g js = Some es \<Longrightarrow> led_duties es = []"
  by (induction n g js arbitrary: es rule: print_rows.induct) (auto simp: bind_eq_Some_conv print_row_duties)

lemma finish_calibration_quiet: "finish_calibration e now n = Some n' \<Longrightarrow> quiet n n'"
  by (auto simp: finish_calibration_def printResidualAndGainMatrix_def bind_eq_Some_conv Let_def quiet_def
      led_writes_def n_emit_def emit_def dest!: print_row_duties print_rows_duties)

lemma main_calibrate_led:
  assumes "main_calibrate e rd n = Some n'" "led_ok n"
  shows "led_ok n' \<and> cf_stream n' = cf_stream n"
proof -
  obtain s c where run: "calib_loop e (n_reg n) (n_lum n) (rd_adc rd) (rd_t1 rd) (rd_t2 rd) (n_io n) (n_cal n) = Some (s, c)"
    and rest: "(if cal_done c then finish_calibration e (rd_t3 rd) (n\<lparr>n_io := s, n_cal := c\<rparr>)
      else Some (n\<lparr>n_io := s, n_cal := c\<rparr>)) = Some n'"
    using assms(1) by (auto simp: main_calibrate_def bind_eq_Some_conv Let_def)
  have "led_ok (n\<lparr>n_io := s, n_cal := c\<rparr>)"
    using calib_loop_led [OF run] assms(2)
    by (auto simp: led_ok_def led_writes_def duties_extend_def)
  moreover have q: "quiet (n\<lparr>n_io := s, n_cal := c\<rparr>) n'"
    using rest finish_calibration_quiet by (auto split: if_splits)
  ultimately have "led_ok n'" using led_ok_quiet by blast
  moreover have "cf_stream n' = cf_stream n" using q by (simp add: quiet_def)
  ultimately show ?thesis by simp
qed

lemma luminaire_loop_duty:
  assumes "luminaire_loop m now adc1 adc2 res l f = Some (Some pwm, l', f')"
  shows "0 \<le> pwm \<and> pwm \<le> 255"
proof -
  have "\<exists>err t c'. calc err t (luxRefAfterConsensus l) (systemGain l) res (lum_controller l) = Some (pwm, c')"
    using assms
    by (auto simp: luminaire_loop_def control_def Let_def bind_eq_Some_conv split: if_splits)
  then show ?thesis using calc_range_aux by blast
qed

lemma main_loop_led:
  assumes "main_loop e rd n = Some n'" "led_ok n"
  shows "led_ok n' \<and> cf_stream n' = cf_stream n"
proof (cases "main_state (n_main n)")
  case Init
  then have "n' = main_runStateInit e (rd_t0 rd - main_lastTransitionTime (n_main n)) (rd_t1 rd) n"
    using assms(1) by (simp add: main_loop_def)
  then have "quiet n n'"
    by (simp add: main_runStateInit_def quiet_def led_writes_def send_defs Let_def)
  then show ?thesis using led_ok_quiet [OF _ assms(2)] quiet_def by blast
next
  case WakeupWait
  then have "n' = main_runStateWakeupWait (rd_t0 rd - main_lastTransitionTime (n_main n)) (rd_t1 rd) n"
    using assms(1) by (simp add: main_loop_def)
  then have "quiet n n'" by (simp add: main_runStateWakeupWait_def quiet_def led_writes_def)
  then show ?thesis using led_ok_quiet [OF _ assms(2)] quiet_def by blast
next
  case Calibrate
  then show ?thesis using main_calibrate_led assms by (simp add: main_loop_def)
next
  case Run
  then obtain res out l f where
    run: "luminaire_loop (env_libm e) (rd_t1 rd) (rd_adc rd) (rd_adc2 rd) res (n_lum n) (n_lpf n) = Some (out, l, f)"
    and n': "n' = (case out of Some pwm \<Rightarrow> n_emit [AnalogWrite pwm] (n\<lparr>n_lum := l, n_lpf := f, didControl := True\<rparr>)
      | None \<Rightarrow> n\<lparr>n_lum := l, n_lpf := f\<rparr>)"
    using assms(1) by (auto simp: main_loop_def main_run_def bind_eq_Some_conv Let_def)
  show ?thesis
  proof (cases out)
    case None
    then show ?thesis using n' assms(2) by (simp add: led_ok_def led_writes_def)
  next
    case (Some pwm)
    then show ?thesis using n' assms(2) luminaire_loop_duty [OF run [unfolded Some]]
      by (auto simp: led_ok_def led_writes_def n_emit_def emit_def)
  qed
qed

lemma receive_frames_led:
  assumes "receive_frames e rds n = Some n'" "led_ok n" "stream_ok (cf_stream n)"
  shows "led_ok n' \<and> stream_ok (cf_stream n')"
proof -
  have deliver: "led_ok n1 \<and> stream_ok (cf_stream n1)"
    if "deliver e rds k fs n0 = Some n1" "led_ok n0" "stream_ok (cf_stream n0)" for k fs n0 n1
    using that
  proof (induction fs arbitrary: k n0)
    case (Cons f fs)
    let ?n = "n0\<lparr>cf_stream := snd (stream_get (cf_stream n0))\<rparr>"
    obtain n2 where n2: "received e (rds k) f ?n = Some n2" and rest: "deliver e rds (k + 1) fs n2 = Some n1"
      using Cons.prems(1) by (auto simp: bind_eq_Some_conv)
    have q: "quiet ?n n2" by (rule quiet_received [OF n2])
    have "led_ok ?n" using Cons.prems(2) by (simp add: led_ok_def led_writes_def)
    then have "led_ok n2" by (rule led_ok_quiet [OF q])
    moreover have "stream_ok (cf_stream n2)"
      using q ring.get_invar [OF Cons.prems(3)] by (simp add: quiet_def)
    ultimately show ?case using Cons.IH [OF rest] by blast
  qed simp
  have q: "quiet n (overflow_reports n)"
    by (simp add: overflow_reports_def quiet_def led_writes_def n_emit_def emit_def Let_def)
  have ok: "led_ok (overflow_reports n)" "stream_ok (cf_stream (overflow_reports n))"
    using led_ok_quiet [OF q assms(2)] q assms(3) by (simp_all add: quiet_def)
  show ?thesis
  proof (cases "interrupt n")
    case True
    have "length (stream_contents (cf_stream (overflow_reports n))) < buffsize + 1"
      using ring.within_cap [OF ok(2)] by simp
    then have "deliver e rds 0 (stream_contents (cf_stream (overflow_reports n))) (overflow_reports n) = Some n'"
      using assms(1) True drain_spec [OF ok(2), of "buffsize + 1" e rds 0]
      by (simp only: receive_frames_def if_True)
    then show ?thesis using deliver ok by blast
  next
    case False
    then show ?thesis using assms by (simp add: receive_frames_def)
  qed
qed

lemma consensus_part_quiet:
  assumes "consensus_part e rd n = Some n'"
  shows "quiet n n'"
proof -
  obtain out l s where run: "consensus_pass e (n_reg n) (n_cal n) (rd_t0 rd) (rd_adc rd) (n_io n, n_lum n, n_cons n)
      = Some (out, l, s)" and n': "n' = n\<lparr>n_io := out, n_lum := l, n_cons := s\<rparr>"
    using assms by (auto simp: consensus_part_def bind_eq_Some_conv)
  have vec: "led_duties (log s2) = led_duties (log s1)"
    if "send_vector drv k ms val s1 = Some s2" for drv k ms val s1 s2
    using that
    by (induction drv k ms val s1 rule: send_vector.induct) (auto simp: bind_eq_Some_conv sendFrame_duties)
  have "led_duties (log out) = led_duties (log (n_io n))"
    using run
    by (auto simp: consensus_pass_def consensus_main_def sendConsensusDutyCycle_def bind_eq_Some_conv Let_def
        dest!: vec split: if_splits)
  then show ?thesis by (simp add: n' quiet_def led_writes_def)
qed

lemma after_control_quiet: "after_control e rd n = Some n' \<Longrightarrow> quiet n n'"
  by (auto simp: after_control_def sendFrequentData_def serial_bytes_def bind_eq_Some_conv Let_def quiet_def
      led_writes_def n_emit_def emit_def send_defs split: if_splits)

lemma discovery_quiet: "quiet n (discovery_timer e t n)"
  by (simp add: discovery_timer_def sendPCDiscovery_def quiet_def led_writes_def n_emit_def emit_def
      send_defs Let_def)

lemma node_loop_led:
  assumes "node_loop e bytes rs rc rds n = Some n'" "led_ok n" "stream_ok (cf_stream n)"
  shows "led_ok n' \<and> stream_ok (cf_stream n')"
proof -
  obtain n1 n2 n3 n4 n5 where
    1: "readSerial e rs bytes 0 n = Some n1" and 2: "receive_frames e rc n1 = Some n2" and
    3: "main_loop e (rds 1) (discovery_timer e (rd_millis (rds 0)) n2) = Some n3" and
    4: "after_control e (rds 2) n3 = Some n4" and 5: "consensus_part e (rds 3) n4 = Some n5" and
    n': "n' = n5\<lparr>didControl := False\<rparr>"
    using assms(1) by (auto simp: node_loop_def Let_def bind_eq_Some_conv)
  have "led_ok n1 \<and> stream_ok (cf_stream n1)"
    using quiet_serial [OF 1] led_ok_quiet [OF quiet_serial [OF 1] assms(2)] assms(3) by (simp add: quiet_def)
  then have "led_ok n2 \<and> stream_ok (cf_stream n2)" using receive_frames_led [OF 2] by blast
  then have "led_ok (discovery_timer e (rd_millis (rds 0)) n2) \<and>
      stream_ok (cf_stream (discovery_timer e (rd_millis (rds 0)) n2))"
    using discovery_quiet [of n2 e "rd_millis (rds 0)"] led_ok_quiet [OF discovery_quiet]
    by (simp add: quiet_def)
  then have "led_ok n3 \<and> stream_ok (cf_stream n3)" using main_loop_led [OF 3] by auto
  then have "led_ok n5 \<and> stream_ok (cf_stream n5)"
    using after_control_quiet [OF 4] consensus_part_quiet [OF 5]
      led_ok_quiet [OF quiet_trans [OF after_control_quiet [OF 4] consensus_part_quiet [OF 5]]]
    by (simp add: quiet_def)
  then show ?thesis by (simp add: n' led_ok_def led_writes_def)
qed

text \<open>The states of a running node: after \<open>setup\<close>, passes of \<open>loop\<close> and interrupts in any order.\<close>

inductive reachable :: "node_env \<Rightarrow> node \<Rightarrow> bool" for e where
  reach_setup: "node_setup e ee node_boot = Some n \<Longrightarrow> reachable e n"
| reach_loop: "reachable e n \<Longrightarrow> node_loop e bytes rs rc rds n = Some n' \<Longrightarrow> reachable e n'"
| reach_irq: "reachable e n \<Longrightarrow> reachable e (irqHandler rx0 f0 rx1 f1 overflow n)"

lemma irq_fields:
  "led_writes (irqHandler rx0 f0 rx1 f1 overflow n) = led_writes n"
  "n_cal (irqHandler rx0 f0 rx1 f1 overflow n) = n_cal n"
  by (simp_all add: irqHandler_def irq_buffer_def led_writes_def Let_def split: prod.splits)

lemma irq_buffer_ok: "stream_ok (cf_stream n) \<Longrightarrow> stream_ok (cf_stream (irq_buffer p f n))"
  using ring.put_invar [of "cf_stream n" f] by (auto simp: irq_buffer_def Let_def split: prod.splits)

lemma irq_ok:
  "stream_ok (cf_stream n) \<Longrightarrow> stream_ok (cf_stream (irqHandler rx0 f0 rx1 f1 overflow n))"
  using irq_buffer_ok [OF irq_buffer_ok, of n rx1 f1 rx0 f0] by (simp add: irqHandler_def Let_def)

lemma setup_led:
  assumes "node_setup e ee node_boot = Some n"
  shows "led_ok n \<and> stream_ok (cf_stream n)"
proof -
  obtain n1 where n1: "node_register e (nodeId e) (node_boot\<lparr>n_reg := (n_reg node_boot)\<lparr>numTotalNodes := 0\<rparr>\<rparr>) = Some n1"
    and n: "n_cal n = n_cal n1" "n_io n = n_io n1" "cf_stream n = cf_stream n1"
    using assms by (auto simp: node_setup_def Let_def bind_eq_Some_conv)
  have "led_ok (node_boot\<lparr>n_reg := (n_reg node_boot)\<lparr>numTotalNodes := 0\<rparr>\<rparr>)"
    by (simp add: node_boot_def led_ok_def led_writes_def calibration_init_def io_boot_def)
  from led_ok_quiet [OF quiet_register [OF n1] this] have "led_ok n1" .
  moreover have "stream_ok (cf_stream n1)"
    using quiet_register [OF n1] by (simp add: quiet_def node_boot_def stream_init_ok)
  ultimately show ?thesis using n by (simp add: led_ok_def led_writes_def)
qed

lemma setup_example: "\<exists>n. node_setup env_example eeprom_example node_boot = Some n"
  by (simp add: node_setup_def env_example_def node_register_def node_boot_def n_emit_def Let_def aset_def
        registerNewNode_def insert_node_def find_place.simps shift_down.simps index_nodes.simps aget_def
        registry_boot_def MAX_NUM_NODES_def MAX_NODE_ID_def)

lemma reachable_ok:
  assumes "reachable e n"
  shows "led_ok n \<and> stream_ok (cf_stream n)"
  using assms
proof (induction rule: reachable.induct)
  case (reach_setup ee n)
  then show ?case by (rule setup_led)
next
  case (reach_loop n bytes rs rc rds n')
  then show ?case using node_loop_led by blast
next
  case (reach_irq n rx0 f0 rx1 f1 overflow)
  then show ?case using irq_ok by (simp add: led_ok_def irq_fields)
qed

text \<open>C8. In every state a node can reach, whatever frames, serial bytes and interrupts come, every
  duty it has written to the LED pin lies between 0 and 255, and the receive buffer is well formed.\<close>

theorem reachable_led_duty:
  assumes "reachable e n"
  shows "(\<forall>d \<in> set (led_writes n). 0 \<le> d \<and> d \<le> 255) \<and> stream_ok (cf_stream n)"
  using reachable_ok [OF assms] by (simp add: led_ok_def)

theorem reachable_led_duty_witness:
  "\<exists>n. node_setup env_example eeprom_example node_boot = Some n \<and>
     stream_ok (cf_stream (irqHandler True led_on_frame False led_on_frame False n))"
proof -
  obtain n where n: "node_setup env_example eeprom_example node_boot = Some n"
    using setup_example by blast
  have "reachable env_example (irqHandler True led_on_frame False led_on_frame False n)"
    by (intro reachable.reach_irq reachable.reach_setup [OF n])
  from reachable_led_duty [OF this] n show ?thesis by blast
qed

end
