(* ===== verification/Mcp_Interrupt.thy ===== *)
theory Mcp_Interrupt
  imports Mcp_Messages Node_Loop
begin

text \<open>
  The interrupt handler of \<open>main.cpp\<close> on the registers of the chip: what reaches the queue of the node,
  and the flags it leaves set. The chip holds its \<open>INT\<close> line low while an enabled flag is set, and the
  handler is attached to the falling edge.
\<close>

definition int_low :: "regfile \<Rightarrow> bool" where
  "int_low r \<longleftrightarrow> r MCP_CANINTF AND r MCP_CANINTE \<noteq> 0"

definition error_flags :: u8 where
  "error_flags = CANINTF_ERRIF OR CANINTF_MERRF"

text \<open>No flag but those of the receive buffers is cleared, and the enables stay.\<close>

definition flags_stay :: "regfile \<Rightarrow> regfile \<Rightarrow> bool" where
  "flags_stay r r' \<longleftrightarrow>
     agree (r MCP_CANINTF AND error_flags) (r MCP_CANINTF) (r' MCP_CANINTF) \<and> r' MCP_CANINTE = r MCP_CANINTE"

lemma flags_stayI:
  assumes "agree (r MCP_CANINTF) (r MCP_CANINTF) (r' MCP_CANINTF)" "agree 0xFF (r MCP_CANINTE) (r' MCP_CANINTE)"
  shows "flags_stay r r'"
  using assms by (simp add: flags_stay_def) (auto simp: agree_bits bit_and_iff)

lemma flags_stay_quiet: "chip_quiet r r' \<Longrightarrow> flags_stay r r'"
  using chip_quietD [of r r' MCP_CANINTF] chip_quietD [of r r' MCP_CANINTE]
  by (intro flags_stayI) (simp_all add: kept_regs kept_static)

lemma flags_stay_trans: "flags_stay r r' \<Longrightarrow> flags_stay r' r'' \<Longrightarrow> flags_stay r r''"
  by (auto simp: flags_stay_def agree_bits bit_and_iff)

lemma flags_stay_refl [simp]: "flags_stay r r"
  by (simp add: flags_stay_def)

text \<open>A receive buffer with a frame that announces more than eight bytes.\<close>

definition too_long :: "regfile \<Rightarrow> RXBn \<Rightarrow> bool" where
  "too_long r n \<longleftrightarrow> rx_full r n \<and> rx_dlc r n > 8"

lemma too_long_quiet: "chip_quiet r r' \<Longrightarrow> too_long r n \<Longrightarrow> too_long r' n"
  using rx_quiet [of r r' n 4] rx_full_quiet [of r r' n] by (simp add: too_long_def rx_dlc_def)

subsection \<open>One buffer\<close>

lemma irq_read_cases:
  assumes chip: "mcp_chip d regs us" and run: "run_state (irq_read d n frm) c = (res, c')"
  obtains (empty) "\<not> rx_full (regs c) n" "res = (False, frm)" "chip_quiet (regs c) (regs c')"
    | (frame) c1 where "chip_quiet (regs c) (regs c1)" "rx_full (regs c1) n" "rx_dlc (regs c1) n \<le> 8"
        "res = (True, rx_frame (regs c1) n frm)" "run_state (readMessage_buffer d n frm) c1 = ((ERROR_OK, rx_frame (regs c1) n frm), c')"
    | (refused) c1 where "chip_quiet (regs c) (regs c1)" "too_long (regs c1) n" "res = (True, frm)"
        "chip_quiet (regs c1) (regs c')"
proof -
  obtain v c1 where rd: "run_state (getInterrupts d) c = (v, c1)" by (metis surj_pair)
  have addr: "unat MCP_CANINTF < 128" by (simp add: register_defs)
  note facts = chip_read1 [OF chip rd [unfolded getInterrupts_def] addr]
  show thesis
  proof (cases "v AND rx_IF (RXB n) = 0")
    case True
    then have "\<not> rx_full (regs c1) n" using facts(2) by (simp add: rx_full_def)
    then have "\<not> rx_full (regs c) n" using rx_full_quiet [OF facts(1)] by blast
    moreover have "res = (False, frm)" "c' = c1" using run rd True by (simp_all add: irq_read_def)
    ultimately show ?thesis using empty facts(1) by blast
  next
    case False
    then have full: "rx_full (regs c1) n" using facts(2) by (simp add: rx_full_def)
    obtain e f c2 where rm: "run_state (readMessage_buffer d n frm) c1 = ((e, f), c2)" by (metis surj_pair)
    have res: "res = (True, f)" "c' = c2" using run rd False rm by (simp_all add: irq_read_def)
    show ?thesis
    proof (cases "rx_dlc (regs c1) n \<le> 8")
      case True
      have "(e, f) = (ERROR_OK, rx_frame (regs c1) n frm)" using readMessage_full(1) [OF chip full True rm] .
      then show ?thesis using frame [of c1] facts(1) full True rm res by simp
    next
      case False
      then have "(e, f) = (ERROR_FAIL, frm)" "chip_quiet (regs c1) (regs c2)"
        using readMessage_too_long [OF chip full _ rm] by (simp_all add: not_le)
      then show ?thesis using refused [of c1] facts(1) full False res by (simp add: too_long_def not_le)
    qed
  qed
qed

lemma irq_read_flags:
  assumes "mcp_chip d regs us" "run_state (irq_read d n frm) c = (res, c')"
  shows "flags_stay (regs c) (regs c')"
  using assms
proof (cases rule: irq_read_cases)
  case (frame c1)
  note rd = readMessage_full(2,3) [OF assms(1) frame(2,3,5)]
  have "bit (NOT (rx_IF (RXB n))) k" if "bit error_flags k" for k
  proof -
    have "error_flags AND NOT (rx_IF (RXB n)) = error_flags"
      by (cases n) (simp_all add: RXB_def error_flags_def CANINTF_RX0IF_def CANINTF_RX1IF_def CANINTF_ERRIF_def
        CANINTF_MERRF_def)
    then show ?thesis using that by (metis bit_and_iff)
  qed
  then have "flags_stay (regs c1) (regs c')"
    using rd by (auto simp: flags_stay_def agree_bits bit_and_iff)
  then show ?thesis using flags_stay_quiet [OF frame(1)] flags_stay_trans by blast
qed (auto intro: flags_stay_quiet flags_stay_trans)

lemma irq_read_too_long:
  assumes "mcp_chip d regs us" "run_state (irq_read d n frm) c = (res, c')" "too_long (regs c) m"
  shows "too_long (regs c') m" "m = n \<Longrightarrow> res = (True, frm)"
proof -
  have "too_long (regs c') m \<and> (m = n \<longrightarrow> res = (True, frm))"
    using assms(1,2)
  proof (cases rule: irq_read_cases)
    case empty
    then show ?thesis using too_long_quiet [OF _ assms(3)] assms(3) by (auto simp: too_long_def)
  next
    case (frame c1)
    have m: "too_long (regs c1) m" using too_long_quiet [OF frame(1) assms(3)] .
    then have "m \<noteq> n" using frame(3) by (auto simp: too_long_def)
    then show ?thesis
      using readMessage_full(4) [OF assms(1) frame(2,3,5), of m] m by (auto simp: too_long_def)
  next
    case (refused c1)
    then show ?thesis using too_long_quiet assms(3) by blast
  qed
  then show "too_long (regs c') m" "m = n \<Longrightarrow> res = (True, frm)" by auto
qed

lemma irq_overflow_quiet:
  assumes chip: "mcp_chip d regs us" and run: "run_state (irq_overflow d) c = (res, c')"
  shows "flags_stay (regs c) (regs c')" "too_long (regs c) n \<Longrightarrow> too_long (regs c') n"
proof -
  obtain v c1 where rd: "run_state (getErrorFlags d) c = (v, c1)" by (metis surj_pair)
  have addr: "unat MCP_EFLG < 128" by (simp add: register_defs)
  note facts = chip_read1 [OF chip rd [unfolded getErrorFlags_def] addr]
  obtain c2 where m: "run_state (clearRXnOVRFlags d) c1 = ((), c2)" by (metis old.unit.exhaust surj_pair)
  have far: "agree (kept (regs c1) a) (regs c1 a) (regs c2 a)" if "a \<noteq> MCP_EFLG" for a
    using chip_modify(1) [OF chip m [unfolded clearRXnOVRFlags_def], of a] that
    by (simp add: modifiable_def register_defs)
  have ne: "MCP_CANINTF \<noteq> MCP_EFLG" "MCP_CANINTE \<noteq> MCP_EFLG" by (simp_all add: register_defs)
  have flags: "agree (regs c1 MCP_CANINTF) (regs c1 MCP_CANINTF) (regs c2 MCP_CANINTF)"
    using far [OF ne(1)] by (simp add: kept_regs)
  have 1: "flags_stay (regs c1) (regs c2)"
    using flags far [OF ne(2)] by (intro flags_stayI) (simp_all add: kept_static)
  have 2: "too_long (regs c2) n" if "too_long (regs c1) n"
  proof -
    have full: "rx_full (regs c1) n" using that by (simp add: too_long_def)
    obtain k where "bit (regs c1 MCP_CANINTF AND rx_IF (RXB n)) k"
      using full bit_word_eqI [of "regs c1 MCP_CANINTF AND rx_IF (RXB n)" 0] unfolding rx_full_def by auto
    then have "bit (regs c2 MCP_CANINTF AND rx_IF (RXB n)) k" using flags by (simp add: agree_bits bit_and_iff)
    then have "rx_full (regs c2) n" unfolding rx_full_def by auto
    moreover have "rx_SIDH (RXB n) + of_nat 4 \<noteq> MCP_EFLG"
      using rx_area_apart(3) [OF rx_addresses(1) [of 4 n]] by auto
    then have "regs c2 (rx_SIDH (RXB n) + of_nat 4) = regs c1 (rx_SIDH (RXB n) + of_nat 4)"
      using far kept_rx [OF rx_addresses(1) [of 4 n], of "regs c1"] full by fastforce
    ultimately show ?thesis using that by (simp add: too_long_def rx_dlc_def)
  qed
  have "c' = c1 \<or> c' = c2" using run rd m by (auto simp: irq_overflow_def split: if_splits)
  then show "flags_stay (regs c) (regs c')" "too_long (regs c) n \<Longrightarrow> too_long (regs c') n"
    using 1 2 flags_stay_quiet [OF facts(1)] flags_stay_trans too_long_quiet [OF facts(1)] by blast+
qed


subsection \<open>What no operation of a running node undoes\<close>

definition pending_stays :: "regfile \<Rightarrow> regfile \<Rightarrow> bool" where
  "pending_stays r r' \<longleftrightarrow> flags_stay r r' \<and> (\<forall>n. too_long r n \<longrightarrow> too_long r' n)"

lemma pending_stays_trans: "pending_stays r r' \<Longrightarrow> pending_stays r' r'' \<Longrightarrow> pending_stays r r''"
  using flags_stay_trans by (auto simp: pending_stays_def)

lemma pending_stays_quiet: "chip_quiet r r' \<Longrightarrow> pending_stays r r'"
  by (auto simp: pending_stays_def intro: flags_stay_quiet too_long_quiet)

definition tx_reg :: "u8 \<Rightarrow> bool" where
  "tx_reg a \<longleftrightarrow> tx_area a \<or> (\<exists>b. a = tx_CTRL (TXB b))"

lemma not_tx_reg: "\<not> tx_reg MCP_CANINTF" "\<not> tx_reg MCP_CANINTE" "rx_area n a \<Longrightarrow> \<not> tx_reg a"
proof -
  have c: "MCP_CANINTF \<noteq> tx_CTRL (TXB b)" "MCP_CANINTE \<noteq> tx_CTRL (TXB b)" for b
    by (cases b; simp add: TXB_def register_defs)+
  then show "\<not> tx_reg MCP_CANINTF" "\<not> tx_reg MCP_CANINTE"
    by (auto simp: tx_reg_def tx_area_def register_defs)
  show "rx_area n a \<Longrightarrow> \<not> tx_reg a"
    using rx_area_apart(2,3) [of n a] by (auto simp: tx_reg_def TXB_def split: TXBn.splits)
qed

text \<open>A transaction that only touches the transmit buffers.\<close>

lemma pending_stays_tx:
  assumes "\<And>a. \<not> tx_reg a \<Longrightarrow> agree (kept r a) (r a) (r' a)"
  shows "pending_stays r r'"
proof -
  define s where "s = (\<lambda>a. if tx_reg a then r a else r' a)"
  have "chip_quiet r s" unfolding chip_quiet_def s_def using assms by simp
  then have p: "pending_stays r s" by (rule pending_stays_quiet)
  have same: "s MCP_CANINTF = r' MCP_CANINTF" "s MCP_CANINTE = r' MCP_CANINTE" using not_tx_reg by (simp_all add: s_def)
  have "s (rx_SIDH (RXB n) + 4) = r' (rx_SIDH (RXB n) + 4)" for n
    using not_tx_reg(3) [OF rx_addresses(1) [of 4 n]] by (simp add: s_def)
  then have "too_long s n \<longleftrightarrow> too_long r' n" for n
    using same by (simp add: too_long_def rx_full_def rx_dlc_def)
  then show ?thesis using p same by (simp add: pending_stays_def flags_stay_def)
qed

lemma sendMessage_buffer_pending:
  assumes chip: "mcp_chip d regs us" and run: "run_state (sendMessage_buffer d b f) c = (res, c')"
  shows "pending_stays (regs c) (regs c')"
proof (cases "can_dlc f > CAN_MAX_DLEN")
  case True
  then show ?thesis using run by (simp add: sendMessage_buffer_def pending_stays_def)
next
  case False
  have len: "length (tx_image f) \<le> 13"
    using False by (simp add: tx_image_def Let_def CAN_MAX_DLEN_def not_less word_le_nat_alt)
  obtain c1 where w: "run_state (setRegisters d (tx_SIDH (TXB b)) (tx_image f)) c = ((), c1)"
    by (metis old.unit.exhaust surj_pair)
  obtain c2 where m: "run_state (modifyRegister d (tx_CTRL (TXB b)) TXB_TXREQ TXB_TXREQ) c1 = ((), c2)"
    by (metis old.unit.exhaust surj_pair)
  obtain ctrl c3 where rd: "run_state (readRegister d (tx_CTRL (TXB b))) c2 = (ctrl, c3)"
    by (metis surj_pair)
  have c3: "c' = c3" using run False w m rd by (simp add: sendMessage_buffer_def)
  have far: "tx_SIDH (TXB b) + of_nat i \<noteq> MCP_CANCTRL" "tx_area (tx_SIDH (TXB b) + of_nat i)"
    if "i < length (tx_image f)" for i
    using tx_addresses(1) [of i b] tx_area_apart that len by auto
  have base: "unat (tx_SIDH (TXB b)) + length (tx_image f) \<le> 128"
    using len by (cases b) (simp_all add: TXB_def register_defs)
  have "pending_stays (regs c) (regs c1)"
  proof (rule pending_stays_tx)
    fix a assume "\<not> tx_reg a"
    then show "agree (kept (regs c) a) (regs c a) (regs c1 a)"
      using far by (intro chip_write(1) [OF chip w base]) (auto simp: tx_reg_def)
  qed
  moreover have "pending_stays (regs c1) (regs c2)"
  proof (rule pending_stays_tx)
    fix a assume "\<not> tx_reg a"
    then show "agree (kept (regs c1) a) (regs c1 a) (regs c2 a)"
      using tx_ctrl(2) by (intro chip_modify(1) [OF chip m tx_ctrl(1)]) (auto simp: tx_reg_def)
  qed
  moreover have "pending_stays (regs c2) (regs c3)"
    by (rule pending_stays_quiet [OF chip_read1(1) [OF chip rd tx_ctrl(3)]])
  ultimately show ?thesis using pending_stays_trans c3 by blast
qed

lemma sendMessage_pending:
  assumes chip: "mcp_chip d regs us" and run: "run_state (sendMessage d f) c = (res, c')"
  shows "pending_stays (regs c) (regs c')"
proof -
  have free: "run_state (first_free d bs f) c = (res, c') \<Longrightarrow> pending_stays (regs c) (regs c')" for bs c
  proof (induction bs arbitrary: c)
    case (Cons b bs)
    obtain v c1 where rd: "run_state (readRegister d (tx_CTRL (TXB b))) c = (v, c1)" by (metis surj_pair)
    have "pending_stays (regs c) (regs c1)"
      by (rule pending_stays_quiet [OF chip_read1(1) [OF chip rd tx_ctrl(3)]])
    moreover have "pending_stays (regs c1) (regs c')"
      using Cons.prems rd Cons.IH [of c1] sendMessage_buffer_pending [OF chip, of b f c1 res c']
      by (simp split: if_splits)
    ultimately show ?case by (rule pending_stays_trans)
  qed (simp add: pending_stays_quiet)
  show ?thesis
  proof (cases "can_dlc f > CAN_MAX_DLEN")
    case True
    then show ?thesis using run by (simp add: sendMessage_def pending_stays_quiet)
  next
    case False
    then have "run_state (first_free d [TXB0, TXB1, TXB2] f) c = (res, c')"
      using run by (simp only: sendMessage_def if_False)
    then show ?thesis by (rule free)
  qed
qed

lemma irq_device_run:
  assumes "run_state (irq_device d frm) c = (res, c')"
  obtains r0 r1 ov c1 c2 where "run_state (irq_read d RXB0 frm) c = (r0, c1)"
    "run_state (irq_read d RXB1 (snd r0)) c1 = (r1, c2)" "run_state (irq_overflow d) c2 = (ov, c')"
    "res = (fst r0, snd r0, fst r1, snd r1, ov)"
  using assms by (auto simp: irq_device_def split: prod.splits)

lemma irq_pending:
  assumes chip: "mcp_chip d regs us" and run: "run_state (irq_device d frm) c = (res, c')"
  shows "pending_stays (regs c) (regs c')"
proof -
  obtain r0 r1 ov c1 c2 where r: "run_state (irq_read d RXB0 frm) c = (r0, c1)"
    "run_state (irq_read d RXB1 (snd r0)) c1 = (r1, c2)" "run_state (irq_overflow d) c2 = (ov, c')"
    using irq_device_run [OF run] by metis
  have "pending_stays (regs c) (regs c1)"
    using irq_read_flags [OF chip r(1)] irq_read_too_long(1) [OF chip r(1)] by (simp add: pending_stays_def)
  moreover have "pending_stays (regs c1) (regs c2)"
    using irq_read_flags [OF chip r(2)] irq_read_too_long(1) [OF chip r(2)] by (simp add: pending_stays_def)
  moreover have "pending_stays (regs c2) (regs c')"
    using irq_overflow_quiet [OF chip r(3)] by (simp add: pending_stays_def)
  ultimately show ?thesis using pending_stays_trans by blast
qed

text \<open>
  The life of the chip once it is set up: it acts on its own, the main loop sends frames, and the
  handler runs. No other method of the driver is called after the setup.
\<close>

inductive running :: "'c spi \<Rightarrow> ('c \<Rightarrow> regfile) \<Rightarrow> 'c \<Rightarrow> 'c \<Rightarrow> bool" for d regs where
  running_start: "running d regs c c"
| running_chip: "running d regs c c1 \<Longrightarrow> chip_quiet (regs c1) (regs c2) \<Longrightarrow> running d regs c c2"
| running_send: "running d regs c c1 \<Longrightarrow> run_state (sendMessage d f) c1 = (res, c2) \<Longrightarrow> running d regs c c2"
| running_irq: "running d regs c c1 \<Longrightarrow> run_state (irq_device d frm) c1 = (out, c2) \<Longrightarrow> running d regs c c2"

lemma running_pending:
  assumes chip: "mcp_chip d regs us"
  shows "running d regs c c' \<Longrightarrow> pending_stays (regs c) (regs c')"
proof (induction rule: running.induct)
  case (running_chip c c1 c2)
  then show ?case using pending_stays_quiet pending_stays_trans by blast
next
  case (running_send c c1 f res c2)
  then show ?case using sendMessage_pending [OF chip] pending_stays_trans by blast
next
  case (running_irq c c1 frm out c2)
  then show ?case using irq_pending [OF chip] pending_stays_trans by blast
qed (simp add: pending_stays_quiet)

text \<open>What keeps the line low for good: an error flag, or a frame the handler cannot read.\<close>

definition stuck :: "regfile \<Rightarrow> bool" where
  "stuck r \<longleftrightarrow> r MCP_CANINTE = interrupt_enables \<and>
     (r MCP_CANINTF AND error_flags \<noteq> 0 \<or> too_long r RXB0 \<or> too_long r RXB1)"

lemma and_nonzero: "x AND y \<noteq> 0 \<longleftrightarrow> (\<exists>k. bit x k \<and> bit (y :: u8) k)"
proof
  assume "x AND y \<noteq> 0"
  then obtain k where "bit (x AND y) k" using bit_word_eqI [of "x AND y" 0] by auto
  then show "\<exists>k. bit x k \<and> bit y k" by (auto simp: bit_and_iff)
next
  assume "\<exists>k. bit x k \<and> bit y k"
  then obtain k where "bit (x AND y) k" by (auto simp: bit_and_iff)
  then show "x AND y \<noteq> 0" by auto
qed

lemma stuck_stays: "pending_stays r r' \<Longrightarrow> stuck r \<Longrightarrow> stuck r'"
  unfolding stuck_def pending_stays_def flags_stay_def and_nonzero
  by (auto simp: agree_bits bit_and_iff)

lemma stuck_low: "stuck r \<Longrightarrow> int_low r"
proof -
  assume s: "stuck r"
  have e: "error_flags AND interrupt_enables = error_flags" "rx_IF (RXB n) AND interrupt_enables = rx_IF (RXB n)" for n
    by (cases n; simp add: error_flags_def interrupt_enables_def RXB_def CANINTF_RX0IF_def CANINTF_RX1IF_def
        CANINTF_ERRIF_def CANINTF_MERRF_def)+
  from s obtain m where "r MCP_CANINTF AND m \<noteq> 0" "m AND interrupt_enables = m"
    using e unfolding stuck_def too_long_def rx_full_def by blast
  then show ?thesis
    using s unfolding int_low_def stuck_def and_nonzero by (metis bit_and_iff)
qed

text \<open>C13. The interrupt line can stay low for good. Once the chip has flagged an error (a receive overflow
  sets \<open>ERRIF\<close>, a damaged message \<open>MERRF\<close>; the setup enables both) or holds a frame that announces more
  than eight bytes, nothing a running node does releases the line again: not the handler, not the main
  loop, not the chip. The handler is attached to the falling edge, so it is never called again and the
  node receives nothing more.\<close>

theorem interrupt_line_stuck:
  assumes "mcp_chip d regs us" "running d regs c c'" "regs c MCP_CANINTE = interrupt_enables"
    and "regs c MCP_CANINTF AND error_flags \<noteq> 0 \<or> too_long (regs c) RXB0 \<or> too_long (regs c) RXB1"
  shows "int_low (regs c') \<and> stuck (regs c')"
  using stuck_stays [OF running_pending [OF assms(1,2)]] assms(3,4) stuck_low by (auto simp: stuck_def)

definition mem_error :: mem_chip where
  "mem_error = \<lparr>m_phase = Deselected, m_regs = m_default(MCP_CANINTE := interrupt_enables, MCP_CANINTF := CANINTF_ERRIF),
     m_us = 0\<rparr>"

theorem interrupt_line_stuck_witness:
  "int_low (m_regs (snd (run_state (irq_device mem_spi frame_example) mem_error)))"
proof -
  obtain out c1 where r: "run_state (irq_device mem_spi frame_example) mem_error = (out, c1)" by (metis surj_pair)
  have "running mem_spi m_regs mem_error c1"
    by (rule running_irq [OF running_start r])
  moreover have "m_regs mem_error MCP_CANINTE = interrupt_enables" "m_regs mem_error MCP_CANINTF AND error_flags \<noteq> 0"
    by (simp_all add: mem_error_def register_defs error_flags_def CANINTF_ERRIF_def CANINTF_MERRF_def)
  ultimately show ?thesis using interrupt_line_stuck [OF mem_is_chip, of mem_error c1] r by simp
qed


subsection \<open>From one node to the queue of another\<close>

lemma rx_frame_quiet:
  assumes q: "chip_quiet r r'" and full: "rx_full r n" and dlc: "rx_dlc r n \<le> 8"
  shows "rx_frame r' n g = rx_frame r n g" "rx_dlc r' n = rx_dlc r n"
proof -
  note at = rx_quiet [OF q full]
  show d: "rx_dlc r' n = rx_dlc r n" using at [of 4] by (simp add: rx_dlc_def)
  have "map (\<lambda>k. r' (rx_SIDH (RXB n) + 5 + of_nat k)) [0..<unat (rx_dlc r n)] =
      map (\<lambda>k. r (rx_SIDH (RXB n) + 5 + of_nat k)) [0..<unat (rx_dlc r n)]"
  proof (rule map_cong [OF refl])
    fix k assume "k \<in> set [0..<unat (rx_dlc r n)]"
    then have "5 + k < 13" using dlc by (simp add: word_le_nat_alt)
    then show "r' (rx_SIDH (RXB n) + 5 + of_nat k) = r (rx_SIDH (RXB n) + 5 + of_nat k)"
      using at [of "5 + k"] by (simp add: add.assoc)
  qed
  moreover have "r' (rx_CTRL (RXB n)) AND RXBnCTRL_RTR = r (rx_CTRL (RXB n)) AND RXBnCTRL_RTR"
    using agree_test [OF chip_quietD [OF q] rx_ctrl(3) [OF full]] by simp
  moreover have "r' (rx_SIDH (RXB n)) = r (rx_SIDH (RXB n))" "r' (rx_SIDH (RXB n) + 1) = r (rx_SIDH (RXB n) + 1)"
      "r' (rx_SIDH (RXB n) + 2) = r (rx_SIDH (RXB n) + 2)" "r' (rx_SIDH (RXB n) + 3) = r (rx_SIDH (RXB n) + 3)"
    using at [of 0] at [of 1] at [of 2] at [of 3] by simp_all
  ultimately show "rx_frame r' n g = rx_frame r n g" unfolding rx_frame_def Let_def d by simp
qed

lemma irq_read_full:
  assumes chip: "mcp_chip d regs us" and run: "run_state (irq_read d n frm) c = (res, c')"
    and full: "rx_full (regs c) n" and dlc: "rx_dlc (regs c) n \<le> 8"
  shows "res = (True, rx_frame (regs c) n frm)"
  using chip run
proof (cases rule: irq_read_cases)
  case (frame c1)
  then show ?thesis using rx_frame_quiet(1) [OF frame(1) full dlc] by simp
next
  case (refused c1)
  then show ?thesis using rx_frame_quiet(2) [OF refused(1) full dlc] dlc by (simp add: too_long_def not_le [symmetric])
qed (use full in simp)

lemma irq_buffer_queue:
  assumes "stream_ok (cf_stream n)"
  shows "\<exists>rest. stream_contents (cf_stream (irq_buffer p f n)) = stream_contents (cf_stream n) @ rest \<and>
     set rest \<subseteq> {f} \<and> (p \<longrightarrow> length (stream_contents (cf_stream n)) < buffsize \<longrightarrow> rest = [f])"
proof (cases "p \<and> length (stream_contents (cf_stream n)) < buffsize")
  case True
  then show ?thesis
    using ring.put_room [OF assms, of f] by (auto simp: irq_buffer_def Let_def split: prod.splits)
next
  case False
  then have "p \<Longrightarrow> stream_put f (cf_stream n) = (False, cf_stream n)"
    using ring.put_full [OF assms, of f] ring.within_cap [OF assms] by fastforce
  then show ?thesis using False by (auto simp: irq_buffer_def Let_def)
qed

lemma irqHandler_queue:
  assumes ok: "stream_ok (cf_stream n)" and room: "length (stream_contents (cf_stream n)) < buffsize"
  shows "\<exists>rest. stream_contents (cf_stream (irqHandler True f0 rx1 f1 ov n)) =
     stream_contents (cf_stream n) @ f0 # rest \<and> set rest \<subseteq> {f1}"
proof -
  obtain rest where r1: "stream_contents (cf_stream (irq_buffer True f0 n)) = stream_contents (cf_stream n) @ [f0]"
    using irq_buffer_queue [OF ok, of True f0] room by auto
  obtain rest where "stream_contents (cf_stream (irq_buffer rx1 f1 (irq_buffer True f0 n))) =
      stream_contents (cf_stream (irq_buffer True f0 n)) @ rest" "set rest \<subseteq> {f1}"
    using irq_buffer_queue [OF irq_buffer_ok [OF ok, of True f0], of rx1 f1] by blast
  then show ?thesis using r1 by (simp add: irqHandler_def Let_def)
qed

text \<open>A frame the bus brings into receive buffer 0 is appended to the queue of the node.\<close>

lemma held_frame_queued:
  assumes "mcp_chip d regs us" "holds_frame r b f" "frame_ok f" "can_dlc f \<le> 8"
    and "delivered r b (regs c) RXB0"
    and "run_state (irq_device d frm) c = ((rx0, f0, rx1, f1, ov), c')"
    and "stream_ok (cf_stream n)" "length (stream_contents (cf_stream n)) < buffsize"
  shows "(\<exists>rest. stream_contents (cf_stream (irqHandler rx0 f0 rx1 f1 ov n)) = stream_contents (cf_stream n) @
       \<lparr>can_id = wire_id (can_id f), can_dlc = can_dlc f,
         can_data = take (unat (can_dlc f)) (can_data f) @ drop (unat (can_dlc f)) (can_data frm)\<rparr> # rest \<and>
       set rest \<subseteq> {f1}) \<and> interrupt (irqHandler rx0 f0 rx1 f1 ov n)"
proof -
  note frame = rx_frame_delivered [OF assms(2,3,4,5)]
  have full: "rx_full (regs c) RXB0" using assms(5) by (simp add: delivered_def Let_def)
  obtain r0 r1 c0 c2 where "run_state (irq_read d RXB0 frm) c = (r0, c0)"
    "(rx0, f0, rx1, f1, ov) = (fst r0, snd r0, fst r1, snd r1, ov)"
    using irq_device_run [OF assms(6)] by (metis prod.inject)
  then have "rx0" "f0 = rx_frame (regs c) RXB0 frm"
    using irq_read_full [OF assms(1) _ full] frame(2) assms(4) by fastforce+
  then show ?thesis
    using irqHandler_queue [OF assms(7,8), of f0 rx1 f1 ov] frame(1) [of frm]
    by (auto simp: irqHandler_def Let_def)
qed

end
