(* ===== verification/Node_Types.thy ===== *)
theory Node_Types
  imports Node_Loop
begin

text \<open>
  The declared sizes of the arrays of a node (\<open>glob.h\<close>, \<open>calibrationFSM.h\<close>, \<open>consensus.h\<close>, \<open>lpf.h\<close>,
  \<open>can.h\<close>), as a typing of its state, and that every operation keeps it.
\<close>

subsection \<open>Typing\<close>

definition registry_typed :: "registry \<Rightarrow> bool" where
  "registry_typed r \<longleftrightarrow> length (nodesList r) = MAX_NUM_NODES \<and> length (nodeIndexOnGainMatrix r) = MAX_NODE_ID + 1"

definition calib_typed :: "calibration \<Rightarrow> bool" where
  "calib_typed c \<longleftrightarrow> matrix_shape MAX_NUM_NODES MAX_NUM_NODES (gainMatrix c) \<and>
     length (residualArray c) = MAX_NUM_NODES \<and> length (luxReads c) = 2 \<and> length (cal_pwm c) = 2"

definition consensus_typed :: "consensus \<Rightarrow> bool" where
  "consensus_typed s \<longleftrightarrow> length (dutyCycleAv s) = MAX_NUM_NODES \<and> length (lagrangeMultipliers s) = MAX_NUM_NODES \<and>
     length (ki s) = MAX_NUM_NODES \<and> length (dutyCycleBest s) = MAX_NUM_NODES \<and>
     length (receivedDutyCycle s) = MAX_NUM_NODES"

definition lpf_typed :: "lpf \<Rightarrow> bool" where
  "lpf_typed f \<longleftrightarrow> length (lpfSamples f) = LPF_TOTAL_SAMPLES \<and> lpfIdx f < LPF_TOTAL_SAMPLES \<and>
     lpfNumSamples f \<le> LPF_TOTAL_SAMPLES"

text \<open>\<open>me\<close> is the id of the node: its frames carry it as their sender.\<close>

definition frame_typed :: "u8 \<Rightarrow> can_frame \<Rightarrow> bool" where
  "frame_typed me f \<longleftrightarrow> frame_ok f \<and> can_dlc f \<le> 8 \<and>
     can_id f = canMessageId me (id_destination (can_id f)) (id_type (can_id f))"

definition io_typed :: "u8 \<Rightarrow> io \<Rightarrow> bool" where
  "io_typed me s \<longleftrightarrow> frame_ok (sendingFrame s) \<and> list_all (frame_typed me) (sent_frames (log s))"

definition node_typed :: "u8 \<Rightarrow> node \<Rightarrow> bool" where
  "node_typed me n \<longleftrightarrow> registry_typed (n_reg n) \<and> calib_typed (n_cal n) \<and> consensus_typed (n_cons n) \<and>
     lpf_typed (n_lpf n) \<and> io_typed me (n_io n)"

lemma node_typedD:
  "node_typed me n \<Longrightarrow> registry_typed (n_reg n)" "node_typed me n \<Longrightarrow> calib_typed (n_cal n)"
  "node_typed me n \<Longrightarrow> consensus_typed (n_cons n)" "node_typed me n \<Longrightarrow> lpf_typed (n_lpf n)"
  "node_typed me n \<Longrightarrow> io_typed me (n_io n)"
  by (simp_all add: node_typed_def)

text \<open>A field that is not typed may change.\<close>

lemma node_typed_update [simp]:
  "node_typed me (n\<lparr>hubNode := a\<rparr>) = node_typed me n"
  "node_typed me (n\<lparr>timeSinceLastReset := t\<rparr>) = node_typed me n"
  "node_typed me (n\<lparr>didControl := b\<rparr>) = node_typed me n"
  "node_typed me (n\<lparr>n_lum := l\<rparr>) = node_typed me n"
  "node_typed me (n\<lparr>n_main := f\<rparr>) = node_typed me n"
  "node_typed me (n\<lparr>n_ser := s\<rparr>) = node_typed me n"
  "node_typed me (n\<lparr>n_met := m\<rparr>) = node_typed me n"
  "node_typed me (n\<lparr>interrupt := b\<rparr>) = node_typed me n"
  "node_typed me (n\<lparr>mcp2515_overflow := b\<rparr>) = node_typed me n"
  "node_typed me (n\<lparr>arduino_overflow := b\<rparr>) = node_typed me n"
  "node_typed me (n\<lparr>cf_stream := st\<rparr>) = node_typed me n"
  "node_typed me (n\<lparr>timeLastPCDiscovery := t\<rparr>) = node_typed me n"
  by (simp_all add: node_typed_def)

subsection \<open>Messages\<close>

lemma io_typed_emit: "io_typed me s \<Longrightarrow> sent_frames es = [] \<Longrightarrow> io_typed me (emit es s)"
  by (simp add: io_typed_def emit_def)

lemma n_emit_typed: "node_typed me n \<Longrightarrow> sent_frames es = [] \<Longrightarrow> node_typed me (n_emit es n)"
  by (simp add: node_typed_def n_emit_def io_typed_emit)

lemma sent_none [simp]:
  "sent_frames (SerialPrint a # es) = sent_frames es" "sent_frames (SerialPrintInt i # es) = sent_frames es"
  "sent_frames (SerialPrintHex w # es) = sent_frames es" "sent_frames (SerialNewline # es) = sent_frames es"
  "sent_frames (SerialPrintFloat x k # es) = sent_frames es" "sent_frames (SerialWrite b # es) = sent_frames es"
  "sent_frames (SerialFlush # es) = sent_frames es" "sent_frames (AnalogWrite d # es) = sent_frames es"
  "sent_frames (DigitalWrite d # es) = sent_frames es" "sent_frames (EepromPut k v # es) = sent_frames es"
  "sent_frames (map SerialWrite bs) = []"
  by (simp_all add: sent_frames_def comp_def)

lemma sendFrame_keeps: "sendingFrame (sendFrame drv s) = sendingFrame s"
  by (simp add: sendFrame_def emit_def Let_def)

definition own_header :: "u8 \<Rightarrow> can_frame \<Rightarrow> bool" where
  "own_header me f \<longleftrightarrow> can_dlc f \<le> 8 \<and> (\<exists>dest t. can_id f = canMessageId me dest t)"

lemma sendFrame_typed: "io_typed me s \<Longrightarrow> own_header me (sendingFrame s) \<Longrightarrow> io_typed me (sendFrame drv s)"
  by (auto simp: io_typed_def sendFrame_def emit_def Let_def frame_typed_def own_header_def id_fields)

lemma send_message_typed:
  assumes "io_typed me s" "length bs \<le> 8" "k \<le> 8"
  shows "io_typed me (send_message drv (canMessageId me dest t) k bs s)"
proof -
  have "unat (of_nat k :: u8) \<le> 8" using assms(3) by (simp add: unat_of_nat)
  then have k: "(of_nat k :: u8) \<le> 8" by (simp add: word_le_nat_alt)
  show ?thesis
    unfolding send_message_def
    by (rule sendFrame_typed)
      (use assms(1,2) k in \<open>auto simp: io_typed_def put_data_def frame_ok_def own_header_def\<close>)
qed

lemma sends_typed:
  assumes "io_typed me s"
  shows "io_typed me (sendCommandResponse drv me b v s)" "io_typed me (sendCommandRequest drv me b c s)"
    "io_typed me (sendBroadcastWakeup drv me s)" "io_typed me (sendCalibLedOn drv me s)"
    "io_typed me (sendCalibReady drv me x s)" "io_typed me (sendFrequentDataToHub drv me b p s)"
    "io_typed me (sendDoConsensus drv me s)" "io_typed me (sendBroadcastIsHubNode drv me s)"
    "io_typed me (sendBroadcastNoLongerIsHubNode drv me s)"
  using send_message_typed [OF assms] cmd_codec.enc_width [of c]
  by (simp_all add: send_defs le_bytes_def float_bytes_def length_freq_bytes)

lemma send_vector_typed:
  "send_vector drv n ms val s = Some s' \<Longrightarrow> io_typed me s \<Longrightarrow> own_header me (sendingFrame s) \<Longrightarrow> io_typed me s'"
proof (induction ms arbitrary: s)
  case (Cons m ms)
  obtain data where d: "fill_triple n m [0, 1, 2] val (can_data (sendingFrame s)) = Some data"
    and rest: "send_vector drv n ms val (sendFrame drv
      (s\<lparr>sendingFrame := (sendingFrame s)\<lparr>can_data := data[6 := of_nat m]\<rparr>\<rparr>)) = Some s'"
    using Cons.prems(1) by (auto simp: bind_eq_Some_conv)
  let ?t = "s\<lparr>sendingFrame := (sendingFrame s)\<lparr>can_data := data[6 := of_nat m]\<rparr>\<rparr>"
  have t: "io_typed me ?t" "own_header me (sendingFrame ?t)"
    using Cons.prems(2,3) length_fill_triple [OF d] by (simp_all add: io_typed_def frame_ok_def own_header_def)
  then show ?case using Cons.IH [OF rest] sendFrame_typed [OF t] by (simp add: sendFrame_keeps)
qed simp

lemma send_duty_typed: "sendConsensusDutyCycle drv me n val s = Some s' \<Longrightarrow> io_typed me s \<Longrightarrow> io_typed me s'"
  unfolding sendConsensusDutyCycle_def
  by (erule send_vector_typed) (auto simp: io_typed_def frame_ok_def own_header_def)

text \<open>A node whose messages stay typed.\<close>

lemma node_typed_io: "node_typed me n \<Longrightarrow> (io_typed me (n_io n) \<Longrightarrow> io_typed me s) \<Longrightarrow> node_typed me (n\<lparr>n_io := s\<rparr>)"
  by (simp add: node_typed_def)

lemma node_typed_cons: "node_typed me n \<Longrightarrow> consensus_typed s \<Longrightarrow> node_typed me (n\<lparr>n_cons := s\<rparr>)"
  by (simp add: node_typed_def)

subsection \<open>Registry\<close>

lemma shift_down_length: "shift_down n j v nodes = Some nodes' \<Longrightarrow> length nodes' = length nodes"
proof (induction n j v nodes rule: shift_down.induct)
  case (1 n j v nodes)
  from 1(1) show ?case
    using 1(2) [unfolded shift_down.simps [of n j v nodes]]
    by (auto simp: bind_eq_Some_conv dest: aset_length split: if_splits)
qed

lemma index_nodes_length: "index_nodes n i nodes idx = Some idx' \<Longrightarrow> length idx' = length idx"
proof (induction n i nodes idx rule: index_nodes.induct)
  case (1 n i nodes idx)
  from 1(1) show ?case
    using 1(2) [unfolded index_nodes.simps [of n i nodes idx]]
    by (auto simp: bind_eq_Some_conv dest: aset_length split: if_splits)
qed

lemma register_typed: "registerNewNode nid r = Some r' \<Longrightarrow> registry_typed r \<Longrightarrow> registry_typed r'"
  by (auto simp: registerNewNode_def insert_node_def bind_eq_Some_conv Let_def registry_typed_def
      dest!: aset_length shift_down_length index_nodes_length split: option.splits)

lemma list_sends_none: "sendListNodesToPC r = Some es \<Longrightarrow> sent_frames es = []"
  by (auto simp: sendListNodesToPC_def split: if_splits)

lemma node_register_typed:
  assumes "node_register e nid n = Some n'" "node_typed (nodeId e) n"
  shows "node_typed (nodeId e) n'"
proof -
  let ?n = "n_emit [SerialPrint ''Registering new node '', SerialPrintInt (uint nid), SerialNewline] n"
  obtain r where r: "registerNewNode nid (n_reg ?n) = Some r"
    and rest: "n' = ?n\<lparr>n_reg := r\<rparr> \<or> (\<exists>es. sendListNodesToPC r = Some es \<and> n' = n_emit es (?n\<lparr>n_reg := r\<rparr>))"
    using assms(1) by (auto simp: node_register_def bind_eq_Some_conv Let_def split: if_splits)
  have "node_typed (nodeId e) ?n" using assms(2) by (simp add: n_emit_typed)
  then have "node_typed (nodeId e) (?n\<lparr>n_reg := r\<rparr>)"
    using register_typed [OF r] by (simp add: node_typed_def)
  then show ?thesis using rest list_sends_none n_emit_typed by blast
qed

subsection \<open>Calibration, consensus, filter\<close>

lemma setGain_typed: "setGain i j g c = Some c' \<Longrightarrow> calib_typed c \<Longrightarrow> calib_typed c'"
  by (auto simp: setGain_def bind_eq_Some_conv calib_typed_def dest: matrix_set_shape)

lemma take_reading_typed: "take_reading e l adc c = Some c' \<Longrightarrow> calib_typed c \<Longrightarrow> calib_typed c'"
  by (auto simp: take_reading_def bind_eq_Some_conv calib_typed_def dest!: aset_length split: if_splits)

lemma calib_typed_update [simp]:
  "calib_typed (cal_setState st t c) = calib_typed c" "calib_typed (incrementNodesReady c) = calib_typed c"
  "calib_typed (c\<lparr>nodeLedOn := k\<rparr>) = calib_typed c" "calib_typed (c\<lparr>luxReadNum := k\<rparr>) = calib_typed c"
  "calib_typed (c\<lparr>numNodesReady := m\<rparr>) = calib_typed c" "calib_typed (c\<lparr>cal_done := b\<rparr>) = calib_typed c"
  "calib_typed (c\<lparr>otherNodeLedOn := b\<rparr>) = calib_typed c"
  by (simp_all add: cal_setState_def incrementNodesReady_def calib_typed_def)

lemma next_reading_typed: "next_reading c = Some c' \<Longrightarrow> calib_typed c \<Longrightarrow> calib_typed c'"
  by (auto simp: next_reading_def bind_eq_Some_conv split: if_splits)

lemma calib_loop_typed:
  assumes "calib_loop e r l adc now now2 s c = Some (s', c')" "io_typed (nodeId e) s" "calib_typed c"
  shows "io_typed (nodeId e) s' \<and> calib_typed c'"
proof (cases "cal_state c")
  case CalibInit
  then show ?thesis using assms
    by (auto simp: calib_loop_def runStateInit_def bind_eq_Some_conv Let_def io_typed_emit calib_typed_def
        cal_setState_def incrementNodesReady_def intro!: sends_typed dest!: aset_length)
next
  case WaitReady
  then show ?thesis using assms
    by (auto simp: calib_loop_def runStateWaitReady_def bind_eq_Some_conv Let_def io_typed_emit
        intro!: sends_typed dest: next_reading_typed split: if_splits)
next
  case WaitLedOn
  then show ?thesis using assms by (auto simp: calib_loop_def runStateWaitLedOn_def)
next
  case WaitTransient
  then show ?thesis using assms
    by (auto simp: calib_loop_def runStateWaitTrasient_def bind_eq_Some_conv Let_def
        intro!: sends_typed dest!: take_reading_typed setGain_typed split: if_splits)
qed

lemma ready_frame_typed: "calib_ready_frame r sender data c = Some c' \<Longrightarrow> calib_typed c \<Longrightarrow> calib_typed c'"
  using calib_frame_kept [of r sender data c c' MAX_NUM_NODES MAX_NUM_NODES] by (auto simp: calib_typed_def)

lemma consensus_init_typed: "consensus_init e r l cal s = Some s' \<Longrightarrow> consensus_typed s \<Longrightarrow> consensus_typed s'"
  by (auto simp: consensus_init_def bind_eq_Some_conv Let_def consensus_typed_def split: if_splits)

lemma add_triple_length: "add_triple n m js data recv = Some recv' \<Longrightarrow> length recv' = length recv"
  by (induction n m js data recv arbitrary: recv' rule: add_triple.induct)
    (auto simp: bind_eq_Some_conv Let_def dest: aset_length split: if_splits)

lemma consensus_received_typed: "consensus_received n f s = Some s' \<Longrightarrow> consensus_typed s \<Longrightarrow> consensus_typed s'"
  by (auto simp: consensus_received_def consensus_frame_def bind_eq_Some_conv consensus_typed_def
      simp del: add_triple.simps dest!: add_triple_length)

lemma iterate_length: "length (fst (iterate_result m n cost residual s)) = n"
proof -
  have "length (fst (fold (consider_candidate f g) ds best)) = n"
    if "\<forall>d \<in> set ds. length d = n" "length (fst best) = n" for f g ds best
    using that by (induction ds arbitrary: best) (simp_all add: consider_candidate_def)
  then show ?thesis using candidate_lengths by (simp add: iterate_result_def)
qed

lemma consensus_iterate_typed:
  "consensus_iterate e n l cal s = Some s' \<Longrightarrow> consensus_typed s \<Longrightarrow> consensus_typed s'"
  by (auto simp: consensus_iterate_def bind_eq_Some_conv consensus_typed_def iterate_length split: if_splits)

lemma consensus_finish_typed:
  "consensus_finish e n cal now adc l s = Some (l', s') \<Longrightarrow> consensus_typed s \<Longrightarrow> consensus_typed s'"
  by (auto simp: consensus_finish_def consensus_update_def bind_eq_Some_conv Let_def consensus_typed_def
      split: if_splits)

lemma consensus_typed_state [simp]: "consensus_typed (s\<lparr>consensusState := st\<rparr>) = consensus_typed s"
  by (simp add: consensus_typed_def)

lemma consensus_pass_typed:
  assumes "consensus_pass e r cal now adc (out, l, s) = Some (out', l', s')" "io_typed (nodeId e) out" "consensus_typed s"
  shows "io_typed (nodeId e) out' \<and> consensus_typed s'"
proof (cases "consensusState s = OFF_STATE")
  case False
  obtain s1 out1 s2 s3 where
    1: "(if consensusState s = ITERATE_STATE then do {
          s \<leftarrow> consensus_iterate e (node_count r) l cal s;
          Some (s\<lparr>consensusState := SENDING_DUTY_CYCLE_STATE\<rparr>)
        } else Some s) = Some s1" and
    2: "(if consensusState s1 = SENDING_DUTY_CYCLE_STATE then do {
          out \<leftarrow> sendConsensusDutyCycle (env_drv e) (nodeId e) (node_count r) (dutyCycleBest s1) out;
          Some (out, s1\<lparr>consensusState := WAITING_RECIVE_DUTY_CYCLE_STATE\<rparr>)
        } else Some (out, s1)) = Some (out1, s2)" and
    3: "s3 = (if consensusState s2 = WAITING_RECIVE_DUTY_CYCLE_STATE \<and> numberOfMsgReceived s2 = numberOfMsgExpected s2
        then s2\<lparr>consensusState := UPDATE_STATE\<rparr> else s2)" and
    4: "(if consensusState s3 = UPDATE_STATE then do {
          (l, s) \<leftarrow> consensus_finish e (node_count r) cal now adc l s3;
          Some (out1, l, s)
        } else Some (out1, l, s3)) = Some (out', l', s')"
    using assms(1) False
    unfolding consensus_pass_def consensus_main_def Let_def by (auto simp: bind_eq_Some_conv)
  have "consensus_typed s1" using 1 assms(3) by (auto simp: bind_eq_Some_conv dest: consensus_iterate_typed split: if_splits)
  then have "io_typed (nodeId e) out1 \<and> consensus_typed s2"
    using 2 assms(2) by (auto simp: bind_eq_Some_conv dest: send_duty_typed split: if_splits)
  then have "io_typed (nodeId e) out1 \<and> consensus_typed s3" using 3 by simp
  then show ?thesis using 4 by (auto simp: bind_eq_Some_conv dest: consensus_finish_typed split: if_splits)
qed (use assms in \<open>simp add: consensus_pass_def\<close>)

lemma lpf_sample_typed: "lpf_sample v f = Some f' \<Longrightarrow> lpf_typed f \<Longrightarrow> lpf_typed f'"
  by (auto simp: lpf_sample_def bind_eq_Some_conv Let_def lpf_typed_def LPF_TOTAL_SAMPLES_def dest!: aset_length)

lemma luminaire_loop_typed:
  "luminaire_loop m t a1 a2 res l f = Some (out, l', f') \<Longrightarrow> lpf_typed f \<Longrightarrow> lpf_typed f'"
  by (auto simp: luminaire_loop_def bind_eq_Some_conv Let_def dest: lpf_sample_typed split: if_splits)

text \<open>The reset of the filter writes behind its array.\<close>

lemma reset_never: "node_typed (nodeId e) n \<Longrightarrow> reset_node e rd n = None"
  by (cases "resetCalib (node_count (n_reg n)) (n_cal n)";
      cases "resetConsensus (node_count (n_reg n)) (n_cons n)")
    (simp_all add: reset_node_def Let_def resetLPF_def aset_def node_typed_def lpf_typed_def)

subsection \<open>The operations of a node\<close>

lemma restart_typed: "restart_consensus e n = Some n' \<Longrightarrow> node_typed (nodeId e) n \<Longrightarrow> node_typed (nodeId e) n'"
  by (auto simp: restart_consensus_def bind_eq_Some_conv Let_def node_typed_def
      intro: sends_typed consensus_init_typed)

lemma setters_typed:
  "set_reference_occupied e v n = Some n' \<Longrightarrow> node_typed (nodeId e) n \<Longrightarrow> node_typed (nodeId e) n'"
  "set_reference_unoccupied e v n = Some n' \<Longrightarrow> node_typed (nodeId e) n \<Longrightarrow> node_typed (nodeId e) n'"
  "set_occupied e w n = Some n' \<Longrightarrow> node_typed (nodeId e) n \<Longrightarrow> node_typed (nodeId e) n'"
  by (auto simp: set_reference_occupied_def set_reference_unoccupied_def set_occupied_def Let_def
      dest!: restart_typed split: if_splits)

lemma set_cost_typed: "set_cost e v n = Some n' \<Longrightarrow> node_typed (nodeId e) n \<Longrightarrow> node_typed (nodeId e) n'"
  by (auto simp: set_cost_def bind_eq_Some_conv intro!: n_emit_typed dest!: restart_typed split: if_splits)

lemma execute_typed: "executeCommand e rd c n = Some (v, n') \<Longrightarrow> node_typed (nodeId e) n \<Longrightarrow> node_typed (nodeId e) n'"
  by (auto simp: executeCommand_def bind_eq_Some_conv reset_never
      intro: setters_typed set_cost_typed split: if_splits)

lemma response_none [simp]: "sent_frames (sendResponse v) = []"
  by (simp add: sendResponse_def)

lemma total_typed: "node_typed (nodeId e) n \<Longrightarrow> node_typed (nodeId e) (sendTotalIfAllValueForTotalReceived n)"
  by (simp add: sendTotalIfAllValueForTotalReceived_def n_emit_typed Let_def)

lemma can_response_typed: "node_typed (nodeId e) n \<Longrightarrow> node_typed (nodeId e) (receivedCommandResponseFromCAN v n)"
  by (simp add: receivedCommandResponseFromCAN_def n_emit_typed total_typed)

lemma sends_node_typed:
  assumes "node_typed me n"
  shows "node_typed me (n\<lparr>n_io := sendCommandRequest drv me b c (n_io n)\<rparr>)"
    "node_typed me (n\<lparr>n_io := sendCommandResponse drv me b v (n_io n)\<rparr>)"
    "node_typed me (n\<lparr>n_io := sendBroadcastIsHubNode drv me (n_io n)\<rparr>)"
    "node_typed me (n\<lparr>n_io := sendBroadcastNoLongerIsHubNode drv me (n_io n)\<rparr>)"
    "node_typed me (n\<lparr>n_io := sendBroadcastWakeup drv me (n_io n)\<rparr>)"
    "node_typed me (n\<lparr>n_io := sendFrequentDataToHub drv me b p (n_io n)\<rparr>)"
  using assms by (simp_all add: node_typed_def sends_typed)

lemma handle_typed:
  assumes "handle_command e rd c n = Some n'" "node_typed (nodeId e) n"
  shows "node_typed (nodeId e) n'"
proof (cases "is_char (cmd c) CHR ''D''")
  case True
  let ?n = "n_emit [SerialPrint ''[Debug] This node is now HUB''] (n\<lparr>n_ser := (n_ser n)\<lparr>pcDiscoveryHadResponse := True\<rparr>\<rparr>)"
  let ?m = "?n\<lparr>hubNode := nodeId e, n_io := sendBroadcastIsHubNode (env_drv e) (nodeId e) (n_io ?n)\<rparr>"
  have "node_typed (nodeId e) (?n\<lparr>hubNode := nodeId e\<rparr>)" using assms(2) by (simp add: n_emit_typed)
  from sends_node_typed(3) [OF this] have "node_typed (nodeId e) ?m" by simp
  moreover have "n' = n\<lparr>n_ser := (n_ser n)\<lparr>pcDiscoveryHadResponse := True\<rparr>\<rparr> \<or>
      (\<exists>es. sendListNodesToPC (n_reg ?m) = Some es \<and> n' = n_emit es ?m)"
    using assms(1) True by (auto simp: handle_command_def bind_eq_Some_conv Let_def split: if_splits)
  ultimately show ?thesis using assms(2) list_sends_none n_emit_typed by auto
next
  case False
  note D = this
  show ?thesis
  proof (cases "destination c = 0")
    case True
    let ?n = "n\<lparr>n_ser := (n_ser n)\<lparr>numNodesWaitingResult := numTotalNodes (n_reg n) - 1, runningTotalCommand := True\<rparr>\<rparr>"
    obtain v n1 where x: "executeCommand e rd c ?n = Some (v, n1)"
      and n': "n' = sendTotalIfAllValueForTotalReceived (n1\<lparr>n_ser := (n_ser n1)\<lparr>totalCommandResult := F32 v\<rparr>,
        n_io := sendCommandRequest (env_drv e) (nodeId e) 0 c (n_io n1)\<rparr>)"
      using assms(1) D True by (auto simp: handle_command_def bind_eq_Some_conv Let_def)
    have "node_typed (nodeId e) (n1\<lparr>n_ser := (n_ser n1)\<lparr>totalCommandResult := F32 v\<rparr>\<rparr>)"
      using execute_typed [OF x] assms(2) by simp
    from sends_node_typed(1) [OF this, of "env_drv e" 0 c] show ?thesis
      unfolding n' by (intro total_typed) simp
  next
    case other: False
    show ?thesis
    proof (cases "destination c = nodeId e")
      case True
      then show ?thesis using assms D other
        by (auto simp: handle_command_def bind_eq_Some_conv intro!: n_emit_typed dest: execute_typed)
    next
      case False
      then show ?thesis using assms D other
        by (auto simp: handle_command_def Let_def n_emit_typed
            intro!: sends_node_typed [OF n_emit_typed] split: if_splits)
    qed
  qed
qed

lemma serial_typed: "readSerial e rds bytes k n = Some n' \<Longrightarrow> node_typed (nodeId e) n \<Longrightarrow> node_typed (nodeId e) n'"
proof (induction e rds bytes k n rule: readSerial.induct)
  case (2 e rds b bs k n)
  then show ?case by (auto simp: bind_eq_Some_conv dest: handle_typed split: if_splits)
qed simp

lemma received_typed:
  assumes "received e rd f n = Some n'" "node_typed (nodeId e) n"
  shows "node_typed (nodeId e) n'"
proof -
  have exec: "node_typed (nodeId e) (n2\<lparr>n_io := sendCommandResponse d (nodeId e) s v (n_io n2)\<rparr>)"
    if "executeCommand e rd c n = Some (v, n2)" for c n2 d s v
    using sends_node_typed(2) [OF execute_typed [OF that assms(2)]] .
  have frame: "node_typed (nodeId e) (n_emit es n)" if "freq_data_serial data = Some es" for data es
    using that assms(2) by (auto simp: freq_data_serial_def intro!: n_emit_typed split: if_splits)
  have cal: "node_typed (nodeId e) (n\<lparr>n_cal := c\<rparr>)" if "calib_ready_frame r s d (n_cal n) = Some c" for r s d c
    using ready_frame_typed [OF that] assms(2) by (simp add: node_typed_def)
  have led: "node_typed (nodeId e) (n\<lparr>n_cal := (n_cal n)\<lparr>otherNodeLedOn := True\<rparr>\<rparr>)" "consensus_typed (n_cons n)"
    using assms(2) by (simp_all add: node_typed_def)
  have debug: "node_typed (nodeId e) (n_emit [SerialPrintInt i, SerialNewline] n)"
    "n_cons (n_emit es n) = n_cons n" for i es
    using assms(2) by (simp_all add: n_emit_typed) (simp add: n_emit_def)
  show ?thesis
    using assms
    by (auto simp: received_def Let_def bind_eq_Some_conv exec frame cal led debug
        intro: node_register_typed can_response_typed
          node_typed_cons [OF _ consensus_init_typed] node_typed_cons [OF _ consensus_received_typed]
        split: if_splits)
qed

lemma drain_typed: "drain fuel e rds k n = Some n' \<Longrightarrow> node_typed (nodeId e) n \<Longrightarrow> node_typed (nodeId e) n'"
  by (induction fuel arbitrary: k n)
    (auto simp: bind_eq_Some_conv dest: received_typed split: prod.splits option.splits)

lemma receive_frames_typed: "receive_frames e rds n = Some n' \<Longrightarrow> node_typed (nodeId e) n \<Longrightarrow> node_typed (nodeId e) n'"
proof -
  have "node_typed (nodeId e) (overflow_reports n)" if "node_typed (nodeId e) n"
    using that by (simp add: overflow_reports_def Let_def n_emit_typed)
  then show "receive_frames e rds n = Some n' \<Longrightarrow> node_typed (nodeId e) n \<Longrightarrow> node_typed (nodeId e) n'"
    by (auto simp: receive_frames_def simp del: drain.simps intro: drain_typed split: if_splits)
qed

lemma discovery_typed: "node_typed (nodeId e) n \<Longrightarrow> node_typed (nodeId e) (discovery_timer e t n)"
proof -
  have "node_typed (nodeId e) (n\<lparr>hubNode := 0, n_io := sendBroadcastNoLongerIsHubNode d (nodeId e) (n_io n)\<rparr>)"
    if "node_typed (nodeId e) n" for d
    using sends_node_typed(4) [of "nodeId e" "n\<lparr>hubNode := 0\<rparr>" d] that by simp
  then show "node_typed (nodeId e) n \<Longrightarrow> node_typed (nodeId e) (discovery_timer e t n)"
    by (simp add: discovery_timer_def sendPCDiscovery_def Let_def n_emit_typed)
qed

lemma print_row_none: "print_row sep row js = Some es \<Longrightarrow> sent_frames es = []"
  by (induction sep row js arbitrary: es rule: print_row.induct) (auto simp: bind_eq_Some_conv)

lemma print_rows_none: "print_rows n g js = Some es \<Longrightarrow> sent_frames es = []"
  by (induction n g js arbitrary: es rule: print_rows.induct) (auto simp: bind_eq_Some_conv print_row_none)

lemma finish_calibration_typed: "finish_calibration e now n = Some n' \<Longrightarrow> node_typed (nodeId e) n \<Longrightarrow> node_typed (nodeId e) n'"
proof -
  assume run: "finish_calibration e now n = Some n'" and n: "node_typed (nodeId e) n"
  obtain g es s where p: "printResidualAndGainMatrix (node_count (n_reg n)) (n_cal n) = Some es"
    and s: "consensus_init e (n_reg n) (setSystemGain g (n_lum n)) (n_cal n) (n_cons n) = Some s"
    and n': "n' = n_emit es (n\<lparr>n_main := main_setState Run now (n_main n), n_lum := setSystemGain g (n_lum n)\<rparr>)\<lparr>n_cons := s\<rparr>"
    using run by (auto simp: finish_calibration_def bind_eq_Some_conv Let_def n_emit_def)
  have "sent_frames es = []"
    using p by (auto simp: printResidualAndGainMatrix_def bind_eq_Some_conv print_row_none print_rows_none)
  then have "node_typed (nodeId e) (n_emit es (n\<lparr>n_main := main_setState Run now (n_main n), n_lum := setSystemGain g (n_lum n)\<rparr>))"
    using n by (simp add: n_emit_typed)
  then show "node_typed (nodeId e) n'"
    unfolding n' using consensus_init_typed [OF s] n by (intro node_typed_cons) (simp_all add: node_typed_def)
qed

lemma main_loop_typed:
  assumes "main_loop e rd n = Some n'" "node_typed (nodeId e) n"
  shows "node_typed (nodeId e) n'"
proof (cases "main_state (n_main n)")
  case Init
  then show ?thesis using assms sends_node_typed(5) [OF assms(2)]
    by (auto simp: main_loop_def main_runStateInit_def Let_def)
next
  case WakeupWait
  then show ?thesis using assms by (auto simp: main_loop_def main_runStateWakeupWait_def)
next
  case Calibrate
  then obtain s c where run: "calib_loop e (n_reg n) (n_lum n) (rd_adc rd) (rd_t1 rd) (rd_t2 rd) (n_io n) (n_cal n) = Some (s, c)"
    and rest: "(if cal_done c then finish_calibration e (rd_t3 rd) (n\<lparr>n_io := s, n_cal := c\<rparr>)
      else Some (n\<lparr>n_io := s, n_cal := c\<rparr>)) = Some n'"
    using assms(1) by (auto simp: main_loop_def main_calibrate_def bind_eq_Some_conv Let_def)
  have "node_typed (nodeId e) (n\<lparr>n_io := s, n_cal := c\<rparr>)"
    using calib_loop_typed [OF run] assms(2) by (simp add: node_typed_def)
  then show ?thesis using rest finish_calibration_typed by (auto split: if_splits)
next
  case Run
  then obtain res out l f where
    run: "luminaire_loop (env_libm e) (rd_t1 rd) (rd_adc rd) (rd_adc2 rd) res (n_lum n) (n_lpf n) = Some (out, l, f)"
    and n': "n' = (case out of Some pwm \<Rightarrow> n_emit [AnalogWrite pwm] (n\<lparr>n_lum := l, n_lpf := f, didControl := True\<rparr>)
      | None \<Rightarrow> n\<lparr>n_lum := l, n_lpf := f\<rparr>)"
    using assms(1) by (auto simp: main_loop_def main_run_def bind_eq_Some_conv Let_def)
  have "node_typed (nodeId e) (n\<lparr>n_lum := l, n_lpf := f\<rparr>)" "node_typed (nodeId e) (n\<lparr>n_lum := l, n_lpf := f, didControl := True\<rparr>)"
    using luminaire_loop_typed [OF run] assms(2) by (simp_all add: node_typed_def)
  then show ?thesis unfolding n' by (simp add: n_emit_typed split: option.split)
qed

lemma frequent_typed: "sendFrequentData e n = Some n' \<Longrightarrow> node_typed (nodeId e) n \<Longrightarrow> node_typed (nodeId e) n'"
  by (auto simp: sendFrequentData_def bind_eq_Some_conv Let_def serial_bytes_def
      intro!: n_emit_typed sends_node_typed split: if_splits)

lemma after_control_typed: "after_control e rd n = Some n' \<Longrightarrow> node_typed (nodeId e) n \<Longrightarrow> node_typed (nodeId e) n'"
  by (auto simp: after_control_def bind_eq_Some_conv dest: frequent_typed split: if_splits)

lemma consensus_part_typed: "consensus_part e rd n = Some n' \<Longrightarrow> node_typed (nodeId e) n \<Longrightarrow> node_typed (nodeId e) n'"
  by (auto simp: consensus_part_def bind_eq_Some_conv node_typed_def dest: consensus_pass_typed)

lemma node_loop_typed:
  assumes "node_loop e bytes rs rc rds n = Some n'" "node_typed (nodeId e) n"
  shows "node_typed (nodeId e) n'"
proof -
  obtain n1 n2 n3 n4 n5 where
    1: "readSerial e rs bytes 0 n = Some n1" and 2: "receive_frames e rc n1 = Some n2" and
    3: "main_loop e (rds 1) (discovery_timer e (rd_millis (rds 0)) n2) = Some n3" and
    4: "after_control e (rds 2) n3 = Some n4" and 5: "consensus_part e (rds 3) n4 = Some n5" and
    n': "n' = n5\<lparr>didControl := False\<rparr>"
    using assms(1) by (auto simp: node_loop_def Let_def bind_eq_Some_conv)
  have "node_typed (nodeId e) n2" using serial_typed [OF 1 assms(2)] receive_frames_typed [OF 2] by blast
  then have "node_typed (nodeId e) n3" using discovery_typed main_loop_typed [OF 3] by blast
  then show ?thesis using after_control_typed [OF 4] consensus_part_typed [OF 5] by (simp add: n')
qed

lemma irq_typed: "node_typed (nodeId e) (irqHandler rx0 f0 rx1 f1 overflow n) = node_typed (nodeId e) n"
  by (simp add: irqHandler_def irq_buffer_def Let_def split: prod.splits)

lemma setup_typed:
  assumes "node_setup e ee node_boot = Some n"
  shows "node_typed (nodeId e) n"
proof -
  let ?b = "node_boot\<lparr>n_reg := (n_reg node_boot)\<lparr>numTotalNodes := 0\<rparr>\<rparr>"
  obtain n1 idx l where n1: "node_register e (nodeId e) ?b = Some n1"
    and idx: "aset (nodeIndexOnGainMatrix (n_reg n1)) 0 0 = Some idx"
    and n: "n = n1\<lparr>n_reg := (n_reg n1)\<lparr>nodeIndexOnGainMatrix := idx\<rparr>, n_lum := l\<rparr>"
    using assms by (auto simp: node_setup_def Let_def bind_eq_Some_conv)
  have "node_typed (nodeId e) ?b"
    by (simp add: node_typed_def node_boot_def registry_typed_def registry_boot_def calib_typed_def
        calibration_init_def matrix_shape_def list_all_length consensus_typed_def consensus_boot_def lpf_typed_def
        lpf_init_def LPF_TOTAL_SAMPLES_def io_typed_def io_boot_def frame_ok_def)
  then have "node_typed (nodeId e) n1" using node_register_typed [OF n1] by blast
  then show ?thesis using aset_length [OF idx] by (simp add: n node_typed_def registry_typed_def)
qed

lemma reachable_typed_aux:
  assumes "reachable e n"
  shows "node_typed (nodeId e) n"
  using assms
proof (induction rule: reachable.induct)
  case (reach_setup ee n)
  then show ?case by (rule setup_typed)
next
  case (reach_loop n bytes rs rc rds n')
  then show ?case using node_loop_typed by blast
next
  case (reach_irq n rx0 f0 rx1 f1 overflow)
  then show ?case by (simp add: irq_typed)
qed

text \<open>C7. Every state a node can reach is well typed, whatever frames, serial bytes, readings and interrupts
  come: the arrays of the registry, the calibration, the optimisation and the filter have their declared
  sizes, the next place of the filter is inside it, and every frame the node has put on the bus has eight
  data bytes, a length code of at most eight and an extended identifier with this node as its sender.\<close>

theorem reachable_typed:
  assumes "reachable e n"
  shows "node_typed (nodeId e) n"
  using assms by (rule reachable_typed_aux)

theorem reachable_typed_witness:
  "\<exists>n. node_setup env_example eeprom_example node_boot = Some n \<and>
     node_typed (nodeId env_example) (irqHandler True led_on_frame False led_on_frame False n)"
proof -
  obtain n where n: "node_setup env_example eeprom_example node_boot = Some n"
    using setup_example by blast
  have "reachable env_example (irqHandler True led_on_frame False led_on_frame False n)"
    by (intro reachable.reach_irq reachable.reach_setup [OF n])
  from reachable_typed [OF this] n show ?thesis by blast
qed

end
