(* ===== verification/Node_Bus.thy ===== *)
theory Node_Bus
  imports Mcp_Interrupt Node_Types
begin

text \<open>
  Two nodes on the bus: the messages of a running node (\<open>reachable\<close>) go through the driver of its chip,
  the bus and the interrupt handler into the receive queue of another running node.
\<close>

lemma typed_sent:
  assumes "reachable e n" "f \<in> set (sent_frames (log (n_io n)))"
  shows "frame_ok f" "can_dlc f \<le> 8" "id_sender (can_id f) = nodeId e" "wire_id (can_id f) = can_id f"
proof -
  have f: "frame_typed (nodeId e) f"
    using reachable_typed_aux [OF assms(1)] assms(2) by (simp add: node_typed_def io_typed_def list_all_iff)
  then obtain dest t where "can_id f = canMessageId (nodeId e) dest t" by (auto simp: frame_typed_def)
  then show "id_sender (can_id f) = nodeId e" "wire_id (can_id f) = can_id f"
    by (simp_all add: id_fields wire_id_message)
  show "frame_ok f" "can_dlc f \<le> 8" using f by (simp_all add: frame_typed_def)
qed

text \<open>C5. A message of a running node gets into the queue of another one unchanged. Whatever the two nodes
  have done before: if the first hands one of its frames to the driver while a transmit buffer is
  free, the frame is in a transmit buffer; and if the bus delivers that buffer into receive buffer 0 of
  another chip and the handler of that node runs while its queue has room, its queue has been extended by
  a frame with the same identifier (which names the first node as the sender), the same length and the
  same data.\<close>

theorem node_message_arrives:
  assumes "reachable e n" "f \<in> set (sent_frames (log (n_io n)))" "mcp_chip d regs us"
    and "tx_idle (regs c) free" "run_state (sendMessage d f) c = (sent, c1)"
  shows "id_sender (can_id f) = nodeId e \<and>
     (\<exists>b. holds_frame (regs c1) b f \<and>
      (\<forall>e' n' regs' us' d' ch frm rx0 f0 rx1 f1 ov ch'.
         reachable e' n' \<longrightarrow> length (stream_contents (cf_stream n')) < buffsize \<longrightarrow>
         mcp_chip d' (regs' :: 'd \<Rightarrow> regfile) us' \<longrightarrow> delivered (regs c1) b (regs' ch) RXB0 \<longrightarrow>
         run_state (irq_device d' frm) ch = ((rx0, f0, rx1, f1, ov), ch') \<longrightarrow>
         (\<exists>g rest. stream_contents (cf_stream (irqHandler rx0 f0 rx1 f1 ov n')) =
              stream_contents (cf_stream n') @ g # rest \<and>
            can_id g = can_id f \<and> can_dlc g = can_dlc f \<and>
            take (unat (can_dlc f)) (can_data g) = take (unat (can_dlc f)) (can_data f))))"
proof -
  note typed = typed_sent [OF assms(1,2)]
  obtain b where held: "holds_frame (regs c1) b f"
    using sendMessage_outcome_aux [OF assms(3) typed(1) assms(5)] typed(2) assms(4)
    by (auto simp: not_less split: if_splits)
  have len: "length (take (unat (can_dlc f)) (can_data f)) = unat (can_dlc f)"
    using typed(1,2) by (simp add: frame_ok_def word_le_nat_alt)
  have queue: "\<exists>g rest. stream_contents (cf_stream (irqHandler rx0 f0 rx1 f1 ov n')) =
        stream_contents (cf_stream n') @ g # rest \<and> can_id g = can_id f \<and> can_dlc g = can_dlc f \<and>
        take (unat (can_dlc f)) (can_data g) = take (unat (can_dlc f)) (can_data f)"
    if "reachable e' n'" "length (stream_contents (cf_stream n')) < buffsize" "mcp_chip d' (regs' :: 'd \<Rightarrow> regfile) us'"
      "delivered (regs c1) b (regs' ch) RXB0" "run_state (irq_device d' frm) ch = ((rx0, f0, rx1, f1, ov), ch')"
    for e' n' regs' us' d' ch frm rx0 f0 rx1 f1 ov ch'
  proof -
    have "stream_ok (cf_stream n')" using reachable_ok [OF that(1)] by simp
    from held_frame_queued [OF that(3) held typed(1,2) that(4,5) this that(2)] show ?thesis
      unfolding typed(4) using len by (fastforce simp: take_append)
  qed
  show ?thesis using typed(3) held queue by blast
qed

text \<open>A node two seconds after its setup sends its wake-up broadcast.\<close>

definition rd_late :: readings where
  "rd_late = rd_example\<lparr>rd_t0 := 2000001\<rparr>"

lemma wakeup_sent:
  assumes "node_setup env_example eeprom_example node_boot = Some n"
  shows "\<exists>n'. node_loop env_example [] (\<lambda>_. rd_late) (\<lambda>_. rd_late) (\<lambda>_. rd_late) n = Some n' \<and>
    sent_frames (log (n_io n')) \<noteq> []"
proof -
  have boot: "interrupt n = False" "main_state (n_main n) = Init" "main_lastTransitionTime (n_main n) = 0"
    "consensusState (n_cons n) = OFF_STATE" "didControl n = False" "timeLastPCDiscovery n = 0"
    using assms
    by (auto simp: node_setup_def node_register_def node_boot_def bind_eq_Some_conv Let_def n_emit_def
        mainfsm_boot_def consensus_boot_def split: if_splits)
  then show ?thesis
    by (simp add: node_loop_def receive_frames_def discovery_timer_def rd_late_def rd_example_def main_loop_def
        main_runStateInit_def after_control_def consensus_part_def consensus_pass_def Let_def word_less_nat_alt
        sendBroadcastWakeup_def)
qed

theorem node_message_arrives_witness:
  "\<exists>n f sent c1. reachable env_example n \<and> f \<in> set (sent_frames (log (n_io n))) \<and>
     run_state (sendMessage mem_spi f) mem_boot = (sent, c1) \<and>
     (\<exists>b. holds_frame (m_regs c1) b f) \<and> id_sender (can_id f) = 2"
proof -
  obtain n where n: "node_setup env_example eeprom_example node_boot = Some n" using setup_example by blast
  obtain n' where n': "node_loop env_example [] (\<lambda>_. rd_late) (\<lambda>_. rd_late) (\<lambda>_. rd_late) n = Some n'"
    and "sent_frames (log (n_io n')) \<noteq> []" using wakeup_sent [OF n] by blast
  then obtain f where f: "f \<in> set (sent_frames (log (n_io n')))" by fastforce
  have r: "reachable env_example n'" by (rule reachable.reach_loop [OF reachable.reach_setup [OF n] n'])
  obtain sent c1 where s: "run_state (sendMessage mem_spi f) mem_boot = (sent, c1)" by (metis surj_pair)
  have idle: "tx_idle (m_regs mem_boot) TXB0"
    by (simp add: tx_idle_def mem_boot_def m_default_def TXB_def register_defs)
  have "(\<exists>b. holds_frame (m_regs c1) b f) \<and> id_sender (can_id f) = 2"
    using node_message_arrives [OF r f mem_is_chip idle s] by (auto simp: env_example_def)
  then show ?thesis using r f s by blast
qed

end
