(* ===== verification/Pc_Text.thy ===== *)
theory Pc_Text
  imports Wire "HOL-Library.Option_ord"
begin

text \<open>
  What the PC program takes from the C++ library: \<open>std::map\<close> as an association list in key order (its
  iteration order), text output as the list of items written to a stream, and \<open>std::stoi\<close>,
  \<open>std::to_string\<close>, \<open>find\<close>, \<open>rfind\<close> and \<open>substr\<close> on strings. \<open>std::stof\<close> is a parameter of the parser.
\<close>

subsection \<open>\<open>std::map\<close>\<close>

definition map_put :: "'k::linorder \<Rightarrow> 'v \<Rightarrow> ('k \<times> 'v) list \<Rightarrow> ('k \<times> 'v) list" where
  "map_put k v m =
     takeWhile (\<lambda>p. fst p < k) m @ (k, v) # filter (\<lambda>p. k < fst p) (dropWhile (\<lambda>p. fst p < k) m)"

definition map_erase :: "'k::linorder \<Rightarrow> ('k \<times> 'v) list \<Rightarrow> ('k \<times> 'v) list" where
  "map_erase k m = filter (\<lambda>p. fst p \<noteq> k) m"

text \<open>\<open>m[k]\<close> for reading: a missing key is inserted with the default value.\<close>

definition map_at :: "'v \<Rightarrow> ('k \<times> 'v) list \<Rightarrow> 'k \<Rightarrow> 'v" where
  "map_at d m k = (case map_of m k of Some v \<Rightarrow> v | None \<Rightarrow> d)"

definition map_touch :: "'v \<Rightarrow> 'k::linorder \<Rightarrow> ('k \<times> 'v) list \<Rightarrow> ('k \<times> 'v) list" where
  "map_touch d k m = (case map_of m k of Some v \<Rightarrow> m | None \<Rightarrow> map_put k d m)"

definition map_sorted :: "('k::linorder \<times> 'v) list \<Rightarrow> bool" where
  "map_sorted m \<longleftrightarrow> sorted_wrt (\<lambda>p q. fst p < fst q) m"

text \<open>The contract of an ordered dictionary, as the clients below rely on it.\<close>

locale ordered_dictionary =
  fixes put :: "'k::linorder \<Rightarrow> 'v \<Rightarrow> 'm \<Rightarrow> 'm"
    and erase :: "'k \<Rightarrow> 'm \<Rightarrow> 'm"
    and look :: "'m \<Rightarrow> 'k \<Rightarrow> 'v option"
    and invar :: "'m \<Rightarrow> bool"
  assumes put_invar: "invar m \<Longrightarrow> invar (put k v m)"
    and erase_invar: "invar m \<Longrightarrow> invar (erase k m)"
    and look_put: "invar m \<Longrightarrow> look (put k v m) x = (if x = k then Some v else look m x)"
    and look_erase: "look (erase k m) x = (if x = k then None else look m x)"
begin

lemma put_put_look: "invar m \<Longrightarrow> look (put k v (put k w m)) x = look (put k v m) x"
  by (simp add: look_put put_invar)

lemma erase_put_look: "invar m \<Longrightarrow> look (erase k (put k v m)) x = look (erase k m) x"
  by (simp add: look_put look_erase)

text \<open>Updates at different keys commute.\<close>

lemma put_commute:
  "invar m \<Longrightarrow> k \<noteq> l \<Longrightarrow> look (put k v (put l w m)) x = look (put l w (put k v m)) x"
  by (simp add: look_put put_invar)

end

lemma map_of_filter_key: "map_of (filter (\<lambda>p. P (fst p)) m) x = (if P x then map_of m x else None)"
  by (induction m) auto

lemma sorted_takeWhile_less:
  "map_sorted m \<Longrightarrow> takeWhile (\<lambda>p. fst p < k) m = filter (\<lambda>p. fst p < k) m"
  by (induction m) (force simp: map_sorted_def intro!: filter_False [symmetric])+

lemma sorted_dropWhile_less:
  "map_sorted m \<Longrightarrow> filter (\<lambda>p. k < fst p) (dropWhile (\<lambda>p. fst p < k) m) = filter (\<lambda>p. k < fst p) m"
  by (induction m) (auto simp: map_sorted_def)

lemma map_put_filter:
  "map_sorted m \<Longrightarrow> map_put k v m = filter (\<lambda>p. fst p < k) m @ (k, v) # filter (\<lambda>p. k < fst p) m"
  by (simp add: map_put_def sorted_takeWhile_less sorted_dropWhile_less)

interpretation std_map: ordered_dictionary map_put map_erase map_of map_sorted
proof unfold_locales
  fix m :: "('a \<times> 'b) list" and k x :: 'a and v :: 'b
  assume m: "map_sorted m"
  then have parts: "sorted_wrt (\<lambda>p q. fst p < fst q) (filter P m)" for P
    unfolding map_sorted_def by (rule sorted_wrt_filter)
  show "map_sorted (map_put k v m)"
    using parts unfolding map_put_filter [OF m]
    by (auto simp: map_sorted_def sorted_wrt_append intro: less_trans)
  show "map_sorted (map_erase k m)"
    using parts by (simp add: map_sorted_def map_erase_def)
  show "map_of (map_put k v m) x = (if x = k then Some v else map_of m x)"
    unfolding map_put_filter [OF m]
    by (auto simp: map_add_def map_of_filter_key [of "\<lambda>y. y < k"] map_of_filter_key [of "\<lambda>y. k < y"]
        split: option.splits)
next
  fix m :: "('a \<times> 'b) list" and k x :: 'a
  show "map_of (map_erase k m) x = (if x = k then None else map_of m x)"
    using map_of_filter_key [of "\<lambda>y. y \<noteq> k" m x] by (simp add: map_erase_def)
qed

lemma map_sorted_Nil [simp]: "map_sorted []"
  by (simp add: map_sorted_def)

lemma map_at_put: "map_sorted m \<Longrightarrow> map_at d (map_put k v m) x = (if x = k then v else map_at d m x)"
  by (simp add: map_at_def std_map.look_put)

lemma map_at_cases: "map_at d m k = d \<or> (k, map_at d m k) \<in> set m"
  by (auto simp: map_at_def dest: map_of_SomeD split: option.split)

lemma map_at_touch: "map_sorted m \<Longrightarrow> map_at d (map_touch d k m) x = map_at d m x"
  by (auto simp: map_at_def map_touch_def std_map.look_put split: option.splits)

lemma map_touch_sorted: "map_sorted m \<Longrightarrow> map_sorted (map_touch d k m)"
  by (simp add: map_touch_def std_map.put_invar split: option.splits)

subsection \<open>Text output\<close>

text \<open>The items inserted into a stream with \<open><<\<close>; the digits of a float are left to the library.\<close>

datatype item = Str string | Chr u8 | Num int | Flo f32 | Endl

type_synonym text_out = "item list"

subsection \<open>Strings\<close>

text \<open>\<open>std::to_string\<close> of an integer.\<close>

fun digits :: "nat \<Rightarrow> string" where
  "digits n = (if n < 10 then [char_of (48 + n)] else digits (n div 10) @ [char_of (48 + n mod 10)])"

declare digits.simps [simp del]

definition to_string :: "int \<Rightarrow> string" where
  "to_string i = (if i < 0 then CHR ''-'' # digits (nat (- i)) else digits (nat i))"

definition is_digit :: "char \<Rightarrow> bool" where
  "is_digit c \<longleftrightarrow> 48 \<le> (of_char c :: nat) \<and> (of_char c :: nat) \<le> 57"

definition is_space :: "char \<Rightarrow> bool" where
  "is_space c \<longleftrightarrow> (of_char c :: nat) = 32 \<or> (9 \<le> (of_char c :: nat) \<and> (of_char c :: nat) \<le> 13)"

definition digits_value :: "string \<Rightarrow> nat" where
  "digits_value s = fold (\<lambda>c n. 10 * n + ((of_char c :: nat) - 48)) s 0"

text \<open>
  \<open>std::stoi\<close> (base 10): leading white space, an optional sign and digits; what follows is ignored.
  \<open>None\<close> is its exception, for a text without digits or a value outside a 32 bit \<open>int\<close>.
\<close>

definition stoi :: "string \<Rightarrow> int option" where
  "stoi s =
     (let s = dropWhile is_space s;
          (neg, s) = (case s of c # r \<Rightarrow> if c = CHR ''-'' then (True, r) else if c = CHR ''+'' then (False, r)
                        else (False, s) | [] \<Rightarrow> (False, s));
          ds = takeWhile is_digit s;
          v = (if neg then - int (digits_value ds) else int (digits_value ds))
      in if ds = [] \<or> \<not> in_i32 v then None else Some v)"

text \<open>\<open>substr(pos, n)\<close> for \<open>pos\<close> within the string, \<open>find(c, pos)\<close> and \<open>rfind(prefix, 0) == 0\<close>.\<close>

definition substr :: "nat \<Rightarrow> nat \<Rightarrow> 'a list \<Rightarrow> 'a list" where
  "substr pos n s = take n (drop pos s)"

definition find_from :: "'a \<Rightarrow> nat \<Rightarrow> 'a list \<Rightarrow> nat option" where
  "find_from c pos s =
     (let k = length (takeWhile (\<lambda>x. x \<noteq> c) (drop pos s))
      in if pos + k < length s then Some (pos + k) else None)"

definition starts_with :: "string \<Rightarrow> string \<Rightarrow> bool" where
  "starts_with p s \<longleftrightarrow> take (length p) s = p"

lemma digit_char: "n < 10 \<Longrightarrow> of_char (char_of (48 + n) :: char) = (48 + n :: nat)"
  by (simp add: of_char_of)

lemma digits_all: "list_all is_digit (digits n)"
proof (induction n rule: digits.induct)
  case (1 n)
  have "is_digit (char_of (48 + k))" if "k < 10" for k :: nat
    using that by (simp add: is_digit_def digit_char)
  then show ?case using 1 by (subst digits.simps) simp
qed

lemma digits_not_Nil: "digits n \<noteq> []"
  by (subst digits.simps) simp

lemma digits_value_append:
  "digits_value (s @ [c]) = 10 * digits_value s + ((of_char c :: nat) - 48)"
  by (simp add: digits_value_def)

lemma digits_value_digits: "digits_value (digits n) = n"
proof (induction n rule: digits.induct)
  case (1 n)
  show ?case
  proof (cases "n < 10")
    case True
    then show ?thesis by (subst digits.simps) (simp add: digits_value_def digit_char)
  next
    case False
    then have "digits n = digits (n div 10) @ [char_of (48 + n mod 10)]" by (subst digits.simps) simp
    then show ?thesis using 1 [OF False] digit_char [of "n mod 10"] by (simp add: digits_value_append)
  qed
qed

text \<open>Reading back a number followed by anything that is not a digit.\<close>

lemma stoi_digits:
  assumes "n \<le> 2147483647" "r = [] \<or> \<not> is_digit (hd r)"
  shows "stoi (digits n @ r) = Some (int n)"
proof -
  obtain d ds where ds: "digits n = d # ds" using digits_not_Nil by (metis list.exhaust)
  have dig: "is_digit d" using digits_all [of n] ds by simp
  then have "\<not> is_space d" "d \<noteq> CHR ''-''" "d \<noteq> CHR ''+''"
    by (auto simp: is_digit_def is_space_def)
  moreover have "takeWhile is_digit (digits n @ r) = digits n"
    using assms(2) digits_all [of n]
    by (cases r) (auto simp: takeWhile_append2 list_all_iff)
  ultimately show ?thesis
    using assms(1) digits_value_digits [of n] ds by (simp add: stoi_def Let_def in_i32_def)
qed

lemma stoi_space: "is_space c \<Longrightarrow> stoi (c # s) = stoi s"
  by (simp add: stoi_def)

end
