(* ===== verification/Pc_Buffer.thy ===== *)
theory Pc_Buffer
  imports Pc_Text
begin

text \<open>
  The last-minute buffer of the PC program (\<open>LastMinuteBuffer.cpp\<close>): for each node a map from the
  second to the values received in it. \<open>time(0)\<close> is an argument of the operations. The member
  \<open>lastTimeAddedEntry\<close> is not initialised by the source, so its first value is arbitrary.
\<close>

record freq_values =
  fv_pwm :: u8
  fv_iluminance :: f32

record minute_buffer =
  lastTimeAddedEntry :: int
  lastMinuteBuffer :: "(u8 \<times> (int \<times> freq_values list) list) list"

text \<open>The \<open>while\<close> loop over the entries of a node: erase from the front until one is recent enough.\<close>

fun erase_old :: "int \<Rightarrow> (int \<times> 'v) list \<Rightarrow> (int \<times> 'v) list" where
  "erase_old threshold [] = []"
| "erase_old threshold (item # items) =
     (if fst item < threshold then erase_old threshold items else item # items)"

definition removeOldLastMinuteBufferEntries :: "int \<Rightarrow> minute_buffer \<Rightarrow> minute_buffer" where
  "removeOldLastMinuteBufferEntries now b =
     b\<lparr>lastMinuteBuffer := map (\<lambda>(node, items). (node, erase_old (now - 60) items)) (lastMinuteBuffer b)\<rparr>"

text \<open>The clock is read again for the removal: \<open>now\<close> and \<open>now'\<close> are the two readings.\<close>

definition addToLastMinuteBuffer :: "int \<Rightarrow> int \<Rightarrow> u8 \<Rightarrow> freq_values \<Rightarrow> minute_buffer \<Rightarrow> minute_buffer" where
  "addToLastMinuteBuffer now now' node v b =
     (let b = (if now \<noteq> lastTimeAddedEntry b then removeOldLastMinuteBufferEntries now' b else b);
          b = b\<lparr>lastTimeAddedEntry := now\<rparr>;
          items = map_at [] (lastMinuteBuffer b) node
      in b\<lparr>lastMinuteBuffer :=
           map_put node (map_put now (map_at [] items now @ [v]) items) (lastMinuteBuffer b)\<rparr>)"

definition print_value :: "bool \<Rightarrow> freq_values \<Rightarrow> text_out" where
  "print_value duty v =
     (if duty then [Num (uint (fv_pwm v) * 100 div 255), Str ''%''] else [Flo (fv_iluminance v)])
       @ [Str '','', Endl]"

text \<open>The header goes to \<open>cout\<close>, the entries to the stream given: the pair of the two texts.\<close>

definition printLastMinuteBuffer :: "u8 \<Rightarrow> bool \<Rightarrow> minute_buffer \<Rightarrow> text_out \<times> text_out" where
  "printLastMinuteBuffer node duty b =
     ([Str ''b '', Str (if duty then ''d'' else ''I''), Str '' '', Num (uint node), Endl],
      case map_of (lastMinuteBuffer b) node of
        None \<Rightarrow> []
      | Some items \<Rightarrow> concat (map (\<lambda>(t, vs). concat (map (print_value duty) vs)) items))"

subsection \<open>The abstract buffer: what was received in the last minute\<close>

text \<open>The timed values of a node, in the order of the buffer.\<close>

definition timed :: "(int \<times> 'v list) list \<Rightarrow> (int \<times> 'v) list" where
  "timed items = concat (map (\<lambda>(t, vs). map (Pair t) vs) items)"

definition node_entries :: "u8 \<Rightarrow> minute_buffer \<Rightarrow> (int \<times> freq_values) list" where
  "node_entries node b = timed (map_at [] (lastMinuteBuffer b) node)"

definition buffer_ok :: "minute_buffer \<Rightarrow> bool" where
  "buffer_ok b \<longleftrightarrow> map_sorted (lastMinuteBuffer b) \<and>
     list_all (\<lambda>(node, items). map_sorted items \<and> list_all (\<lambda>(t, vs). t \<le> lastTimeAddedEntry b) items)
       (lastMinuteBuffer b)"

definition buffer_start :: "int \<Rightarrow> minute_buffer" where
  "buffer_start t0 = \<lparr>lastTimeAddedEntry = t0, lastMinuteBuffer = []\<rparr>"

lemma erase_old_filter: "map_sorted items \<Longrightarrow> erase_old t items = filter (\<lambda>p. t \<le> fst p) items"
  by (induction t items rule: erase_old.induct)
    (force simp: map_sorted_def intro!: filter_True [symmetric])+

lemma timed_simps [simp]:
  "timed [] = []" "timed (a @ b) = timed a @ timed b" "timed ((t, vs) # r) = map (Pair t) vs @ timed r"
  by (simp_all add: timed_def)

lemma timed_filter: "timed (filter (\<lambda>p. P (fst p)) items) = filter (\<lambda>p. P (fst p)) (timed items)"
  by (induction items) (auto simp: o_def)

lemma map_of_map_values:
  "map_of (map (\<lambda>(k, v). (k, f v)) m) x = map_option f (map_of m x)"
  by (induction m) auto

text \<open>Appending at the largest time.\<close>

lemma filter_None: "(\<And>x. x \<in> set xs \<Longrightarrow> \<not> P x) \<Longrightarrow> filter P xs = []"
  by (simp add: filter_empty_conv)

lemma timed_put_last:
  assumes "map_sorted items" "list_all (\<lambda>(t, vs). t \<le> now) items"
  shows "timed (map_put now (map_at [] items now @ [v]) items) = timed items @ [(now, v)]"
  using assms
proof (induction items)
  case Nil
  then show ?case by (simp add: map_put_def map_at_def)
next
  case (Cons p items)
  have sorted: "map_sorted items" using Cons.prems(1) by (simp add: map_sorted_def)
  show ?case
  proof (cases "fst p = now")
    case True
    then have "items = []" using Cons.prems by (cases items) (auto simp: map_sorted_def)
    then show ?thesis using True by (cases p) (simp add: map_put_def map_at_def)
  next
    case False
    then have "fst p < now" using Cons.prems(2) by (cases p) auto
    then show ?thesis using Cons.IH [OF sorted] Cons.prems(2) False
      by (cases p) (simp add: map_put_def map_at_def)
  qed
qed

lemma buffer_ok_node:
  assumes "buffer_ok b"
  shows "map_sorted (map_at [] (lastMinuteBuffer b) node)"
    and "list_all (\<lambda>(t, vs). t \<le> lastTimeAddedEntry b) (map_at [] (lastMinuteBuffer b) node)"
  using assms map_at_cases [of "[]" "lastMinuteBuffer b" node]
  by (auto simp: buffer_ok_def list_all_iff)

lemma buffer_start_ok: "buffer_ok (buffer_start t0)"
  by (simp add: buffer_ok_def buffer_start_def)

lemma remove_entries:
  assumes "buffer_ok b"
  shows "node_entries node (removeOldLastMinuteBufferEntries now b)
     = filter (\<lambda>p. now - 60 \<le> fst p) (node_entries node b)"
  using buffer_ok_node(1) [OF assms, of node]
  by (simp add: node_entries_def removeOldLastMinuteBufferEntries_def map_at_def map_of_map_values
      erase_old_filter timed_filter split: option.splits)

lemma map_values_sorted: "map_sorted (map (\<lambda>(k, v). (k, f v)) m) \<longleftrightarrow> map_sorted m"
  by (induction m) (auto simp: map_sorted_def)

lemma map_sorted_filter: "map_sorted m \<Longrightarrow> map_sorted (filter P m)"
  by (simp add: map_sorted_def sorted_wrt_filter)

lemma remove_ok: "buffer_ok b \<Longrightarrow> buffer_ok (removeOldLastMinuteBufferEntries now b)"
  using map_values_sorted [of "erase_old (now - 60)" "lastMinuteBuffer b"]
  by (fastforce simp: buffer_ok_def removeOldLastMinuteBufferEntries_def list_all_iff erase_old_filter
      map_sorted_filter)

lemma set_map_put: "set (map_put k v m) \<subseteq> insert (k, v) (set m)"
  by (auto simp: map_put_def dest: set_takeWhileD set_dropWhileD)

text \<open>One call, when the clock does not run backwards.\<close>

lemma add_entries:
  assumes ok: "buffer_ok b" and clock: "lastMinuteBuffer b \<noteq> [] \<longrightarrow> lastTimeAddedEntry b \<le> now"
  shows "buffer_ok (addToLastMinuteBuffer now now' node v b)"
    and "node_entries x (addToLastMinuteBuffer now now' node v b)
       = (if now \<noteq> lastTimeAddedEntry b then filter (\<lambda>p. now' - 60 \<le> fst p) (node_entries x b)
          else node_entries x b) @ (if x = node then [(now, v)] else [])"
proof -
  define b' where "b' = (if now \<noteq> lastTimeAddedEntry b then removeOldLastMinuteBufferEntries now' b else b)"
  define items where "items = map_at [] (lastMinuteBuffer b') node"
  have ok': "buffer_ok b'" using ok by (simp add: b'_def remove_ok)
  have last': "lastTimeAddedEntry b' = lastTimeAddedEntry b"
    by (simp add: b'_def removeOldLastMinuteBufferEntries_def)
  have empty: "lastMinuteBuffer b' = [] \<longleftrightarrow> lastMinuteBuffer b = []"
    by (simp add: b'_def removeOldLastMinuteBufferEntries_def)
  have le: "list_all (\<lambda>(t, vs). t \<le> now) its" if "(k, its) \<in> set (lastMinuteBuffer b')" for k its
    using that ok' clock empty unfolding buffer_ok_def last' list_all_iff by fastforce
  have items: "map_sorted items" "list_all (\<lambda>(t, vs). t \<le> now) items"
    using buffer_ok_node(1) [OF ok'] le map_at_cases [of "[]" "lastMinuteBuffer b'" node]
    by (auto simp: items_def)
  have add: "addToLastMinuteBuffer now now' node v b = b'\<lparr>lastTimeAddedEntry := now, lastMinuteBuffer :=
      map_put node (map_put now (map_at [] items now @ [v]) items) (lastMinuteBuffer b')\<rparr>"
    by (simp add: addToLastMinuteBuffer_def Let_def b'_def items_def)
  have sorted: "map_sorted (lastMinuteBuffer b')" using ok' by (simp add: buffer_ok_def)
  have new: "map_sorted (map_put now w items)" "list_all (\<lambda>(t, vs). t \<le> now) (map_put now w items)" for w
    using std_map.put_invar [OF items(1)] items(2) set_map_put [of now w items]
    by (auto simp: list_all_iff)
  show "buffer_ok (addToLastMinuteBuffer now now' node v b)"
    unfolding buffer_ok_def add list_all_iff
    using std_map.put_invar [OF sorted] set_map_put [of node _ "lastMinuteBuffer b'"] new le ok'
    by (fastforce simp: buffer_ok_def list_all_iff)
  have "node_entries x (addToLastMinuteBuffer now now' node v b)
      = node_entries x b' @ (if x = node then [(now, v)] else [])"
    using timed_put_last [OF items] sorted
    by (simp add: add node_entries_def map_at_put items_def)
  then show "node_entries x (addToLastMinuteBuffer now now' node v b)
       = (if now \<noteq> lastTimeAddedEntry b then filter (\<lambda>p. now' - 60 \<le> fst p) (node_entries x b)
          else node_entries x b) @ (if x = node then [(now, v)] else [])"
    using remove_entries [OF ok] by (simp add: b'_def)
qed

text \<open>A history of calls, each at its second, and the values of one node in it.\<close>

definition add_all :: "(int \<times> u8 \<times> freq_values) list \<Rightarrow> minute_buffer \<Rightarrow> minute_buffer" where
  "add_all h b = fold (\<lambda>(t, node, v). addToLastMinuteBuffer t t node v) h b"

definition history_of :: "u8 \<Rightarrow> (int \<times> u8 \<times> freq_values) list \<Rightarrow> (int \<times> freq_values) list" where
  "history_of node h = map (\<lambda>(t, _, v). (t, v)) (filter (\<lambda>(_, k, _). k = node) h)"

lemma print_entries:
  "snd (printLastMinuteBuffer node duty b) = concat (map (\<lambda>(t, v). print_value duty v) (node_entries node b))"
proof -
  have "concat (map (\<lambda>(t, vs). concat (map (print_value duty) vs)) items)
      = concat (map (\<lambda>(t, v). print_value duty v) (timed items))" for items
    by (induction items) (auto simp: o_def)
  then show ?thesis
    by (simp add: printLastMinuteBuffer_def node_entries_def map_at_def split: option.split)
qed

lemma add_all_last: "h \<noteq> [] \<Longrightarrow> lastTimeAddedEntry (add_all h b) = fst (last h)"
  by (cases h rule: rev_cases) (auto simp: add_all_def addToLastMinuteBuffer_def Let_def)

lemma add_all_entries:
  assumes "sorted (map fst h)"
  shows "buffer_ok (add_all h (buffer_start t0)) \<and>
     (h \<noteq> [] \<longrightarrow> node_entries x (add_all h (buffer_start t0))
       = filter (\<lambda>p. fst (last h) - 60 \<le> fst p) (history_of x h))"
  using assms
proof (induction h rule: rev_induct)
  case Nil
  then show ?case by (simp add: add_all_def buffer_start_ok)
next
  case (snoc c h)
  obtain t node v where c: "c = (t, node, v)" by (cases c)
  let ?b = "add_all h (buffer_start t0)"
  have IH: "buffer_ok ?b" "h \<noteq> [] \<Longrightarrow> node_entries x ?b
      = filter (\<lambda>p. fst (last h) - 60 \<le> fst p) (history_of x h)"
    using snoc by (auto simp: sorted_append)
  have step: "add_all (h @ [c]) (buffer_start t0) = addToLastMinuteBuffer t t node v ?b"
    by (simp add: add_all_def c)
  have order: "fst (last h) \<le> t" if "h \<noteq> []"
    using snoc.prems last_in_set [OF that] by (auto simp: sorted_append c)
  have clock: "lastMinuteBuffer ?b \<noteq> [] \<longrightarrow> lastTimeAddedEntry ?b \<le> t"
    using order add_all_last [of h] by (cases "h = []") (auto simp: add_all_def buffer_start_def)
  have "node_entries x (addToLastMinuteBuffer t t node v ?b)
      = filter (\<lambda>p. t - 60 \<le> fst p) (history_of x (h @ [c]))"
  proof (cases "h = []")
    case True
    then show ?thesis using add_entries(2) [OF IH(1) clock, of x t node v]
      by (auto simp: history_of_def c add_all_def buffer_start_def node_entries_def map_at_def)
  next
    case False
    have "filter (\<lambda>p. t - 60 \<le> fst p) (filter (\<lambda>p. fst (last h) - 60 \<le> fst p) (history_of x h))
        = filter (\<lambda>p. t - 60 \<le> fst p) (history_of x h)"
      using order [OF False] by (auto intro!: filter_cong)
    then show ?thesis
      using add_entries(2) [OF IH(1) clock, of x t node v] IH(2) [OF False] add_all_last [OF False]
      by (auto simp: history_of_def c)
  qed
  then show ?case using add_entries(1) [OF IH(1) clock] by (simp add: step [unfolded c] c)
qed

text \<open>C19. The buffer is what its name says: after any sequence of additions with a clock that does not run
  backwards, and whatever the uninitialised time of the last entry was, printing a node gives exactly
  its values of the last sixty seconds before the last addition, in the order they came.\<close>

theorem buffer_holds_last_minute:
  assumes "sorted (map fst h)" "h \<noteq> []"
  shows "snd (printLastMinuteBuffer node duty (add_all h (buffer_start t0))) =
     concat (map (\<lambda>(t, v). print_value duty v)
       (filter (\<lambda>p. fst (last h) - 60 \<le> fst p) (history_of node h)))"
  using add_all_entries [OF assms(1)] assms(2) by (simp add: print_entries)

definition reading_example :: "u8 \<Rightarrow> freq_values" where
  "reading_example d = \<lparr>fv_pwm = d, fv_iluminance = f_int 20\<rparr>"

theorem buffer_holds_last_minute_witness:
  "snd (printLastMinuteBuffer 2 True
     (add_all [(100, 2, reading_example 51), (101, 3, reading_example 0), (130, 2, reading_example 255),
        (161, 2, reading_example 102)] (buffer_start 0)))
   = [Num 100, Str ''%'', Str '','', Endl, Num 40, Str ''%'', Str '','', Endl]"
  using buffer_holds_last_minute [of "[(100, 2, reading_example 51), (101, 3, reading_example 0),
      (130, 2, reading_example 255), (161, 2, reading_example 102)]" 2 True 0]
  by (simp add: history_of_def print_value_def reading_example_def)

end
