(* ===== verification/Pc_Server.thy ===== *)
theory Pc_Server
  imports Pc_Buffer
begin

text \<open>
  The server of the PC program (\<open>Server.cpp\<close>, \<open>ServerConnection.cpp\<close>): the messages of the hub on the
  serial port, the queue of commands with its timeout, the sessions of the clients, streaming and the
  recording of values. A client is its session object, numbered in the order of the pointers (the
  order of \<open>std::map\<close>); \<^term>\<open>None\<close> is the null pointer, the console of the server. Each
  handler runs as one step: its accesses are under the mutexes of the source. Undefined behaviour
  (\<open>pop\<close> of an empty queue, \<open>erase(end())\<close>) is \<^term>\<open>None\<close>.
\<close>

type_synonym client = "nat option"

datatype pc_effect =
    SerialOut "u8 list" \<comment> \<open>\<open>writeToSerialPort\<close>\<close>
  | ConsoleText text_out
  | ClientText nat text_out \<comment> \<open>\<open>sendMessage\<close>\<close>
  | FileText text_out
  | FileClose

record server =
  srv_nodeIds :: "int list"
  commandsQueue :: "(command \<times> client) list"
  clientSessions :: "nat list"
  activeStreams :: "(u8 \<times> (client \<times> bool \<times> bool) list) list" \<comment> \<open>duty cycle, illuminance\<close>
  srv_minute :: minute_buffer
  writingToFile :: bool
  fileName :: string
  millisFileWritingStated :: int
  timer_waiting :: bool \<comment> \<open>an \<open>async_wait\<close> is pending on \<open>timerCommandTimeout\<close>\<close>
  timeouts_queued :: nat \<comment> \<open>expired waits whose handler has not run yet\<close>
  expectedNumberOfResetACK :: int
  numberOfResetACKReceived :: int
  unfinishedSerialString :: "u8 list"
  srv_log :: "pc_effect list"

definition server_boot :: "int \<Rightarrow> int \<Rightarrow> server" where
  "server_boot last_entry file_started =
     \<lparr>srv_nodeIds = [], commandsQueue = [], clientSessions = [], activeStreams = [],
      srv_minute = buffer_start last_entry, writingToFile = False, fileName = '''',
      millisFileWritingStated = file_started, timer_waiting = False, timeouts_queued = 0,
      expectedNumberOfResetACK = 0, numberOfResetACKReceived = 0, unfinishedSerialString = [],
      srv_log = []\<rparr>"

definition s_emit :: "pc_effect list \<Rightarrow> server \<Rightarrow> server" where
  "s_emit es st = st\<lparr>srv_log := srv_log st @ es\<rparr>"

text \<open>Text for the sender of a command: the console or the client.\<close>

definition s_reply :: "client \<Rightarrow> text_out \<Rightarrow> server \<Rightarrow> server" where
  "s_reply cl t = s_emit [case cl of None \<Rightarrow> ConsoleText t | Some k \<Rightarrow> ClientText k t]"

definition is_chr :: "u8 \<Rightarrow> char \<Rightarrow> bool" where
  "is_chr b c \<longleftrightarrow> b = char_code c"

subsection \<open>The command queue\<close>

definition command_bytes :: "command \<Rightarrow> u8 list" where
  "command_bytes c = 255 # toByteArray c"

definition start_timer :: "server \<Rightarrow> server" where
  "start_timer st = st\<lparr>timer_waiting := True\<rparr>"

function executeNextInCommandQueue :: "server \<Rightarrow> server" where
  "executeNextInCommandQueue st =
     (case commandsQueue st of
        [] \<Rightarrow> st
      | (c, cl) # q \<Rightarrow>
          (let clientNoLongerConnected = (case cl of None \<Rightarrow> True | Some k \<Rightarrow> k \<notin> set (clientSessions st));
               isServer = (cl = None)
           in if clientNoLongerConnected \<and> \<not> isServer
              then executeNextInCommandQueue (st\<lparr>commandsQueue := q\<rparr>)
              else
                let st = (if is_chr (cmd c) CHR ''r''
                          then st\<lparr>numberOfResetACKReceived := 0,
                                  expectedNumberOfResetACK := int (length (srv_nodeIds st))\<rparr>
                          else st)
                in start_timer (s_emit [SerialOut (command_bytes c)] st)))"
  by pat_completeness auto
termination by (relation "measure (\<lambda>st. length (commandsQueue st))") auto

declare executeNextInCommandQueue.simps [simp del]

text \<open>The three cases of one call: nothing queued, a command of a client that left, a command to write.\<close>

definition client_gone :: "client \<Rightarrow> server \<Rightarrow> bool" where
  "client_gone cl st = (case cl of None \<Rightarrow> False | Some k \<Rightarrow> k \<notin> set (clientSessions st))"

definition write_command :: "command \<Rightarrow> server \<Rightarrow> server" where
  "write_command c st =
     (let st = (if is_chr (cmd c) CHR ''r''
                then st\<lparr>numberOfResetACKReceived := 0,
                        expectedNumberOfResetACK := int (length (srv_nodeIds st))\<rparr>
                else st)
      in start_timer (s_emit [SerialOut (command_bytes c)] st))"

lemma executeNext_cases:
  "commandsQueue st = [] \<Longrightarrow> executeNextInCommandQueue st = st"
  "commandsQueue st = (c, cl) # q \<Longrightarrow> client_gone cl st \<Longrightarrow>
     executeNextInCommandQueue st = executeNextInCommandQueue (st\<lparr>commandsQueue := q\<rparr>)"
  "commandsQueue st = (c, cl) # q \<Longrightarrow> \<not> client_gone cl st \<Longrightarrow>
     executeNextInCommandQueue st = write_command c st"
  by (subst executeNextInCommandQueue.simps; cases cl; simp add: client_gone_def write_command_def Let_def)+

lemma executeNext_induct [case_names empty gone sent]:
  assumes "\<And>st. commandsQueue st = [] \<Longrightarrow> P st"
    and "\<And>st c cl q. commandsQueue st = (c, cl) # q \<Longrightarrow> client_gone cl st \<Longrightarrow> P (st\<lparr>commandsQueue := q\<rparr>) \<Longrightarrow> P st"
    and "\<And>st c cl q. commandsQueue st = (c, cl) # q \<Longrightarrow> \<not> client_gone cl st \<Longrightarrow> P st"
  shows "P st"
proof (induction "length (commandsQueue st)" arbitrary: st rule: less_induct)
  case less
  show ?case
  proof (cases "commandsQueue st")
    case Nil
    then show ?thesis by (rule assms(1))
  next
    case (Cons x q)
    then obtain c cl where q: "commandsQueue st = (c, cl) # q" by (cases x) simp
    have "P (st\<lparr>commandsQueue := q\<rparr>)" using less Cons by simp
    then show ?thesis using assms(2,3) q by blast
  qed
qed

lemma write_command_fields [simp]:
  "commandsQueue (write_command c st) = commandsQueue st"
  "clientSessions (write_command c st) = clientSessions st"
  "unfinishedSerialString (write_command c st) = unfinishedSerialString st"
  "timer_waiting (write_command c st)"
  "timeouts_queued (write_command c st) = timeouts_queued st"
  "srv_log (write_command c st) = srv_log st @ [SerialOut (command_bytes c)]"
  "activeStreams (write_command c st) = activeStreams st"
  by (simp_all add: write_command_def start_timer_def s_emit_def Let_def)

definition addCommandToQueue :: "command \<Rightarrow> client \<Rightarrow> server \<Rightarrow> server" where
  "addCommandToQueue c cl st =
     (let st = st\<lparr>commandsQueue := commandsQueue st @ [(c, cl)]\<rparr>
      in if length (commandsQueue st) = 1 then executeNextInCommandQueue st else st)"

definition destination_text :: "command \<Rightarrow> item" where
  "destination_text c = (if destination c = 0 then Str ''T'' else Str (to_string (uint (destination c))))"

definition response_text :: "command \<Rightarrow> u32 \<Rightarrow> text_out" where
  "response_text c v =
     (if is_chr (cmd c) CHR ''g'' then
        (if is_chr (getType c) CHR ''o''
         then [Chr (cmd c), Str '' '', destination_text c, Str '' '', Num (uint v), Endl]
         else [Chr (getType c), Str '' '', destination_text c, Str '' '', Flo (F32 v), Endl])
      else if list_ex (is_chr (cmd c)) ''oOUcsr''
      then [Str (if v = 1 then ''ack'' else ''err''), Endl]
      else [])"

definition receivedCommandResponse :: "u32 \<Rightarrow> server \<Rightarrow> server" where
  "receivedCommandResponse v st =
     (case commandsQueue st of
        [] \<Rightarrow> st
      | (c, cl) # q \<Rightarrow>
          (let st = (if is_chr (cmd c) CHR ''r'' \<and> v = 1
                     then st\<lparr>numberOfResetACKReceived := numberOfResetACKReceived st + 1\<rparr> else st)
           in if is_chr (cmd c) CHR ''r'' \<and> numberOfResetACKReceived st < expectedNumberOfResetACK st
              then st
              else
                let st = st\<lparr>timer_waiting := False\<rparr>;
                    st = (if cl = None \<and> response_text c v = [] then st else s_reply cl (response_text c v) st)
                in executeNextInCommandQueue (st\<lparr>commandsQueue := q\<rparr>)))"

definition commandTimedOut :: "bool \<Rightarrow> server \<Rightarrow> server option" where
  "commandTimedOut aborted st =
     (if \<not> aborted then
        (let st = s_emit [ConsoleText [Str ''Command timed out!'', Endl]] st
         in case commandsQueue st of
              [] \<Rightarrow> None
            | _ # q \<Rightarrow> Some (executeNextInCommandQueue (st\<lparr>commandsQueue := q\<rparr>)))
      else Some st)"

subsection \<open>Client sessions\<close>

definition accept_client :: "nat \<Rightarrow> server \<Rightarrow> server" where
  "accept_client k st =
     s_emit [ClientText k [Str (''Welcome!'' @ [CHR 0x0A])], ConsoleText [Str ''A client has connected'', Endl]]
       (st\<lparr>clientSessions := clientSessions st @ [k]\<rparr>)"

definition removeClientSession :: "nat \<Rightarrow> server \<Rightarrow> server option" where
  "removeClientSession k st =
     (if k \<in> set (clientSessions st)
      then Some (st\<lparr>clientSessions := remove1 k (clientSessions st),
        activeStreams := map (\<lambda>(node, m). (node, map_erase (Some k) m)) (activeStreams st)\<rparr>)
      else None)"

subsection \<open>Recording and streaming\<close>

text \<open>
  The source would report an exception of the file stream, but \<open>std::ofstream\<close> does not throw when the
  file cannot be opened, so that branch is not reached and has no counterpart here.
\<close>

definition startSaveValues :: "int \<Rightarrow> server \<Rightarrow> text_out \<times> server" where
  "startSaveValues now_ms st =
     (if writingToFile st then ([Str ''Alreading saving to file '', Str (fileName st), Endl], st)
      else
        let st = st\<lparr>writingToFile := True, fileName := ''values.txt'', millisFileWritingStated := now_ms\<rparr>
        in ([Str ''Started saving values to file '', Str (fileName st), Endl], st))"

definition stopSaveValues :: "server \<Rightarrow> text_out \<times> server" where
  "stopSaveValues st =
     (if writingToFile st
      then ([Str ''Stoped saving values to file '', Str (fileName st), Endl],
            s_emit [FileClose] (st\<lparr>writingToFile := False\<rparr>))
      else ([], st))"

text \<open>The clock during one message: the readings for the file, for each stream and for the buffer.\<close>

record clock =
  ck_millis :: int
  ck_stream :: "client \<Rightarrow> bool \<Rightarrow> int"
  ck_add :: int
  ck_remove :: int

definition streamPWM :: "int \<Rightarrow> u8 \<Rightarrow> text_out" where
  "streamPWM t duty = [Num t, Str '' '', Num (uint duty * 100 div 255), Str ''%'', Endl]"

definition streamIluminance :: "int \<Rightarrow> f32 \<Rightarrow> text_out" where
  "streamIluminance t lux = [Num t, Str '' '', Flo lux, Endl]"

definition stream_effects :: "clock \<Rightarrow> u8 \<Rightarrow> f32 \<Rightarrow> client \<times> bool \<times> bool \<Rightarrow> pc_effect list" where
  "stream_effects ck duty lux s =
     (let (cl, streamingPWM, streamingIluminance) = s;
          p = (if streamingPWM then [streamPWM (ck_stream ck cl True) duty] else []);
          i = (if streamingIluminance then [Pc_Server.streamIluminance (ck_stream ck cl False) lux] else [])
      in case cl of
           None \<Rightarrow> map ConsoleText (p @ i)
         | Some k \<Rightarrow> if streamingPWM \<or> streamingIluminance then [ClientText k (concat (p @ i))] else [])"

definition receivedFrequentData :: "clock \<Rightarrow> u8 \<Rightarrow> u8 \<Rightarrow> f32 \<Rightarrow> server \<Rightarrow> server" where
  "receivedFrequentData ck node duty lux st =
     (let millis = ck_millis ck - millisFileWritingStated st;
          st = (if writingToFile st
                then s_emit [FileText [Num (uint node), Str '','', Num millis, Str '','',
                       Flo (f_int (uint duty) * f_int 100 / f_int 255), Str '','', Flo lux, Endl]] st
                else st);
          streams = map_at [] (activeStreams st) node;
          st = st\<lparr>activeStreams := map_touch [] node (activeStreams st)\<rparr>;
          st = s_emit (concat (map (stream_effects ck duty lux) streams)) st
      in st\<lparr>srv_minute := addToLastMinuteBuffer (ck_add ck) (ck_remove ck) node
           \<lparr>fv_pwm = duty, fv_iluminance = lux\<rparr> (srv_minute st)\<rparr>)"

subsection \<open>Messages of the hub\<close>

datatype serial_msg = FrequentData u8 u8 f32 | CommandResponse u32 | Discovery | NodeList "u8 list"

definition serial_dispatch :: "clock \<Rightarrow> serial_msg \<Rightarrow> server \<Rightarrow> server" where
  "serial_dispatch ck m st =
     (case m of
        FrequentData node duty lux \<Rightarrow> receivedFrequentData ck node duty lux st
      | CommandResponse v \<Rightarrow> receivedCommandResponse v st
      | Discovery \<Rightarrow>
          s_emit [SerialOut (command_bytes (command_type (char_code (CHR ''D'')) 0 (char_code (CHR '' ''))))] st
      | NodeList ns \<Rightarrow>
          s_emit [ConsoleText (Str ''Received list of nodes'' #
              concat (map (\<lambda>i. [Num (uint i), Str '', '']) ns) @ [Endl])]
            (st\<lparr>srv_nodeIds := map uint ns\<rparr>))"

text \<open>
  The message at a synchronisation byte: what is recognised, \<open>sizeMsg\<close> and \<open>unfinished\<close>. A read of
  \<open>line[length]\<close> is the terminating zero.
\<close>

definition serial_message :: "u8 list \<Rightarrow> serial_msg option \<times> nat \<times> bool" where
  "serial_message s =
     (if 2 \<le> length s then
        (if is_chr (s ! 1) CHR ''F'' then
           (if 6 \<le> length s
            then (Some (FrequentData (s ! 2) (s ! 5)
                    (f_int (uint (le_word (s ! 3) (s ! 4) 0 0)) / f_int 10)), 6, False)
            else (None, 6, True))
         else if is_chr (s ! 1) CHR ''R'' then
           (if 5 \<le> length s
            then (Some (CommandResponse (be_word (s ! 2) (s ! 3) (s ! 4)
                    (if 5 < length s then s ! 5 else 0))), 5, False)
            else (None, 5, True))
         else if is_chr (s ! 1) CHR ''D'' then (Some Discovery, 2, False)
         else if is_chr (s ! 1) CHR ''L'' then
           (if 3 \<le> length s then
              (let numNodes = unat (s ! 2)
               in if 3 + numNodes \<le> length s then (Some (NodeList (substr 3 numNodes s)), 3 + numNodes, False)
                  else (None, 3 + numNodes, True))
            else (None, 3, True))
         else (None, 2, False))
      else (None, 2, False))"

lemma serial_message_size: "2 \<le> fst (snd (serial_message s))"
  by (auto simp: serial_message_def Let_def)

lemma find_from_bounds: "find_from c pos s = Some p \<Longrightarrow> pos \<le> p \<and> p < length s"
  by (auto simp: find_from_def Let_def split: if_splits)

function serial_loop :: "(nat \<Rightarrow> clock) \<Rightarrow> nat \<Rightarrow> u8 list \<Rightarrow> nat \<Rightarrow> server \<Rightarrow> server" where
  "serial_loop cks k line offset st =
     (case find_from 255 offset line of
        None \<Rightarrow> st
      | Some syncBytePos \<Rightarrow>
          (let (m, sizeMsg, unfinished) = serial_message (drop syncBytePos line);
               st = (case m of None \<Rightarrow> st | Some m \<Rightarrow> serial_dispatch (cks k) m st);
               st = (if unfinished then st\<lparr>unfinishedSerialString := drop syncBytePos line\<rparr> else st)
           in serial_loop cks (k + 1) line (syncBytePos + sizeMsg) st))"
  by pat_completeness auto
termination
proof (relation "measure (\<lambda>(cks, k, line, offset, st). length line - offset)", goal_cases)
  case (2 cks k line offset st p r m t size unf st' st'')
  then have "serial_message (drop p line) = (m, size, unf)" by simp
  then have "2 \<le> size" using serial_message_size [of "drop p line"] by simp
  then show ?case using find_from_bounds [OF 2(1)] by (auto intro!: diff_less_mono2)
qed simp

declare serial_loop.simps [simp del]

definition handle_read_serial :: "(nat \<Rightarrow> clock) \<Rightarrow> u8 list \<Rightarrow> server \<Rightarrow> server" where
  "handle_read_serial cks received st =
     (let line = unfinishedSerialString st @ received
      in serial_loop cks 0 line 0 (st\<lparr>unfinishedSerialString := []\<rparr>))"

end
