(* ===== verification/Pc_Commands.thy ===== *)
theory Pc_Commands
  imports Pc_Server
begin

text \<open>
  The command language of the PC program (\<open>commands.cpp\<close>): a line typed on the console of the server or
  sent by a client is turned into a command for the nodes, or is answered at once. An
  \<open>input_exception\<close> is the value \<^term>\<open>Inl\<close> of its message. \<open>std::stof\<close> is the parameter \<open>stof\<close>
  (\<^term>\<open>None\<close> is its exception).
\<close>

type_synonym 'a parsed = "string + 'a"

definition commandGetDestination :: "int list \<Rightarrow> string \<Rightarrow> u8 parsed" where
  "commandGetDestination nodeIds substring =
     (case stoi substring of
        None \<Rightarrow> Inl ''Destination must be an integer''
      | Some dest \<Rightarrow>
          if dest > 255 \<or> dest \<le> 0 then Inl ''Invalid destination''
          else if dest \<notin> set nodeIds
          then Inl (''Destination ID '' @ to_string dest @ '' not present'')
          else Inr (word_of_int dest))"

definition signed_char :: "char \<Rightarrow> int" where
  "signed_char c = sint (char_code c)"

definition checkGetArguments :: "int list \<Rightarrow> string \<Rightarrow> u8 parsed" where
  "checkGetArguments nodeIds data =
     (if length data < 5 \<or> data ! 3 \<noteq> CHR '' '' then Inl ''Invalid command''
      else if data ! 2 \<notin> set ''IdoOULxrcptevf'' then Inl ''No valid argument''
      else if data ! 4 = CHR ''T''
      then (if data ! 2 \<in> set ''pevf'' then Inr 0
            else Inl (''Argument '' @ to_string (signed_char (data ! 2)) @ '' is not valid for total''))
      else commandGetDestination nodeIds (substr 3 (length data - 1) data))"

definition checkSetArgumentsFloat :: "(string \<Rightarrow> f32 option) \<Rightarrow> int list \<Rightarrow> string \<Rightarrow> (u8 \<times> f32) parsed" where
  "checkSetArgumentsFloat stof nodeIds data =
     (if length data < 5 \<or> data ! 1 \<noteq> CHR '' '' then Inl ''Invalid command''
      else
        case find_from CHR '' '' 2 data of
          None \<Rightarrow> Inl ''Invalid command''
        | Some idx_second_space \<Rightarrow>
            (case commandGetDestination nodeIds (substr 2 (idx_second_space - 1) data) of
               Inl msg \<Rightarrow> Inl msg
             | Inr dest \<Rightarrow>
                 (case stof (substr (idx_second_space + 1) (length data - 1) data) of
                    None \<Rightarrow> Inl ''Value must be a number''
                  | Some v \<Rightarrow> Inr (dest, v))))"

text \<open>The same steps, and the value must be 0 or 1.\<close>

definition checkSetArgumentsBool :: "(string \<Rightarrow> f32 option) \<Rightarrow> int list \<Rightarrow> string \<Rightarrow> (u8 \<times> bool) parsed" where
  "checkSetArgumentsBool stof nodeIds data =
     (if length data < 5 \<or> data ! 1 \<noteq> CHR '' '' then Inl ''Invalid command''
      else
        case find_from CHR '' '' 2 data of
          None \<Rightarrow> Inl ''Invalid command''
        | Some idx_second_space \<Rightarrow>
            (case commandGetDestination nodeIds (substr 2 (idx_second_space - 1) data) of
               Inl msg \<Rightarrow> Inl msg
             | Inr dest \<Rightarrow>
                 (case stof (substr (idx_second_space + 1) (length data - 1) data) of
                    None \<Rightarrow> Inl ''Value must be a number''
                  | Some v \<Rightarrow>
                      if \<not> f_eq v (f_int 0) \<and> \<not> f_eq v (f_int 1) then Inl ''Value must be 0 or 1''
                      else Inr (dest, \<not> f_eq v (f_int 0)))))"

text \<open>Toggling a stream: \<open>activeStreams[destination][clientSession]\<close>.\<close>

definition toggle_stream :: "bool \<Rightarrow> u8 \<Rightarrow> client \<Rightarrow> server \<Rightarrow> text_out \<times> server" where
  "toggle_stream illuminance dest cl st =
     (let m = map_at [] (activeStreams st) dest;
          (duty, lux) = map_at (False, False) m cl;
          prevValue = (if illuminance then lux else duty);
          flags = (if illuminance then (duty, \<not> prevValue) else (\<not> prevValue, lux))
      in (if prevValue then [Str ''ack'', Endl] else [],
          st\<lparr>activeStreams := map_put dest (map_put cl flags m) (activeStreams st)\<rparr>))"

text \<open>The command, the text for the stream of the sender, and the server.\<close>

definition interpretCommand ::
    "(string \<Rightarrow> f32 option) \<Rightarrow> int \<Rightarrow> string \<Rightarrow> client \<Rightarrow> server \<Rightarrow> command \<times> text_out \<times> server" where
  "interpretCommand stof now_ms line cl st =
     (let none = command_default;
          failed = (\<lambda>msg. (none, [Str msg, Endl], st))
      in if 1 \<le> length line \<and> line ! 0 = CHR ''q'' then (command_type (char_code (line ! 0)) 0 0, [], st)
      else if 1 \<le> length line \<and> line ! 0 = CHR ''r'' then (command_type (char_code (line ! 0)) 0 0, [], st)
      else if starts_with ''start save'' line then
        (let (t, st) = startSaveValues now_ms st in (command_type 0 0 0, t, st))
      else if starts_with ''stop save'' line then
        (let (t, st) = stopSaveValues st in (command_type 0 0 0, t, st))
      else if 2 < length line \<and> line ! 1 = CHR '' '' then
        (if line ! 0 = CHR ''g'' then
           (case checkGetArguments (srv_nodeIds st) line of
              Inl msg \<Rightarrow> failed msg
            | Inr dest \<Rightarrow>
                (command_type (char_code (line ! 0)) dest (char_code (line ! 2)), [], st))
         else if line ! 0 = CHR ''O'' \<or> line ! 0 = CHR ''U'' \<or> line ! 0 = CHR ''c'' then
           (case checkSetArgumentsFloat stof (srv_nodeIds st) line of
              Inl msg \<Rightarrow> failed msg
            | Inr (dest, v) \<Rightarrow> (command_float (char_code (line ! 0)) dest v, [], st))
         else if line ! 0 = CHR ''o'' then
           (case checkSetArgumentsBool stof (srv_nodeIds st) line of
              Inl msg \<Rightarrow> failed msg
            | Inr (dest, b) \<Rightarrow>
                (command_type (char_code (line ! 0)) dest (if b then 1 else 0), [], st))
         else if line ! 0 = CHR ''b'' then
           (case checkGetArguments (srv_nodeIds st) line of
              Inl msg \<Rightarrow> failed msg
            | Inr dest \<Rightarrow>
                (if line ! 2 = CHR ''I'' \<or> line ! 2 = CHR ''d'' then
                   (let (header, t) = printLastMinuteBuffer dest (line ! 2 = CHR ''d'') (srv_minute st)
                    in (none, t, s_emit [ConsoleText header] st))
                 else (none, [Str ''Must be buffer 'I' or 'd': '', Str line, Endl], st)))
         else if line ! 0 = CHR ''s'' then
           (case checkGetArguments (srv_nodeIds st) line of
              Inl msg \<Rightarrow> failed msg
            | Inr dest \<Rightarrow>
                (if line ! 2 = CHR ''I'' then
                   (let (t, st) = toggle_stream True dest cl st in (none, t, st))
                 else if line ! 2 = CHR ''d'' then
                   (let (t, st) = toggle_stream False dest cl st in (none, t, st))
                 else (none, [Str ''Must be buffer 'I' or 'd': '', Str line, Endl], st)))
         else (none, [Str ''Unknown command: '', Str line, Endl], st))
      else (none, [Str ''Unknown command: '', Str line, Endl], st))"

subsection \<open>Input of the console and of the clients\<close>

text \<open>A line of the console; \<^term>\<open>None\<close> is the end of the program.\<close>

definition console_line :: "(string \<Rightarrow> f32 option) \<Rightarrow> int \<Rightarrow> string \<Rightarrow> server \<Rightarrow> server option" where
  "console_line stof now_ms line st =
     (let (c, t, st) = interpretCommand stof now_ms line None st;
          st = (if t = [] then st else s_reply None t st)
      in if is_chr (cmd c) CHR ''q'' then None
         else if cmd c \<noteq> 0 then Some (addCommandToQueue c None st)
         else Some st)"

text \<open>
  Data of a client goes to the start of its buffer, which keeps what was there before; the line ends
  at the first zero. Without one the string constructor reads outside the buffer.
\<close>

definition receive_line :: "string \<Rightarrow> string \<Rightarrow> (string \<times> string) option" where
  "receive_line buffer data =
     (let buffer = take (length buffer) data @ drop (length data) buffer
      in if CHR 0x00 \<in> set buffer then Some (takeWhile (\<lambda>c. c \<noteq> CHR 0x00) buffer, buffer) else None)"

definition client_data ::
    "(string \<Rightarrow> f32 option) \<Rightarrow> int \<Rightarrow> nat \<Rightarrow> bool \<Rightarrow> string \<Rightarrow> string \<Rightarrow> server \<Rightarrow> (string \<times> server) option" where
  "client_data stof now_ms k err buffer data st = do {
     st \<leftarrow> (if err then removeClientSession k st else Some st);
     (if data \<noteq> [] then do {
        (line, buffer) \<leftarrow> receive_line buffer data;
        let (c, t, st) = interpretCommand stof now_ms line (Some k) st;
        let st = (if cmd c \<noteq> 0 then addCommandToQueue c (Some k) st else st);
        let st = (if t \<noteq> [] then s_emit [ClientText k t] st else st);
        Some (buffer, st)
      } else Some (buffer, st))
   }"

text \<open>The completion of a write to a client.\<close>

definition client_written :: "nat \<Rightarrow> bool \<Rightarrow> server \<Rightarrow> server option" where
  "client_written k err st = (if err then removeClientSession k st else Some st)"

subsection \<open>What the parser lets through\<close>

definition chr_in :: "u8 \<Rightarrow> string \<Rightarrow> bool" where
  "chr_in b s \<longleftrightarrow> b \<in> char_code ` set s"

text \<open>The commands of the protocol between the PC and the nodes.\<close>

definition valid_command :: "int list \<Rightarrow> command \<Rightarrow> bool" where
  "valid_command ids c \<longleftrightarrow>
     (if chr_in (cmd c) ''qr'' then destination c = 0
      else if is_chr (cmd c) CHR ''g'' then
        destination c = 0 \<and> chr_in (getType c) ''pevf'' \<or>
        uint (destination c) \<in> set ids \<and> destination c \<noteq> 0 \<and> chr_in (getType c) ''IdoOULxrcptevf''
      else if is_chr (cmd c) CHR ''o''
      then uint (destination c) \<in> set ids \<and> destination c \<noteq> 0 \<and> cmd_value c \<in> {0, 1}
      else chr_in (cmd c) ''OUc'' \<and> uint (destination c) \<in> set ids \<and> destination c \<noteq> 0)"

lemma command_type_fields [simp]:
  "cmd (command_type c d t) = c" "destination (command_type c d t) = d" "getType (command_type c d t) = t"
  by (simp_all add: command_type_def getType_setType) (simp_all add: setType_def)

lemma command_float_fields [simp]:
  "cmd (command_float c d v) = c" "destination (command_float c d v) = d" "getFloatValue (command_float c d v) = v"
  by (simp_all add: command_float_def setFloatValue_def getFloatValue_def)

lemma getDestination_valid:
  assumes "commandGetDestination ids s = Inr d"
  shows "uint d \<in> set ids \<and> d \<noteq> 0"
proof -
  obtain i where i: "\<not> i \<le> 0" "\<not> 255 < i" "i \<in> set ids" "d = word_of_int i"
    using assms by (auto simp: commandGetDestination_def split: option.splits if_splits)
  then have "uint d = i" by (simp add: uint_word_of_int)
  then show ?thesis using i by auto
qed

lemma checkGet_valid:
  assumes "checkGetArguments ids s = Inr d"
  shows "d = 0 \<and> s ! 2 \<in> set ''pevf'' \<or> uint d \<in> set ids \<and> d \<noteq> 0 \<and> s ! 2 \<in> set ''IdoOULxrcptevf''"
  using assms getDestination_valid [of ids _ d]
  by (auto simp: checkGetArguments_def split: if_splits)

lemma checkSetFloat_valid:
  "checkSetArgumentsFloat stof ids s = Inr (d, v) \<Longrightarrow> uint d \<in> set ids \<and> d \<noteq> 0"
  using getDestination_valid
  by (auto simp: checkSetArgumentsFloat_def split: if_splits option.splits sum.splits)

lemma checkSetBool_valid:
  "checkSetArgumentsBool stof ids s = Inr (d, v) \<Longrightarrow> uint d \<in> set ids \<and> d \<noteq> 0"
  using getDestination_valid
  by (auto simp: checkSetArgumentsBool_def split: if_splits option.splits sum.splits)

lemma char_code_eq [simp]: "char_code a = char_code b \<longleftrightarrow> a = b"
proof
  assume eq: "char_code a = char_code b"
  show "a = b"
  proof (cases a; cases b)
    fix a0 a1 a2 a3 a4 a5 a6 a7 b0 b1 b2 b3 b4 b5 b6 b7
    assume ab: "a = Char a0 a1 a2 a3 a4 a5 a6 a7" "b = Char b0 b1 b2 b3 b4 b5 b6 b7"
    have "n < 8 \<Longrightarrow> [a0, a1, a2, a3, a4, a5, a6, a7] ! n = [b0, b1, b2, b3, b4, b5, b6, b7] ! n" for n
      using arg_cong [OF eq, of "\<lambda>w. bit w n"]
      by (simp add: ab char_code_def of_char_def bit_horner_sum_bit_word_iff del: horner_sum_simps)
    then have "[a0, a1, a2, a3, a4, a5, a6, a7] = [b0, b1, b2, b3, b4, b5, b6, b7]"
      by (intro nth_equalityI) auto
    then show "a = b" by (simp add: ab)
  qed
qed simp

lemma command_default_cmd [simp]: "cmd command_default = 0"
  by (simp add: command_default_def)

lemma one_byte: "cmd_value (command_type c d 0) = 0" "cmd_value (command_type c d 1) = 1"
  by (simp_all add: command_type_def setType_def)

lemma interpret_valid_aux:
  assumes "interpretCommand stof now_ms line cl st = (c, t, st')" "cmd c \<noteq> 0"
  shows "valid_command (srv_nodeIds st) c \<and> t = [] \<and> st' = st"
proof -
  let ?ids = "srv_nodeIds st"
  note def = assms(1) [unfolded interpretCommand_def Let_def]
  consider (quit) "1 \<le> length line" "line ! 0 = CHR ''q'' \<or> line ! 0 = CHR ''r''"
      "c = command_type (char_code (line ! 0)) 0 0" "t = []" "st' = st"
    | (get) d where "line ! 0 = CHR ''g''" "checkGetArguments ?ids line = Inr d"
      "c = command_type (char_code (line ! 0)) d (char_code (line ! 2))" "t = []" "st' = st"
    | (setf) d v where "line ! 0 \<in> set ''OUc''" "checkSetArgumentsFloat stof ?ids line = Inr (d, v)"
      "c = command_float (char_code (line ! 0)) d v" "t = []" "st' = st"
    | (setb) d b where "line ! 0 = CHR ''o''" "checkSetArgumentsBool stof ?ids line = Inr (d, b)"
      "c = command_type (char_code (line ! 0)) d (if b then 1 else 0)" "t = []" "st' = st"
  proof (cases "1 \<le> length line \<and> (line ! 0 = CHR ''q'' \<or> line ! 0 = CHR ''r'')")
    case True
    then show ?thesis using def that(1) by auto
  next
    case no_quit: False
    show ?thesis
    proof (cases "starts_with ''start save'' line \<or> starts_with ''stop save'' line \<or>
        \<not> (2 < length line \<and> line ! 1 = CHR '' '')")
      case True
      then show ?thesis using def no_quit assms(2) by (auto split: prod.splits if_splits)
    next
      case False
      then have f: "\<not> starts_with ''start save'' line" "\<not> starts_with ''stop save'' line"
          "2 < length line" "line ! 1 = CHR '' ''"
        by auto
      have q: "line ! 0 \<noteq> CHR ''q''" "line ! 0 \<noteq> CHR ''r''" using no_quit f(3) by auto
      note body = def [simplified f q if_False if_True simp_thms]
      consider "line ! 0 = CHR ''g''" | "line ! 0 \<in> set ''OUc''" | "line ! 0 = CHR ''o''"
        | "line ! 0 \<notin> set ''gOUco''" by auto
      then show ?thesis
      proof cases
        case 1
        then obtain d where d: "checkGetArguments ?ids line = Inr d"
          using body assms(2) by (cases "checkGetArguments ?ids line") auto
        have "c = command_type (char_code (line ! 0)) d (char_code (line ! 2))" "t = []" "st' = st"
          using body by (simp_all add: 1 d)
        with 1 d that(2) show ?thesis by blast
      next
        case 2
        then have ng: "line ! 0 \<noteq> CHR ''g''" by auto
        obtain d v where d: "checkSetArgumentsFloat stof ?ids line = Inr (d, v)"
          using body assms(2) 2 by (cases "checkSetArgumentsFloat stof ?ids line") (auto simp: ng)
        have "c = command_float (char_code (line ! 0)) d v" "t = []" "st' = st"
          using body 2 by (simp_all add: ng d)
        with 2 d that(3) show ?thesis by blast
      next
        case 3
        obtain d b where d: "checkSetArgumentsBool stof ?ids line = Inr (d, b)"
          using body assms(2) by (cases "checkSetArgumentsBool stof ?ids line") (auto simp: 3)
        have "c = command_type (char_code (line ! 0)) d (if b then 1 else 0)" "t = []" "st' = st"
          using body by (simp_all add: 3 d)
        with 3 d that(4) show ?thesis by blast
      next
        case 4
        then have "cmd c = 0" using body
          by (auto split: sum.splits prod.splits if_splits)
        then show ?thesis using assms(2) by simp
      qed
    qed
  qed
  then show ?thesis
  proof cases
    case quit
    then show ?thesis by (auto simp: valid_command_def chr_in_def)
  next
    case get
    then show ?thesis using checkGet_valid [OF get(2)]
      by (auto simp: valid_command_def chr_in_def is_chr_def)
  next
    case setf
    then show ?thesis using checkSetFloat_valid [OF setf(2)]
      by (auto simp: valid_command_def chr_in_def is_chr_def)
  next
    case setb
    then show ?thesis using checkSetBool_valid [OF setb(2)]
      by (auto simp: valid_command_def chr_in_def is_chr_def one_byte)
  qed
qed

text \<open>C18. Only commands of the protocol leave the parser: an accepted line gives a quit or reset command, a
  read of an existing node (or a total of one of the four values that can be summed) with a known
  type, or a set command to an existing node, with value 0 or 1 for the occupancy; nothing is
  printed and the server is unchanged. Every other line is answered at once.\<close>

theorem interpret_valid:
  assumes "interpretCommand stof now_ms line cl st = (c, t, st')" "cmd c \<noteq> 0"
  shows "valid_command (srv_nodeIds st) c \<and> t = [] \<and> st' = st"
  using assms by (rule interpret_valid_aux)

definition stof_none :: "string \<Rightarrow> f32 option" where
  "stof_none s = None"

theorem interpret_valid_witness:
  "valid_command [2, 3] (command_type (char_code CHR ''g'') 3 (char_code CHR ''L''))"
proof -
  have "interpretCommand stof_none 0 ''g L 3'' None (server_boot 0 0\<lparr>srv_nodeIds := [2, 3]\<rparr>)
      = (command_type (char_code CHR ''g'') 3 (char_code CHR ''L''), [], server_boot 0 0\<lparr>srv_nodeIds := [2, 3]\<rparr>)"
    by (simp add: interpretCommand_def starts_with_def checkGetArguments_def commandGetDestination_def
        stoi_def substr_def is_space_def is_digit_def digits_value_def in_i32_def server_boot_def)
  moreover have "char_code CHR ''g'' \<noteq> 0" by (simp add: char_code_def)
  ultimately show ?thesis
    using interpret_valid [of stof_none 0 "''g L 3''" None "server_boot 0 0\<lparr>srv_nodeIds := [2, 3]\<rparr>"] by simp
qed

subsection \<open>Typed commands\<close>

lemma getDestination_digits:
  assumes "0 < d" "d \<le> 255" "int d \<in> set ids" "r = [] \<or> \<not> is_digit (hd r)"
  shows "commandGetDestination ids (digits d @ r) = Inr (of_nat d)"
  using assms stoi_digits [of d r] by (simp add: commandGetDestination_def)

lemma digits_no_char: "\<not> is_digit c \<Longrightarrow> c \<notin> set (digits d)"
  using digits_all [of d] by (auto simp: list_all_iff)

lemma typed_arguments:
  assumes "0 < d" "d \<le> 255" "int d \<in> set ids" "t \<in> set ''IdoOULxrcptevf''"
    and "r = [] \<or> \<not> is_digit (hd r)"
  shows "checkGetArguments ids (k # '' '' @ t # '' '' @ digits d @ r) = Inr (of_nat d)"
proof -
  obtain x xs where x: "digits d = x # xs" using digits_not_Nil by (metis list.exhaust)
  then have "x \<noteq> CHR ''T''" using digits_no_char [of "CHR ''T''" d] by (auto simp: is_digit_def)
  moreover have "commandGetDestination ids (CHR '' '' # digits d @ r) = Inr (of_nat d)"
    using getDestination_digits [OF assms(1-3,5)]
    by (simp add: commandGetDestination_def stoi_space is_space_def)
  ultimately show ?thesis
    using assms(4) by (simp add: checkGetArguments_def substr_def x)
qed

lemma typed_get:
  assumes "0 < d" "d \<le> 255" "int d \<in> set (srv_nodeIds st)" "t \<in> set ''IdoOULxrcptevf''"
    and "r = [] \<or> \<not> is_digit (hd r)"
  shows "interpretCommand stof now_ms (''g '' @ t # '' '' @ digits d @ r) cl st
     = (command_type (char_code CHR ''g'') (of_nat d) (char_code t), [], st)"
  using typed_arguments [OF assms, of "CHR ''g''"] by (simp add: interpretCommand_def starts_with_def)

lemma typed_set:
  assumes "0 < d" "d \<le> 255" "int d \<in> set (srv_nodeIds st)" "k \<in> set ''OUc''"
    and "v \<noteq> []" "stof v = Some f"
  shows "interpretCommand stof now_ms (k # '' '' @ digits d @ '' '' @ v) cl st
     = (command_float (char_code k) (of_nat d) f, [], st)"
proof -
  let ?l = "k # '' '' @ digits d @ '' '' @ v"
  obtain x xs where x: "digits d = x # xs" using digits_not_Nil by (metis list.exhaust)
  have "takeWhile (\<lambda>c. c \<noteq> CHR '' '') (digits d @ CHR '' '' # v) = digits d"
    using digits_no_char [of "CHR '' ''" d] by (subst takeWhile_append2) (auto simp: is_digit_def)
  then have space: "find_from CHR '' '' 2 ?l = Some (2 + length (digits d))"
    by (simp add: find_from_def)
  have "substr 2 (1 + length (digits d)) ?l = digits d @ '' ''" by (simp add: substr_def)
  moreover have "commandGetDestination (srv_nodeIds st) (digits d @ '' '') = Inr (of_nat d)"
    using assms(1-3) by (intro getDestination_digits) (auto simp: is_digit_def)
  moreover have "substr (Suc (Suc (Suc (length (digits d))))) (length ?l - 1) ?l = v"
    by (simp add: substr_def)
  ultimately have "checkSetArgumentsFloat stof (srv_nodeIds st) ?l = Inr (of_nat d, f)"
    using assms(5,6) space by (cases v) (simp_all add: checkSetArgumentsFloat_def x)
  then show ?thesis using assms(4) by (auto simp: interpretCommand_def starts_with_def x)
qed

end
