(* ===== verification/Pc_Link.thy ===== *)
theory Pc_Link
  imports Pc_Server Serial_Comm
begin

text \<open>
  The serial link between the hub node and the PC program: what the firmware writes
  (\<open>serialComm.cpp\<close>, \<open>serialComm.h\<close>) against what \<open>handle_read_serial\<close> of \<open>Server.cpp\<close> recognises, for
  whole streams, for messages split between two reads, and where the two sides do not fit.
\<close>

subsection \<open>The read loop on the unread rest of the line\<close>

lemma find_from_Some:
  assumes "find_from c pos s = Some p"
  shows "\<exists>noise. drop pos s = noise @ drop p s \<and> c \<notin> set noise \<and> drop p s = c # drop (Suc p) s"
proof -
  let ?w = "takeWhile (\<lambda>x. x \<noteq> c) (drop pos s)"
  have p: "p = pos + length ?w" "p < length s"
    using assms by (auto simp: find_from_def Let_def split: if_splits)
  have rest: "drop p s = dropWhile (\<lambda>x. x \<noteq> c) (drop pos s)"
    by (simp add: p(1) dropWhile_eq_drop add.commute)
  have split: "drop pos s = ?w @ drop p s"
    by (simp add: rest)
  have "s ! p = c"
    using nth_length_takeWhile [of "\<lambda>x. x \<noteq> c" "drop pos s"] p by simp
  then have "drop p s = c # drop (Suc p) s"
    using p(2) by (metis Cons_nth_drop_Suc)
  moreover have "c \<notin> set ?w" by (auto dest: set_takeWhileD)
  ultimately show ?thesis using split by blast
qed

lemma find_from_None:
  assumes "find_from c pos s = None"
  shows "c \<notin> set (drop pos s)"
proof -
  have "length s \<le> pos + length (takeWhile (\<lambda>x. x \<noteq> c) (drop pos s))"
    using assms by (auto simp: find_from_def Let_def split: if_splits)
  then have "length (drop pos s) \<le> length (takeWhile (\<lambda>x. x \<noteq> c) (drop pos s))" by simp
  then have "takeWhile (\<lambda>x. x \<noteq> c) (drop pos s) = drop pos s"
    by (metis length_takeWhile_le le_antisym takeWhile_eq_take take_all)
  then show ?thesis by (auto simp: takeWhile_eq_all_conv)
qed

function serial_scan :: "(nat \<Rightarrow> clock) \<Rightarrow> nat \<Rightarrow> u8 list \<Rightarrow> server \<Rightarrow> server" where
  "serial_scan cks k [] st = st"
| "serial_scan cks k (b # s) st =
     (if b \<noteq> 255 then serial_scan cks k s st
      else
        let (m, sizeMsg, unfinished) = serial_message (b # s);
            st = (case m of None \<Rightarrow> st | Some m \<Rightarrow> serial_dispatch (cks k) m st);
            st = (if unfinished then st\<lparr>unfinishedSerialString := b # s\<rparr> else st)
        in serial_scan cks (k + 1) (drop sizeMsg (b # s)) st)"
  by pat_completeness auto
termination
proof (relation "measure (\<lambda>(cks, k, s, st). length s)", goal_cases)
  case (3 cks k b s st r m t size unf st' st'')
  then have "serial_message (b # s) = (m, size, unf)" by simp
  then have "2 \<le> size" using serial_message_size [of "b # s"] by simp
  then show ?case by simp
qed simp_all

lemma scan_noise: "255 \<notin> set noise \<Longrightarrow> serial_scan cks k (noise @ s) st = serial_scan cks k s st"
  by (induction noise) auto

lemma scan_quiet: "255 \<notin> set noise \<Longrightarrow> serial_scan cks k noise st = st"
  using scan_noise [of noise cks k "[]" st] by simp

lemma serial_loop_scan: "serial_loop cks k line off st = serial_scan cks k (drop off line) st"
proof (induction cks k line off st rule: serial_loop.induct)
  case (1 cks k line off st)
  show ?case
  proof (cases "find_from 255 off line")
    case None
    then show ?thesis
      using scan_quiet [OF find_from_None [OF None]] by (simp add: serial_loop.simps)
  next
    case (Some p)
    obtain noise where noise: "drop off line = noise @ drop p line" "255 \<notin> set noise"
        and sync: "drop p line = 255 # drop (Suc p) line"
      using find_from_Some [OF Some] by blast
    obtain m size unf where msg: "serial_message (drop p line) = (m, size, unf)"
      by (cases "serial_message (drop p line)")
    have scan: "serial_scan cks k (drop off line) st = serial_scan cks k (drop p line) st"
      using scan_noise [OF noise(2)] noise(1) by simp
    have next_pos: "drop size (255 # drop (Suc p) line) = drop (p + size) line"
      using sync by (metis add.commute drop_drop)
    show ?thesis
      using 1 [OF Some msg [symmetric] refl refl refl] msg Some
      unfolding scan by (subst serial_loop.simps) (simp add: sync next_pos Let_def)
  qed
qed

lemma handle_scan:
  "handle_read_serial cks bs st
     = serial_scan cks 0 (unfinishedSerialString st @ bs) (st\<lparr>unfinishedSerialString := []\<rparr>)"
  by (simp add: handle_read_serial_def serial_loop_scan)

lemma unfinished_clear: "unfinishedSerialString st = [] \<Longrightarrow> st\<lparr>unfinishedSerialString := []\<rparr> = st"
  by (cases st) simp

lemma scan_message:
  assumes "serial_message (255 # s) = (Some m, len, False)"
  shows "serial_scan cks k (255 # s) st = serial_scan cks (k + 1) (drop len (255 # s)) (serial_dispatch (cks k) m st)"
  using assms by simp

subsection \<open>What the hub writes\<close>

definition serial_bytes :: "effect list \<Rightarrow> u8 list" where
  "serial_bytes es = concat (map (\<lambda>e. case e of SerialWrite b \<Rightarrow> [b] | _ \<Rightarrow> []) es)"

datatype hub_msg = HubData freq_packet | HubResponse u32 | HubDiscovery | HubNodes registry

definition hub_bytes :: "hub_msg \<Rightarrow> u8 list" where
  "hub_bytes m =
     (case m of
        HubData p \<Rightarrow> freq_serial p
      | HubResponse v \<Rightarrow> serial_bytes (sendResponse v)
      | HubDiscovery \<Rightarrow> [255, char_code (CHR ''D'')]
      | HubNodes r \<Rightarrow> (case sendListNodesToPC r of None \<Rightarrow> [] | Some es \<Rightarrow> serial_bytes es))"

definition pc_view :: "hub_msg \<Rightarrow> serial_msg" where
  "pc_view m =
     (case m of
        HubData p \<Rightarrow> FrequentData (fp_node p) (fp_pwm p) (f_int (uint (iluminanceShort p)) / f_int 10)
      | HubResponse v \<Rightarrow> CommandResponse v
      | HubDiscovery \<Rightarrow> Discovery
      | HubNodes r \<Rightarrow> NodeList (members r))"

text \<open>The list of nodes is within its array, and a response does not end in a synchronisation byte.\<close>

definition hub_ok :: "hub_msg \<Rightarrow> bool" where
  "hub_ok m =
     (case m of
        HubResponse v \<Rightarrow> ucast v \<noteq> (255 :: u8)
      | HubNodes r \<Rightarrow> node_count r \<le> length (nodesList r)
      | _ \<Rightarrow> True)"

lemma serial_bytes_response:
  "serial_bytes (sendResponse v) = 255 # char_code (CHR ''R'') # be_bytes v"
  by (simp add: serial_bytes_def sendResponse_def be_bytes_def ucast_low_byte)

lemma serial_bytes_writes: "serial_bytes (map SerialWrite bs) = bs"
  by (induction bs) (auto simp: serial_bytes_def)

lemma serial_bytes_append: "serial_bytes (a @ b) = serial_bytes a @ serial_bytes b"
  by (simp add: serial_bytes_def)

lemma hub_nodes_bytes:
  assumes "node_count r \<le> length (nodesList r)"
  shows "hub_bytes (HubNodes r) = 255 # char_code (CHR ''L'') # numTotalNodes r # members r"
proof -
  have "serial_bytes ([SerialWrite a, SerialWrite b, SerialWrite c] @ map SerialWrite d @ [SerialFlush]) = a # b # c # d"
    for a b c d
    unfolding serial_bytes_append serial_bytes_writes by (simp add: serial_bytes_def)
  then show ?thesis using assms by (simp add: hub_bytes_def sendListNodesToPC_def members_def)
qed

lemma short_value: "le_word (ucast (ucast (s :: u16) :: u32)) (ucast (drop_bit 8 (ucast s :: u32))) 0 0 = ucast s"
  unfolding le_word_def be_word_def
  by (rule bit_word_eqI) (auto simp: bit_simps dest: bit_imp_le_length)

definition trailing :: "hub_msg \<Rightarrow> u8 list" where
  "trailing m = (case m of HubResponse v \<Rightarrow> [ucast v] | _ \<Rightarrow> [])"

lemma message_of_bytes:
  assumes "hub_ok m"
  shows "\<exists>s. hub_bytes m = 255 # s \<and>
     (\<exists>len. serial_message (255 # s @ rest) = (Some (pc_view m), len, False) \<and>
        drop len (255 # s @ rest) = trailing m @ rest)"
proof (cases m)
  case (HubData p)
  have "uint (ucast (iluminanceShort p) :: u32) = uint (iluminanceShort p)"
    using uint_lt2p [of "iluminanceShort p"]
    by (simp add: unsigned_ucast_eq take_bit_int_eq_self)
  then show ?thesis
    using HubData by (simp add: hub_bytes_def freq_serial_def Let_def le_bytes_def serial_message_def is_chr_def
        short_value pc_view_def trailing_def)
next
  case (HubResponse v)
  then show ?thesis
    by (simp add: hub_bytes_def serial_bytes_response serial_message_def is_chr_def be_bytes_def pc_view_def
        be_word_be_bytes trailing_def)
next
  case HubDiscovery
  then show ?thesis by (simp add: hub_bytes_def serial_message_def is_chr_def pc_view_def trailing_def)
next
  case (HubNodes r)
  then have r: "node_count r \<le> length (nodesList r)" using assms by (simp add: hub_ok_def)
  then have "length (members r) = unat (numTotalNodes r)" by (simp add: members_def)
  then show ?thesis
    using HubNodes by (simp add: hub_nodes_bytes [OF r] serial_message_def is_chr_def pc_view_def substr_def Let_def
        trailing_def numeral_3_eq_3)
qed

subsection \<open>Whole streams\<close>

definition dispatch_all :: "(nat \<Rightarrow> clock) \<Rightarrow> nat \<Rightarrow> serial_msg list \<Rightarrow> server \<Rightarrow> server" where
  "dispatch_all cks k ms st = fold (\<lambda>(i, m). serial_dispatch (cks i) m) (enumerate k ms) st"

lemma dispatch_all_Cons:
  "dispatch_all cks k (m # ms) st = dispatch_all cks (k + 1) ms (serial_dispatch (cks k) m st)"
  by (simp add: dispatch_all_def)

definition hub_stream :: "(u8 list \<times> hub_msg) list \<Rightarrow> u8 list" where
  "hub_stream ms = concat (map (\<lambda>(noise, m). noise @ hub_bytes m) ms)"

lemma scan_hub_message:
  assumes "hub_ok m"
  shows "serial_scan cks k (hub_bytes m @ rest) st
     = serial_scan cks (k + 1) rest (serial_dispatch (cks k) (pc_view m) st)"
proof -
  obtain s len where s: "hub_bytes m = 255 # s"
      "serial_message (255 # s @ rest) = (Some (pc_view m), len, False)"
      "drop len (255 # s @ rest) = trailing m @ rest"
    using message_of_bytes [OF assms, of rest] by blast
  have "255 \<notin> set (trailing m)"
    using assms by (auto simp: hub_ok_def trailing_def split: hub_msg.splits)
  from scan_noise [OF this] show ?thesis
    using scan_message [OF s(2)] s by simp
qed

lemma scan_hub_stream:
  assumes "list_all (\<lambda>(noise, m). 255 \<notin> set noise \<and> hub_ok m) ms"
  shows "serial_scan cks k (hub_stream ms @ rest) st
     = serial_scan cks (k + length ms) rest (dispatch_all cks k (map (pc_view \<circ> snd) ms) st)"
  using assms
proof (induction ms arbitrary: k st)
  case Nil
  then show ?case by (simp add: hub_stream_def dispatch_all_def)
next
  case (Cons x ms)
  then show ?case
    by (cases x) (simp add: hub_stream_def scan_noise scan_hub_message dispatch_all_Cons)
qed

lemma hub_stream_decoded_aux:
  assumes "list_all (\<lambda>(noise, m). 255 \<notin> set noise \<and> hub_ok m) ms" "255 \<notin> set rest"
    and "unfinishedSerialString st = []"
  shows "handle_read_serial cks (hub_stream ms @ rest) st
     = dispatch_all cks 0 (map (pc_view \<circ> snd) ms) st"
  using assms by (simp add: handle_scan unfinished_clear scan_hub_stream scan_quiet)


definition cks_example :: "nat \<Rightarrow> clock" where
  "cks_example k = \<lparr>ck_millis = 1000, ck_stream = (\<lambda>_ _. 1), ck_add = 1, ck_remove = 1\<rparr>"

definition packet_example :: freq_packet where
  "packet_example = \<lparr>fp_node = 3, iluminanceShort = 255, fp_pwm = 255\<rparr>"

definition server_with_nodes :: server where
  "server_with_nodes = (server_boot 0 0)\<lparr>srv_nodeIds := [2, 3]\<rparr>"


subsection \<open>Messages split between two reads\<close>

definition is_response :: "hub_msg \<Rightarrow> bool" where
  "is_response m = (case m of HubResponse _ \<Rightarrow> True | _ \<Rightarrow> False)"

lemma split_two: "255 # c # s = a @ b \<Longrightarrow> 2 \<le> length a \<Longrightarrow> \<exists>a'. a = 255 # c # a' \<and> s = a' @ b"
  by (cases a; cases "tl a") auto

lemma message_of_prefix:
  assumes "hub_ok m" "hub_bytes m = a @ b" "2 \<le> length a" "b \<noteq> []" "is_response m \<longrightarrow> length b \<noteq> 1"
  shows "\<exists>s len. a = 255 # s \<and> serial_message a = (None, len, True) \<and> length a \<le> len"
proof (cases m)
  case (HubData p)
  then obtain w x y z where "hub_bytes m = 255 # char_code (CHR ''F'') # [w, x, y, z]"
    by (simp add: hub_bytes_def freq_serial_def Let_def)
  then obtain a' where a: "a = 255 # char_code (CHR ''F'') # a'" and r: "[w, x, y, z] = a' @ b"
    using assms(2) split_two [OF _ assms(3)] by metis
  have "length a' + length b = 4" using arg_cong [OF r, of length] by simp
  then show ?thesis using assms(4) by (cases b) (auto simp: a serial_message_def is_chr_def)
next
  case (HubResponse v)
  then obtain a' where a: "a = 255 # char_code (CHR ''R'') # a'" and r: "be_bytes v = a' @ b"
    using assms(2) split_two [OF _ assms(3), of "char_code (CHR ''R'')" "be_bytes v" b]
    by (auto simp: hub_bytes_def serial_bytes_response)
  have "length a' + length b = 4" using r by (metis length_append length_be_bytes)
  moreover have "length b \<noteq> 1" using assms(5) HubResponse by (simp add: is_response_def)
  ultimately have "length a' < 3" using assms(4) by (cases b; cases "tl b") auto
  then show ?thesis by (simp add: a serial_message_def is_chr_def)
next
  case HubDiscovery
  then show ?thesis using assms(2-4) split_two [OF _ assms(3), of "char_code (CHR ''D'')" "[]" b]
    by (auto simp: hub_bytes_def)
next
  case (HubNodes r)
  then have ok: "node_count r \<le> length (nodesList r)" using assms(1) by (simp add: hub_ok_def)
  obtain a' where a: "a = 255 # char_code (CHR ''L'') # a'" and r: "numTotalNodes r # members r = a' @ b"
    using assms(2) split_two [OF _ assms(3), of "char_code (CHR ''L'')" "numTotalNodes r # members r" b] HubNodes
    by (auto simp: hub_nodes_bytes [OF ok])
  have "length (members r) = node_count r" using ok by (simp add: members_def)
  with r assms(4) show ?thesis
    by (cases a'; cases b) (auto simp: a serial_message_def is_chr_def Let_def)
qed

lemma scan_prefix:
  assumes "hub_ok m" "hub_bytes m = a @ b" "2 \<le> length a" "b \<noteq> []" "is_response m \<longrightarrow> length b \<noteq> 1"
  shows "serial_scan cks k a st = st\<lparr>unfinishedSerialString := a\<rparr>"
proof -
  obtain s len where "a = 255 # s" "serial_message a = (None, len, True)" "length a \<le> len"
    using message_of_prefix [OF assms] by blast
  then show ?thesis by simp
qed



subsection \<open>Where the two sides do not fit\<close>

lemma executeNext_unfinished [simp]:
  "unfinishedSerialString (executeNextInCommandQueue st) = unfinishedSerialString st"
  by (induction st rule: executeNext_induct) (simp_all add: executeNext_cases)

lemma response_unfinished [simp]:
  "unfinishedSerialString (receivedCommandResponse v st) = unfinishedSerialString st"
  by (auto simp: receivedCommandResponse_def Let_def s_reply_def s_emit_def split: list.split)

text \<open>A read that ends right after a synchronisation byte forgets it: the rest of that message comes in the
  next read without its first byte and is not seen.\<close>

theorem sync_at_read_end_lost:
  assumes "hub_bytes m = 255 # s" "255 \<notin> set s" "255 \<notin> set noise" "unfinishedSerialString st = []"
  shows "handle_read_serial cks' s (handle_read_serial cks (noise @ [255]) st) = st"
proof -
  have "serial_scan cks 0 [255] st = st" by (simp add: serial_message_def)
  then show ?thesis
    using assms(2-4) by (simp add: handle_scan unfinished_clear scan_noise scan_quiet)
qed

theorem sync_at_read_end_lost_witness:
  "handle_read_serial cks_example [82, 0, 0, 0, 1] (handle_read_serial cks_example [10, 255] (server_boot 0 0))
     = server_boot 0 0"
  using sync_at_read_end_lost [of "HubResponse 1" "[82, 0, 0, 0, 1]" "[10]" "server_boot 0 0" cks_example cks_example]
  by (simp add: hub_bytes_def serial_bytes_response be_bytes_def server_boot_def)

text \<open>A response is six bytes long, but the loop takes it as soon as five are there, and advances by five.
  So a response whose last byte is still to come is taken with the low byte zero.\<close>

theorem response_early_zero:
  assumes "ucast v \<noteq> (255 :: u8)" "255 \<notin> set noise" "unfinishedSerialString st = []"
  shows "handle_read_serial cks' [ucast v]
       (handle_read_serial cks (noise @ butlast (hub_bytes (HubResponse v))) st)
     = receivedCommandResponse (v AND 0xFFFFFF00) st"
proof -
  have mask: "(0xFFFFFF00 :: u32) = push_bit 8 (mask 24)" by (simp add: mask_eq_exp_minus_1 push_bit_eq_mult)
  have word: "be_word (ucast (drop_bit 24 v)) (ucast (drop_bit 16 v)) (ucast (drop_bit 8 v)) 0
      = v AND 0xFFFFFF00"
  proof (rule bit_word_eqI)
    fix n assume n: "n < LENGTH(32)"
    consider "n < 8" | "8 \<le> n" "n < 16" | "16 \<le> n" "n < 24" | "24 \<le> n" by linarith
    then show "bit (be_word (ucast (drop_bit 24 v)) (ucast (drop_bit 16 v)) (ucast (drop_bit 8 v)) 0) n
        = bit (v AND 0xFFFFFF00) n"
      using n by cases (auto simp: mask be_word_def bit_simps)
  qed
  have "serial_scan cks 0 (butlast (hub_bytes (HubResponse v))) st = receivedCommandResponse (v AND 0xFFFFFF00) st"
    by (simp add: hub_bytes_def serial_bytes_response be_bytes_def serial_message_def is_chr_def
        serial_dispatch_def word)
  then show ?thesis
    using assms by (simp add: handle_scan unfinished_clear scan_noise)
qed

text \<open>C35. The loop advances five bytes over a response, which is six bytes long, so a last byte 255 is taken for
  a synchronisation byte: a response that ends in 255 swallows the message after it.\<close>

theorem response_ff_swallows_next:
  assumes "ucast v = (255 :: u8)" "hub_bytes m = 255 # s" "255 \<notin> set s" "unfinishedSerialString st = []"
  shows "handle_read_serial cks (hub_bytes (HubResponse v) @ hub_bytes m) st = receivedCommandResponse v st"
proof -
  have "be_word (ucast (drop_bit 24 v)) (ucast (drop_bit 16 v)) (ucast (drop_bit 8 v)) 255 = v"
    using be_word_be_bytes [of v] assms(1) by simp
  moreover have "serial_scan cks 1 (255 # 255 # s) t = t" for t
    using scan_quiet [OF assms(3)] by (simp add: serial_message_def is_chr_def)
  ultimately show ?thesis
    using assms by (simp add: handle_scan unfinished_clear hub_bytes_def serial_bytes_response be_bytes_def
        serial_message_def is_chr_def serial_dispatch_def)
qed

theorem response_ff_swallows_next_witness:
  "handle_read_serial cks_example [255, 82, 0, 0, 0, 255, 255, 68] (server_boot 0 0) = server_boot 0 0"
  using response_ff_swallows_next [of 255 HubDiscovery "[68]" "server_boot 0 0" cks_example]
  by (simp add: hub_bytes_def serial_bytes_response be_bytes_def server_boot_def receivedCommandResponse_def)

end
