(* ===== verification/Pc_System.thy ===== *)
theory Pc_System
  imports Pc_Commands Pc_Link
begin

text \<open>
  The PC program as an event system: lines of the console, data and errors of the clients, reads of the
  serial port, the expiry of the command timer and its handler, in any order. \<open>asio\<close> runs the handler
  of a wait that expired even when the timer is cancelled or restarted in between; a wait that is
  cancelled before it expires does nothing. The invariant of the command queue and the exchange of
  one command with the hub are proved here.
\<close>

definition timer_expires :: "server \<Rightarrow> server" where
  "timer_expires st = st\<lparr>timer_waiting := False, timeouts_queued := timeouts_queued st + 1\<rparr>"

definition timeout_handler :: "server \<Rightarrow> server option" where
  "timeout_handler st = commandTimedOut False (st\<lparr>timeouts_queued := timeouts_queued st - 1\<rparr>)"

inductive pc_reachable :: "(string \<Rightarrow> f32 option) \<Rightarrow> server \<Rightarrow> bool" for stof where
  start: "pc_reachable stof (server_boot last_entry file_started)"
| accept: "pc_reachable stof st \<Longrightarrow> k \<notin> set (clientSessions st) \<Longrightarrow> pc_reachable stof (accept_client k st)"
| console: "pc_reachable stof st \<Longrightarrow> console_line stof now_ms line st = Some st' \<Longrightarrow> pc_reachable stof st'"
| data: "pc_reachable stof st \<Longrightarrow> client_data stof now_ms k err buffer bytes st = Some (buffer', st') \<Longrightarrow>
    pc_reachable stof st'"
| written: "pc_reachable stof st \<Longrightarrow> client_written k err st = Some st' \<Longrightarrow> pc_reachable stof st'"
| serial: "pc_reachable stof st \<Longrightarrow> pc_reachable stof (handle_read_serial cks bs st)"
| expiry: "pc_reachable stof st \<Longrightarrow> timer_waiting st \<Longrightarrow> pc_reachable stof (timer_expires st)"
| timeout: "pc_reachable stof st \<Longrightarrow> 0 < timeouts_queued st \<Longrightarrow> timeout_handler st = Some st' \<Longrightarrow>
    pc_reachable stof st'"

subsection \<open>The outstanding command\<close>

text \<open>The commands written to the hub, without the answers to its discovery requests.\<close>

definition discovery_answer :: "u8 list" where
  "discovery_answer = command_bytes (command_type (char_code (CHR ''D'')) 0 (char_code (CHR '' '')))"

definition commands_written :: "pc_effect list \<Rightarrow> u8 list list" where
  "commands_written es =
     concat (map (\<lambda>e. case e of SerialOut bs \<Rightarrow> if bs = discovery_answer then [] else [bs] | _ \<Rightarrow> []) es)"

lemma commands_written_simps [simp]:
  "commands_written [] = []"
  "commands_written (a @ b) = commands_written a @ commands_written b"
  "commands_written (SerialOut bs # es) = (if bs = discovery_answer then [] else [bs]) @ commands_written es"
  "commands_written (ConsoleText t # es) = commands_written es"
  "commands_written (ClientText k t # es) = commands_written es"
  "commands_written (FileText t # es) = commands_written es"
  "commands_written (FileClose # es) = commands_written es"
  by (simp_all add: commands_written_def)

definition queue_ok :: "server \<Rightarrow> bool" where
  "queue_ok st \<longleftrightarrow>
     list_all (\<lambda>(c, _). cmd c \<noteq> char_code CHR ''D'') (commandsQueue st) \<and>
     (commandsQueue st \<noteq> [] \<longrightarrow>
        (timer_waiting st \<or> 0 < timeouts_queued st) \<and> commands_written (srv_log st) \<noteq> [] \<and>
        last (commands_written (srv_log st)) = command_bytes (fst (hd (commandsQueue st))))"

text \<open>The part of the state the invariant looks at.\<close>

definition queue_view :: "server \<Rightarrow> (command \<times> client) list \<times> bool \<times> nat \<times> u8 list list" where
  "queue_view st = (commandsQueue st, timer_waiting st, timeouts_queued st, commands_written (srv_log st))"

lemma queue_ok_view: "queue_view st' = queue_view st \<Longrightarrow> queue_ok st \<Longrightarrow> queue_ok st'"
  by (simp add: queue_ok_def queue_view_def)

lemma not_discovery: "cmd c \<noteq> char_code CHR ''D'' \<Longrightarrow> command_bytes c \<noteq> discovery_answer"
  by (auto simp: discovery_answer_def command_bytes_def cmd_codec.enc_inject)

lemma queue_ok_execute:
  assumes "list_all (\<lambda>(c, _). cmd c \<noteq> char_code CHR ''D'') (commandsQueue st)"
  shows "queue_ok (executeNextInCommandQueue st)"
  using assms
proof (induction st rule: executeNext_induct)
  case (sent st c cl q)
  then have "command_bytes c \<noteq> discovery_answer" using not_discovery by simp
  then show ?case using sent by (simp add: executeNext_cases queue_ok_def)
qed (simp_all add: executeNext_cases queue_ok_def)

lemma queue_ok_add:
  assumes "queue_ok st" "cmd c \<noteq> char_code CHR ''D''"
  shows "queue_ok (addCommandToQueue c cl st)"
proof (cases "commandsQueue st = []")
  case True
  then show ?thesis using assms(2) by (simp add: addCommandToQueue_def queue_ok_execute)
next
  case False
  then show ?thesis using assms by (auto simp: addCommandToQueue_def queue_ok_def hd_append)
qed

lemma queue_ok_response: "queue_ok st \<Longrightarrow> queue_ok (receivedCommandResponse v st)"
proof (cases "commandsQueue st")
  case (Cons x q)
  obtain c cl where x: "x = (c, cl)" by (cases x)
  assume ok: "queue_ok st"
  then have q: "list_all (\<lambda>(c, _). cmd c \<noteq> char_code CHR ''D'') q" by (simp add: queue_ok_def Cons)
  show ?thesis using ok q Cons x
    by (auto simp: receivedCommandResponse_def Let_def s_reply_def s_emit_def queue_ok_execute
        intro: queue_ok_view [of _ st] simp: queue_view_def)
qed (simp add: receivedCommandResponse_def)

lemma queue_ok_timeout: "queue_ok st \<Longrightarrow> timeout_handler st = Some st' \<Longrightarrow> queue_ok st'"
  by (auto simp: timeout_handler_def commandTimedOut_def Let_def s_emit_def queue_ok_def [of st]
      intro!: queue_ok_execute split: list.splits)

lemma view_console [simp]: "queue_view (s_emit [ConsoleText t] st) = queue_view st"
  by (simp add: queue_view_def s_emit_def)

lemma view_client [simp]: "queue_view (s_emit [ClientText k t] st) = queue_view st"
  by (simp add: queue_view_def s_emit_def)

lemma view_reply [simp]: "queue_view (s_reply cl t st) = queue_view st"
  by (simp add: s_reply_def queue_view_def s_emit_def split: option.split)

lemma view_save [simp]:
  "queue_view (snd (startSaveValues now_ms st)) = queue_view st"
  "queue_view (snd (stopSaveValues st)) = queue_view st"
  by (simp_all add: startSaveValues_def stopSaveValues_def queue_view_def s_emit_def Let_def)

lemma view_toggle [simp]: "queue_view (snd (toggle_stream b d cl st)) = queue_view st"
  by (simp add: toggle_stream_def queue_view_def Let_def split_def)

lemma view_interpret: "queue_view (snd (snd (interpretCommand stof now_ms line cl st))) = queue_view st"
  by (simp add: interpretCommand_def Let_def split_def split: sum.split)

lemma queue_ok_interpret:
  assumes "interpretCommand stof now_ms line cl st = (c, t, st')" "queue_ok st"
  shows "queue_ok st'"
  using view_interpret [of stof now_ms line cl st] assms by (auto intro: queue_ok_view)

lemma interpret_not_discovery:
  assumes "interpretCommand stof now_ms line cl st = (c, t, st')" "cmd c \<noteq> 0"
  shows "cmd c \<noteq> char_code CHR ''D''"
  using interpret_valid_aux [OF assms]
  by (auto simp: valid_command_def chr_in_def is_chr_def char_code_def)

lemma queue_ok_console:
  assumes "queue_ok st" "console_line stof now_ms line st = Some st'"
  shows "queue_ok st'"
proof -
  obtain c t s where i: "interpretCommand stof now_ms line None st = (c, t, s)" by (metis prod_cases3)
  let ?s = "if t = [] then s else s_reply None t s"
  have "queue_ok ?s" using queue_ok_interpret [OF i assms(1)] by (auto intro: queue_ok_view)
  then show ?thesis using assms(2) interpret_not_discovery [OF i] queue_ok_add
    by (auto simp: console_line_def i Let_def split: if_splits)
qed

lemma view_remove: "removeClientSession k st = Some st' \<Longrightarrow> queue_view st' = queue_view st"
  by (auto simp: removeClientSession_def queue_view_def split: if_splits)

lemma queue_ok_client:
  assumes "queue_ok st" "client_data stof now_ms k err buffer bytes st = Some (buffer', st')"
  shows "queue_ok st'"
proof -
  obtain s1 where s1: "(if err then removeClientSession k st else Some st) = Some s1" "queue_ok s1"
    using assms queue_ok_view view_remove
    by (fastforce simp: client_data_def bind_eq_Some_conv split: if_splits)
  show ?thesis
  proof (cases "bytes = []")
    case True
    then show ?thesis using assms(2) s1 by (auto simp: client_data_def)
  next
    case False
    then obtain line b where line: "receive_line buffer bytes = Some (line, b)"
      using assms(2) s1 by (auto simp: client_data_def bind_eq_Some_conv)
    obtain c t s where i: "interpretCommand stof now_ms line (Some k) s1 = (c, t, s)" by (metis prod_cases3)
    let ?s = "if cmd c \<noteq> 0 then addCommandToQueue c (Some k) s else s"
    have "queue_ok ?s"
      using queue_ok_interpret [OF i s1(2)] interpret_not_discovery [OF i] queue_ok_add by auto
    moreover have "st' = (if t \<noteq> [] then s_emit [ClientText k t] ?s else ?s)"
      using assms(2) s1 False line i by (auto simp: client_data_def Let_def)
    ultimately show ?thesis by (auto intro: queue_ok_view)
  qed
qed

lemma view_emit_texts:
  "list_all (\<lambda>e. case e of SerialOut _ \<Rightarrow> False | _ \<Rightarrow> True) es \<Longrightarrow> commands_written es = []"
  by (induction es) (auto split: pc_effect.splits)

lemma view_frequent: "queue_view (receivedFrequentData ck node duty lux st) = queue_view st"
proof -
  have "commands_written (stream_effects ck duty lux s) = []" for s
    by (rule view_emit_texts) (auto simp: stream_effects_def Let_def split: prod.split option.split)
  then have "commands_written (concat (map (stream_effects ck duty lux) ss)) = []" for ss
    by (induction ss) auto
  then show ?thesis
    by (simp add: receivedFrequentData_def Let_def queue_view_def s_emit_def)
qed

lemma queue_ok_dispatch: "queue_ok st \<Longrightarrow> queue_ok (serial_dispatch ck m st)"
proof (cases m)
  case Discovery
  assume "queue_ok st"
  then show ?thesis using Discovery
    by (auto intro!: queue_ok_view [of _ st] simp: serial_dispatch_def queue_view_def s_emit_def discovery_answer_def)
next
  case (FrequentData node duty lux)
  assume "queue_ok st"
  then show ?thesis using FrequentData queue_ok_view [OF view_frequent] by (simp add: serial_dispatch_def)
qed (auto simp: serial_dispatch_def queue_ok_response queue_view_def s_emit_def intro: queue_ok_view)

lemma queue_ok_scan: "queue_ok st \<Longrightarrow> queue_ok (serial_scan cks k bs st)"
proof (induction cks k bs st rule: serial_scan.induct)
  case (2 cks k b s st)
  have keep: "queue_ok (t\<lparr>unfinishedSerialString := u\<rparr>)" if "queue_ok t" for t u
    by (rule queue_ok_view [OF _ that]) (simp add: queue_view_def)
  show ?case
  proof (cases "b = 255")
    case True
    obtain m len unf where m: "serial_message (b # s) = (m, len, unf)" by (cases "serial_message (b # s)")
    have "queue_ok (case m of None \<Rightarrow> st | Some m \<Rightarrow> serial_dispatch (cks k) m st)"
      using 2(3) by (auto intro: queue_ok_dispatch split: option.split)
    then show ?thesis using 2(2) [OF _ m [symmetric] refl refl refl] True m keep by (auto simp: Let_def)
  qed (use 2 in simp)
qed simp

lemma queue_ok_serial: "queue_ok st \<Longrightarrow> queue_ok (handle_read_serial cks bs st)"
  unfolding handle_scan
  by (rule queue_ok_scan, rule queue_ok_view [of _ st]) (simp_all add: queue_view_def)

lemma reachable_queue_ok: "pc_reachable stof st \<Longrightarrow> queue_ok st"
proof (induction rule: pc_reachable.induct)
  case (start last_entry file_started)
  then show ?case by (simp add: queue_ok_def server_boot_def)
next
  case (accept st k)
  then show ?case by (auto intro: queue_ok_view [of _ st] simp: accept_client_def queue_view_def s_emit_def)
next
  case (written st k err st')
  then show ?case by (auto simp: client_written_def view_remove intro: queue_ok_view split: if_splits)
next
  case (expiry st)
  then show ?case by (simp add: queue_ok_def timer_expires_def)
qed (auto intro: queue_ok_console queue_ok_client queue_ok_serial queue_ok_timeout)


lemma reset_typed:
  "console_line stof now_ms ''r'' (server_boot a b)
     = Some (addCommandToQueue (command_type (char_code CHR ''r'') 0 0) None (server_boot a b))"
proof -
  have "interpretCommand stof now_ms ''r'' None (server_boot a b)
      = (command_type (char_code CHR ''r'') 0 0, [], server_boot a b)"
    by (simp add: interpretCommand_def)
  moreover have "char_code CHR ''q'' = 113" by (simp add: char_code_def)
  ultimately show ?thesis by (simp add: console_line_def is_chr_def)
qed


subsection \<open>A response that comes too late\<close>

text \<open>C34. A response that arrives after the timer has expired but before its handler runs leaves the handler
  pending: the queue is already empty and the handler takes the front of an empty queue.\<close>

theorem late_timeout_undefined:
  assumes "pc_reachable stof st" "timer_waiting st" "commandsQueue st = [(c, cl)]"
    and "\<not> is_chr (cmd c) CHR ''r''" "unfinishedSerialString st = []"
  shows "\<exists>st'. pc_reachable stof st' \<and> 0 < timeouts_queued st' \<and> timeout_handler st' = None"
proof -
  let ?e = "timer_expires st"
  let ?st = "handle_read_serial cks_example (hub_stream [([], HubResponse 1)] @ []) ?e"
  have "pc_reachable stof ?st"
    using assms(1,2) by (intro pc_reachable.serial pc_reachable.expiry)
  moreover have "?st = receivedCommandResponse 1 ?e"
    by (subst hub_stream_decoded_aux)
      (simp_all add: hub_ok_def timer_expires_def assms(5) dispatch_all_def pc_view_def serial_dispatch_def)
  moreover have "commandsQueue (receivedCommandResponse 1 ?e) = []"
      "timeouts_queued (receivedCommandResponse 1 ?e) = timeouts_queued st + 1"
    using assms(3,4)
    by (auto simp: receivedCommandResponse_def timer_expires_def Let_def s_reply_def s_emit_def executeNext_cases)
  ultimately show ?thesis
    by (intro exI [of _ ?st]) (simp add: timeout_handler_def commandTimedOut_def Let_def s_emit_def)
qed

text \<open>A server that knows one node and has read its illuminance reference.\<close>

definition server_listed :: server where
  "server_listed = handle_read_serial cks_example (hub_stream [([], HubNodes registry_single)] @ []) (server_boot 0 0)"

definition server_waiting :: server where
  "server_waiting = addCommandToQueue (command_type (char_code CHR ''g'') 2 (char_code CHR ''L'')) None server_listed"

lemma server_listed_fields:
  "pc_reachable stof_none server_listed" "commandsQueue server_listed = []" "srv_nodeIds server_listed = [2]"
  "unfinishedSerialString server_listed = []" "clientSessions server_listed = []"
proof -
  show "pc_reachable stof_none server_listed"
    unfolding server_listed_def by (intro pc_reachable.serial pc_reachable.start)
  have eq: "server_listed = dispatch_all cks_example 0 [NodeList (members registry_single)] (server_boot 0 0)"
    unfolding server_listed_def
    by (subst hub_stream_decoded_aux) (simp_all add: hub_ok_def server_boot_def registry_single_def pc_view_def)
  show "commandsQueue server_listed = []" "srv_nodeIds server_listed = [2]"
      "unfinishedSerialString server_listed = []" "clientSessions server_listed = []"
    unfolding eq
    by (simp_all add: dispatch_all_def serial_dispatch_def s_emit_def server_boot_def members_def registry_single_def)
qed

lemma digits_2: "digits 2 = ''2''"
  by code_simp

lemma server_waiting_fields:
  "pc_reachable stof_none server_waiting" "timer_waiting server_waiting"
  "commandsQueue server_waiting = [(command_type (char_code CHR ''g'') 2 (char_code CHR ''L''), None)]"
  "unfinishedSerialString server_waiting = []"
proof -
  have "interpretCommand stof_none 0 (''g '' @ CHR ''L'' # '' '' @ digits 2 @ []) None server_listed
      = (command_type (char_code CHR ''g'') (of_nat 2) (char_code CHR ''L''), [], server_listed)"
    by (rule typed_get) (simp_all add: server_listed_fields)
  then have "console_line stof_none 0 ''g L 2'' server_listed = Some server_waiting"
    by (simp add: digits_2 console_line_def server_waiting_def is_chr_def char_code_def)
  then show "pc_reachable stof_none server_waiting"
    using pc_reachable.console [OF server_listed_fields(1)] by blast
  show "timer_waiting server_waiting"
      "commandsQueue server_waiting = [(command_type (char_code CHR ''g'') 2 (char_code CHR ''L''), None)]"
      "unfinishedSerialString server_waiting = []"
    by (simp_all add: server_waiting_def addCommandToQueue_def server_listed_fields executeNext_cases(3)
        client_gone_def)
qed

theorem late_timeout_undefined_witness:
  "\<exists>st'. pc_reachable stof_none st' \<and> 0 < timeouts_queued st' \<and> timeout_handler st' = None"
  by (rule late_timeout_undefined [OF server_waiting_fields(1-3) _ server_waiting_fields(4)])
    (simp add: is_chr_def)

subsection \<open>One command, from the keyboard to the node and back\<close>

lemma chr_in_code: "chr_in (char_code c) s \<longleftrightarrow> c \<in> set s"
  by (auto simp: chr_in_def)

lemma valid_get_type:
  assumes "valid_command ids c" "cmd c = char_code CHR ''g''"
  shows "chr_in (getType c) ''pevf'' \<or> chr_in (getType c) ''IdoOULxrcptevf''"
proof -
  have "CHR ''g'' \<notin> set ''qr''" by simp
  then have "\<not> chr_in (cmd c) ''qr''" unfolding assms(2) chr_in_code .
  moreover have "is_chr (cmd c) CHR ''g''" unfolding is_chr_def by (rule assms(2))
  ultimately show ?thesis using assms(1) unfolding valid_command_def by argo
qed

lemma chr_in_mono: "set s \<subseteq> set s' \<Longrightarrow> chr_in b s \<Longrightarrow> chr_in b s'"
  by (auto simp: chr_in_def)

lemma if_not_None: "(P \<Longrightarrow> a \<noteq> None) \<Longrightarrow> (\<not> P \<Longrightarrow> b \<noteq> None) \<Longrightarrow> (if P then a else b) \<noteq> None"
  by simp

text \<open>C26. Every accepted read is answered: whatever line is typed, a \<open>get\<close> command that leaves the parser has a type
  the firmware knows, so a node whose gain index lies within its arrays computes a value for it and
  does not change.\<close>

theorem accepted_get_answered:
  assumes "interpretCommand stof now_ms line cl st = (c, t, st')" "is_chr (cmd c) CHR ''g''"
    and "gain_index (n_reg n) (nodeId e) = Some i" "unat i < length (residualArray (n_cal n))"
  shows "\<exists>v. executeCommand e rd c n = Some (v, n)"
proof -
  have g: "cmd c = char_code CHR ''g''" using assms(2) by (simp add: is_chr_def)
  then have "cmd c \<noteq> 0" by simp
  then have "valid_command (srv_nodeIds st) c" using interpret_valid_aux [OF assms(1)] by blast
  then have "chr_in (getType c) ''pevf'' \<or> chr_in (getType c) ''IdoOULxrcptevf''"
    using g by (rule valid_get_type)
  moreover have "set ''pevf'' \<subseteq> set ''IdoOULxrcptevf''" by simp
  ultimately have "chr_in (getType c) ''IdoOULxrcptevf''" using chr_in_mono by blast
  then obtain x where x: "getType c = char_code x" "x \<in> set ''IdoOULxrcptevf''"
    unfolding chr_in_def by (elim imageE)
  have "get_value e rd (char_code x) n \<noteq> None"
    unfolding get_value_def is_char_def char_code_eq Let_def
    apply (intro if_not_None)
                  apply (simp_all only: option.simps not_False_eq_True)
     apply (simp add: assms(3,4) aget_def)
    using x(2) apply simp
    done
  then show ?thesis using g x(1) by (auto simp: executeCommand_def is_char_def)
qed

theorem accepted_get_answered_witness:
  "\<exists>v. executeCommand env_example rd_example (command_type (char_code CHR ''g'') 2 (char_code CHR ''x'')) node_single
     = Some (v, node_single)"
proof -
  have "interpretCommand stof_none 0 ''g x 2'' None server_listed
      = (command_type (char_code CHR ''g'') 2 (char_code CHR ''x''), [], server_listed)"
    using typed_get [of 2 server_listed "CHR ''x''" "[]" stof_none 0 None] by (simp add: server_listed_fields digits_2)
  from accepted_get_answered [OF this, of node_single env_example 0 rd_example] show ?thesis
    by (simp add: is_chr_def node_single_def node_boot_def gain_index_def registry_single_def env_example_def
        aget_def calibration_init_def MAX_NUM_NODES_def)
qed

lemma set_char_cases: "k \<in> set ''OUc'' \<longleftrightarrow> k = CHR ''O'' \<or> k = CHR ''U'' \<or> k = CHR ''c''"
  by auto

lemma execute_set_result:
  assumes "cmd c = char_code k" "k \<in> set ''OUc''" "executeCommand e rd c n = Some (r, n')"
  shows "r = 1"
  using assms(3) assms(2) unfolding executeCommand_def is_char_def assms(1) char_code_eq set_char_cases
  by (elim disjE) (auto simp: bind_eq_Some_conv)

lemma add_to_empty_queue:
  assumes "commandsQueue st = []" "\<not> is_chr (cmd c) CHR ''r''"
  shows "addCommandToQueue c None st
     = st\<lparr>commandsQueue := [(c, None)], timer_waiting := True,
         srv_log := srv_log st @ [SerialOut (command_bytes c)]\<rparr>"
  using assms by (simp add: addCommandToQueue_def executeNext_cases(3) client_gone_def write_command_def
      start_timer_def s_emit_def)

lemma set_command_ack: "k \<in> set ''OUc'' \<Longrightarrow> cmd c = char_code k \<Longrightarrow> response_text c 1 = [Str ''ack'', Endl]"
  unfolding set_char_cases response_text_def is_chr_def
  by (elim disjE) (simp_all del: char_codes)


definition stof_three :: "string \<Rightarrow> f32 option" where
  "stof_three s = (if s = ''3'' then Some (f_int 3) else None)"


subsection \<open>Errors of a client\<close>

text \<open>A read error and a write error of one session both remove it: the second removal erases \<open>end()\<close>.\<close>

theorem client_error_twice_undefined:
  assumes "distinct (clientSessions st)" "client_written k True st = Some st'"
  shows "client_data stof now_ms k True buffer bytes st' = None"
proof -
  have "k \<notin> set (clientSessions st')"
    using assms by (auto simp: client_written_def removeClientSession_def split: if_splits)
  then show ?thesis by (simp add: client_data_def removeClientSession_def)
qed

end
