(* ===== verification/Pc_Client.thy ===== *)
theory Pc_Client
  imports Pc_System
begin

text \<open>
  The rest of the PC program: the client (\<open>Client.cpp\<close>), the choice between server and client
  (\<open>main.cpp\<close>), and the PC program's own copy of the class \<open>Command\<close> (\<open>command.cpp\<close>). A handler of the
  event loop is one step; the socket and the console are the events.
\<close>

subsection \<open>Client\<close>

record pc_client =
  recevied :: string \<comment> \<open>\<open>char[1024]\<close>\<close>
  console_stm_buff :: string
  sock_written :: "string list"
  screen :: string
  reading_socket :: bool
  reading_console :: bool
  stopped :: bool

text \<open>
  \<open>Client::start\<close>: the addresses of the host are tried in turn until one connects; \<open>connect\<close> gives the error
  of an attempt, if any, and \<open>err\<close> is at first \<open>host_not_found\<close>. \<^term>\<open>Inl\<close> is the error thrown.
\<close>

fun client_connect :: "('e \<Rightarrow> 'err option) \<Rightarrow> 'e list \<Rightarrow> 'err \<Rightarrow> 'err + 'e" where
  "client_connect connect [] err = Inl err"
| "client_connect connect (ep # eps) err =
     (case connect ep of None \<Rightarrow> Inr ep | Some err \<Rightarrow> client_connect connect eps err)"

lemma client_connect_first:
  "client_connect connect eps err = (case filter (\<lambda>ep. connect ep = None) eps of ep # _ \<Rightarrow> Inr ep
     | [] \<Rightarrow> Inl (if eps = [] then err else the (connect (last eps))))"
  by (induction eps arbitrary: err) (auto split: option.splits list.splits)

text \<open>The client once it is connected; the array is not initialised.\<close>

definition client_start :: "string \<Rightarrow> pc_client" where
  "client_start buf =
     \<lparr>recevied = buf, console_stm_buff = [], sock_written = [], screen = [], reading_socket = True,
      reading_console = True, stopped = False\<rparr>"

definition client_quit :: "pc_client \<Rightarrow> pc_client" where
  "client_quit c = c\<lparr>stopped := True\<rparr>"

definition start_read_console :: "pc_client \<Rightarrow> pc_client" where
  "start_read_console c = c\<lparr>reading_console := True\<rparr>"

text \<open>
  The bytes given to \<open>async_write_some\<close> are those of the local string at that time; the code lets the
  string go before the write completes. \<open>len\<close> is the length \<open>async_read_until\<close> reports.
\<close>

definition handle_read_input :: "nat \<Rightarrow> pc_client \<Rightarrow> pc_client" where
  "handle_read_input len c =
     (let line = console_stm_buff c;
          c = c\<lparr>console_stm_buff := [], reading_console := False\<rparr>;
          c = (if len > 0 then
                 if line \<noteq> [] \<and> hd line = CHR ''q'' then client_quit c
                 else c\<lparr>sock_written := sock_written c @ [line @ [CHR 0x00]]\<rparr>
               else c)
      in start_read_console c)"

definition client_write_done :: "bool \<Rightarrow> pc_client \<Rightarrow> pc_client" where
  "client_write_done err c =
     (if err then c\<lparr>screen := screen c @ ''Error writing message'' @ [CHR 0x0A], stopped := True\<rparr> else c)"

definition client_read :: "bool \<Rightarrow> string \<Rightarrow> pc_client \<Rightarrow> pc_client option" where
  "client_read err data c =
     (let c = c\<lparr>reading_socket := False\<rparr> in
      if err then Some (c\<lparr>screen := screen c @ ''Connection closed'' @ [CHR 0x0A], stopped := True\<rparr>)
      else if data \<noteq> [] then do {
        (line, buf) \<leftarrow> receive_line (recevied c) data;
        Some (c\<lparr>recevied := buf, screen := screen c @ line, reading_socket := True\<rparr>)
      } else Some c)"

lemma receive_line_message:
  assumes "CHR 0x00 \<notin> set m" "length m < length buf"
  shows "receive_line buf (m @ CHR 0x00 # rest) =
    Some (m, take (length buf) (m @ CHR 0x00 # rest) @ drop (length m + Suc (length rest)) buf)"
proof -
  obtain k where k: "length buf - length m = Suc k" using assms(2) by (metis Suc_diff_Suc)
  then have t: "take (length buf) (m @ CHR 0x00 # rest) = m @ CHR 0x00 # take k rest"
    using assms(2) by simp
  have "takeWhile (\<lambda>c. c \<noteq> CHR 0x00) (m @ CHR 0x00 # xs) = m" for xs
    using assms(1) by (induction m) auto
  then show ?thesis unfolding receive_line_def Let_def t by simp
qed


definition client_typed :: pc_client where
  "client_typed = (client_start (replicate 1024 CHR ''x''))\<lparr>console_stm_buff := ''g l 1'' @ [CHR 0x0A]\<rparr>"


text \<open>Two messages of the server that arrive in one read are not both shown: the client prints up to the
  first zero byte, and the second message never appears, although the stream delivered it.\<close>

theorem client_loses_second_message:
  assumes "CHR 0x00 \<notin> set m" "length m < length (recevied c)"
    and "client_read False (m @ CHR 0x00 # m' @ [CHR 0x00]) c = Some c'"
  shows "screen c' = screen c @ m"
  using assms(3) receive_line_message [OF assms(1,2), of "m' @ [CHR 0x00]"]
  by (auto simp: client_read_def Let_def)

theorem client_loses_second_message_witness:
  "\<exists>c'. client_read False (''ack'' @ CHR 0x00 # ''l 1 20'' @ [CHR 0x00]) client_typed = Some c' \<and> screen c' = ''ack''"
proof -
  obtain c' where c': "client_read False (''ack'' @ CHR 0x00 # ''l 1 20'' @ [CHR 0x00]) client_typed = Some c'"
    using receive_line_message [of "''ack''" "recevied client_typed" "''l 1 20'' @ [CHR 0x00]"]
    by (simp add: client_read_def Let_def client_typed_def client_start_def)
  from client_loses_second_message [OF _ _ c'] have "screen c' = ''ack''"
    by (simp add: client_typed_def client_start_def)
  with c' show ?thesis by blast
qed

subsection \<open>Program entry\<close>

text \<open>
  \<open>Server::start\<close>: a serial port that does not open (\<open>ec\<close>) is an exception; otherwise the reads of the
  console, of the serial port and of new clients are started, which are the events of \<open>Pc_System\<close>.
\<close>

definition server_start :: "bool \<Rightarrow> server \<Rightarrow> string + server" where
  "server_start ec st = (if ec then Inl (''Could not open serial port'' @ [CHR 0x0A]) else Inr st)"

text \<open>
  What \<open>runServer\<close> and \<open>runClient\<close> return and print on \<open>cerr\<close>: \<open>exn\<close> is the text of an exception that
  \<open>start\<close> throws, or for the client the event loop. The event loop of the server runs in threads of its
  own, where nothing catches an exception: \<open>thread_exn\<close> says that one left a handler there, and
  \<^term>\<open>None\<close> is the \<open>std::terminate\<close> that follows.
\<close>

definition runServer :: "string option \<Rightarrow> bool \<Rightarrow> (int \<times> string) option" where
  "runServer exn thread_exn =
     (case exn of
        Some what \<Rightarrow> Some (1, what @ [CHR 0x0A])
      | None \<Rightarrow> if thread_exn then None else Some (0, []))"

definition runClient :: "string option \<Rightarrow> int \<times> string" where
  "runClient exn = (case exn of None \<Rightarrow> (0, []) | Some what \<Rightarrow> (1, what @ [CHR 0x0A]))"

datatype pc_mode = ServerOn string | ClientOf string | Usage

definition pc_mode :: "string list \<Rightarrow> pc_mode" where
  "pc_mode argv =
     (if length argv < 3 then Usage
      else if argv ! 1 = ''--server'' then ServerOn (argv ! 2)
      else if argv ! 1 = ''--client'' then ClientOf (argv ! 2)
      else Usage)"

text \<open>The exit status, and what is printed on \<open>cout\<close> and \<open>cerr\<close>; \<^term>\<open>None\<close> is an abort.\<close>

definition pc_main :: "string list \<Rightarrow> string option \<Rightarrow> bool \<Rightarrow> (int \<times> string \<times> string) option" where
  "pc_main argv exn thread_exn =
     (case pc_mode argv of
        ServerOn port \<Rightarrow> do { r \<leftarrow> runServer exn thread_exn; Some (0, [], snd r) }
      | ClientOf host \<Rightarrow> Some (0, [], snd (runClient exn))
      | Usage \<Rightarrow> Some (1, ''Usage: --server <serial_port> or --client <server_hostname>'' @ [CHR 0x0A], []))"

text \<open>The program reports success to the shell even when it failed: \<open>main\<close> ignores what \<open>runServer\<close> and
  \<open>runClient\<close> return, so when a serial port cannot be opened or a host cannot be reached the error is
  printed and the exit status is 0 all the same; only wrong arguments give 1.\<close>

theorem main_hides_failures:
  assumes "pc_main argv (Some what) thread_exn = Some (status, out, err)"
  shows "status = (if pc_mode argv = Usage then 1 else 0) \<and>
     (pc_mode argv \<noteq> Usage \<longrightarrow> err = what @ [CHR 0x0A])"
  using assms by (auto simp: pc_main_def runServer_def runClient_def split: pc_mode.splits)

theorem main_hides_failures_witness:
  "\<exists>what. server_start True (server_boot 0 0) = Inl what \<and>
     pc_main [''scdtr'', ''--server'', ''COM2''] (Some what) False = Some (0, [], what @ [CHR 0x0A])"
proof -
  obtain what where what: "server_start True (server_boot 0 0) = Inl what" by (simp add: server_start_def)
  obtain status err where "pc_main [''scdtr'', ''--server'', ''COM2''] (Some what) False = Some (status, [], err)"
    by (simp add: pc_main_def pc_mode_def runServer_def)
  with main_hides_failures [OF this] what show ?thesis by (simp add: pc_mode_def)
qed

subsection \<open>The copy of \<open>Command\<close>\<close>

definition pc_command_default :: command where
  "pc_command_default = \<lparr>cmd = 0, destination = 0, cmd_value = 0\<rparr>"

definition pc_setType :: "u8 \<Rightarrow> command \<Rightarrow> command" where
  "pc_setType t c = c\<lparr>cmd_value := scast t\<rparr>"

definition pc_getType :: "command \<Rightarrow> u8" where
  "pc_getType c = ucast (cmd_value c)"

definition pc_setValue :: "f32 \<Rightarrow> command \<Rightarrow> command" where
  "pc_setValue v c = c\<lparr>cmd_value := f_bits v\<rparr>"

definition pc_getValue :: "command \<Rightarrow> f32" where
  "pc_getValue c = F32 (cmd_value c)"

definition pc_command_type :: "u8 \<Rightarrow> u8 \<Rightarrow> u8 \<Rightarrow> command" where
  "pc_command_type c d t = pc_setType t \<lparr>cmd = c, destination = d, cmd_value = 0\<rparr>"

definition pc_command_float :: "u8 \<Rightarrow> u8 \<Rightarrow> f32 \<Rightarrow> command" where
  "pc_command_float c d v = pc_setValue v \<lparr>cmd = c, destination = d, cmd_value = 0\<rparr>"

definition pc_command_of_buffer :: "u8 list \<Rightarrow> command option" where
  "pc_command_of_buffer buffer =
     (if length buffer < 6 then None
      else Some \<lparr>cmd = buffer ! 1, destination = buffer ! 0,
        cmd_value = push_bit 24 (ucast (buffer ! 2)) OR push_bit 16 (ucast (buffer ! 3)) OR
          push_bit 8 (ucast (buffer ! 4)) OR ucast (buffer ! 5)\<rparr>)"

definition pc_toByteArray :: "command \<Rightarrow> u8 list" where
  "pc_toByteArray c =
     [destination c, cmd c, ucast (drop_bit 24 (cmd_value c) AND 0xFF),
      ucast (drop_bit 16 (cmd_value c) AND 0xFF), ucast (drop_bit 8 (cmd_value c) AND 0xFF),
      ucast (cmd_value c AND 0xFF)]"

text \<open>C38. The two copies of \<open>Command\<close> agree: a command built on the PC is read back by the firmware with the
  same letter, destination and value, and an answer of the firmware by the PC, whatever follows the
  six bytes.\<close>

theorem command_copies_agree:
  "command_of_buffer (pc_toByteArray (pc_command_float c d v) @ rest) = Some (command_float c d v) \<and>
   command_of_buffer (pc_toByteArray (pc_command_type c d t) @ rest) = Some (command_type c d t) \<and>
   pc_command_of_buffer (toByteArray x @ rest) = Some x \<and>
   pc_getType x = getType x \<and> pc_getValue x = getFloatValue x"
proof -
  have same: "pc_toByteArray x = toByteArray x" "pc_command_of_buffer bs = command_of_buffer bs" for x bs
    by (simp_all add: pc_toByteArray_def toByteArray_def pc_command_of_buffer_def command_of_buffer_def)
  have make: "pc_command_float c d v = command_float c d v" "pc_command_type c d t = command_type c d t"
    by (simp_all add: pc_command_float_def command_float_def pc_command_type_def command_type_def pc_setType_def
        setType_def pc_setValue_def setFloatValue_def command_default_def)
  show ?thesis
    unfolding same make by (simp add: cmd_codec.dec_enc pc_getType_def getType_def pc_getValue_def getFloatValue_def)
qed

end
