(* ===== verification/Pc_Streams.thy ===== *)
theory Pc_Streams
  imports Pc_Commands
begin

text \<open>
  Streaming of the PC program: what the toggles of the command \<open>s\<close> (\<open>commands.cpp\<close>) do to the map
  \<open>activeStreams\<close>, and what \<open>receivedFrequentData\<close> (\<open>Server.cpp\<close>) sends to each client from it.
\<close>

definition clock_example :: clock where
  "clock_example = \<lparr>ck_millis = 1000, ck_stream = (\<lambda>_ _. 1), ck_add = 1, ck_remove = 1\<rparr>"

subsection \<open>The flags of a client\<close>

text \<open>The two flags of a client for a node: duty cycle and illuminance.\<close>

definition client_flags :: "u8 \<Rightarrow> client \<Rightarrow> server \<Rightarrow> bool \<times> bool" where
  "client_flags node cl st = map_at (False, False) (map_at [] (activeStreams st) node) cl"

definition flip :: "bool \<Rightarrow> bool \<times> bool \<Rightarrow> bool \<times> bool" where
  "flip illuminance f = (if illuminance then (fst f, \<not> snd f) else (\<not> fst f, snd f))"

definition flag :: "bool \<Rightarrow> bool \<times> bool \<Rightarrow> bool" where
  "flag illuminance f = (if illuminance then snd f else fst f)"

definition streams_ok :: "server \<Rightarrow> bool" where
  "streams_ok st \<longleftrightarrow> map_sorted (activeStreams st) \<and> list_all (\<lambda>(_, m). map_sorted m) (activeStreams st)"

lemma streams_node_sorted: "streams_ok st \<Longrightarrow> map_sorted (map_at [] (activeStreams st) node)"
  using map_at_cases [of "[]" "activeStreams st" node] by (auto simp: streams_ok_def list_all_iff)

lemma toggle_streams:
  "activeStreams (snd (toggle_stream b d cl st)) =
     map_put d (map_put cl (flip b (client_flags d cl st)) (map_at [] (activeStreams st) d)) (activeStreams st)"
  "fst (toggle_stream b d cl st) = (if flag b (client_flags d cl st) then [Str ''ack'', Endl] else [])"
  "srv_log (snd (toggle_stream b d cl st)) = srv_log st"
  by (auto simp: toggle_stream_def client_flags_def Let_def flip_def flag_def split: prod.splits)

lemma toggle_flags:
  assumes "streams_ok st"
  shows "client_flags y k (snd (toggle_stream b d cl st)) =
     (if y = d \<and> k = cl then flip b (client_flags d cl st) else client_flags y k st)"
proof -
  have "map_sorted (activeStreams st)" using assms by (simp add: streams_ok_def)
  then show ?thesis using streams_node_sorted [OF assms]
    unfolding client_flags_def [of y k "snd _"] toggle_streams
    by (simp add: map_at_put) (simp add: client_flags_def)
qed

lemma toggle_ok:
  assumes "streams_ok st"
  shows "streams_ok (snd (toggle_stream b d cl st))"
  unfolding streams_ok_def toggle_streams list_all_iff
proof (intro conjI ballI)
  let ?m = "map_put cl (flip b (client_flags d cl st)) (map_at [] (activeStreams st) d)"
  have inner: "map_sorted ?m"
    by (rule std_map.put_invar [OF streams_node_sorted [OF assms]])
  show "map_sorted (map_put d ?m (activeStreams st))"
    using assms by (intro std_map.put_invar) (simp add: streams_ok_def)
  fix p assume "p \<in> set (map_put d ?m (activeStreams st))"
  then have "p = (d, ?m) \<or> p \<in> set (activeStreams st)" using set_map_put by fast
  then show "case p of (_, m) \<Rightarrow> map_sorted m"
    using assms inner by (auto simp: streams_ok_def list_all_iff)
qed

text \<open>What a client receives for one packet of a node.\<close>

definition streamed_to :: "clock \<Rightarrow> u8 \<Rightarrow> f32 \<Rightarrow> nat \<Rightarrow> bool \<times> bool \<Rightarrow> pc_effect list" where
  "streamed_to ck duty lux k flags =
     (if fst flags \<or> snd flags
      then [ClientText k
        ((if fst flags then streamPWM (ck_stream ck (Some k) True) duty else []) @
         (if snd flags then streamIluminance (ck_stream ck (Some k) False) lux else []))]
      else [])"

definition to_client :: "nat \<Rightarrow> pc_effect list \<Rightarrow> pc_effect list" where
  "to_client k es = filter (\<lambda>e. case e of ClientText j _ \<Rightarrow> j = k | _ \<Rightarrow> False) es"

lemma to_client_append: "to_client k (a @ b) = to_client k a @ to_client k b"
  by (simp add: to_client_def)

lemma to_client_stream:
  "to_client k (stream_effects ck duty lux (cl, flags))
     = (if cl = Some k then streamed_to ck duty lux k flags else [])"
  by (cases cl; cases flags) (auto simp: to_client_def stream_effects_def streamed_to_def Let_def)

lemma to_client_streams:
  assumes "map_sorted m"
  shows "to_client k (concat (map (stream_effects ck duty lux) m))
     = streamed_to ck duty lux k (map_at (False, False) m (Some k))"
  using assms
proof (induction m)
  case Nil
  then show ?case by (simp add: to_client_def map_at_def streamed_to_def)
next
  case (Cons s m)
  obtain cl flags where s: "s = (cl, flags)" by (cases s)
  have m: "map_sorted m" "\<forall>x\<in>set m. cl < fst x" using Cons.prems by (auto simp: map_sorted_def s)
  have "map_of m cl = None" using m(2) by (force simp: map_of_eq_None_iff)
  then show ?case using Cons.IH [OF m(1)]
    by (auto simp: s to_client_append to_client_stream map_at_def streamed_to_def split: option.splits)
qed

lemma frequent_log:
  "to_client k (srv_log (receivedFrequentData ck node duty lux st))
     = to_client k (srv_log st) @
       to_client k (concat (map (stream_effects ck duty lux) (map_at [] (activeStreams st) node)))"
  by (simp add: receivedFrequentData_def Let_def s_emit_def to_client_append) (simp add: to_client_def)

lemma frequent_delivery:
  assumes "streams_ok st"
  shows "to_client k (srv_log (receivedFrequentData ck node duty lux st))
     = to_client k (srv_log st) @ streamed_to ck duty lux k (client_flags node (Some k) st)"
  using streams_node_sorted [OF assms] by (simp add: frequent_log to_client_streams client_flags_def)

text \<open>Streaming follows the toggles: the command \<open>s\<close> flips exactly the flag of its variable for its sender and
  its node, acknowledging only when it stops the stream, and from then on a packet of any node is
  sent to a client exactly as the client's flags for that node say, whoever else is streaming.\<close>

theorem stream_command_delivery:
  assumes "streams_ok st" "0 < d" "d \<le> 255" "int d \<in> set (srv_nodeIds st)" "x = CHR ''I'' \<or> x = CHR ''d''"
  shows "\<exists>st'. interpretCommand stof now_ms (''s '' @ x # '' '' @ digits d) cl st =
       (command_default, if flag (x = CHR ''I'') (client_flags (of_nat d) cl st) then [Str ''ack'', Endl] else [], st') \<and>
     streams_ok st' \<and>
     to_client k (srv_log (receivedFrequentData ck node duty lux st')) =
       to_client k (srv_log st) @ streamed_to ck duty lux k
         (if node = of_nat d \<and> Some k = cl then flip (x = CHR ''I'') (client_flags node cl st)
          else client_flags node (Some k) st)"
proof -
  let ?t = "toggle_stream (x = CHR ''I'') (of_nat d) cl st"
  have "x \<in> set ''IdoOULxrcptevf''" using assms(5) by auto
  then have "checkGetArguments (srv_nodeIds st) (''s '' @ x # '' '' @ digits d) = Inr (of_nat d)"
    using typed_arguments [OF assms(2-4), of x "[]" "CHR ''s''"] by simp
  then have "interpretCommand stof now_ms (''s '' @ x # '' '' @ digits d) cl st = (command_default, fst ?t, snd ?t)"
    using assms(5) by (auto simp: interpretCommand_def starts_with_def split_def)
  then show ?thesis
    using toggle_ok [OF assms(1)] toggle_flags [OF assms(1)]
    by (intro exI [of _ "snd ?t"]) (simp add: frequent_delivery toggle_streams)
qed

definition server_streaming :: server where
  "server_streaming = (server_boot 0 0)\<lparr>srv_nodeIds := [2, 3], clientSessions := [0, 1],
     activeStreams := [(2, [(None, True, False), (Some 1, False, True)])]\<rparr>"

theorem stream_command_delivery_witness:
  "\<exists>st'. interpretCommand stof_none 0 (''s I '' @ digits 2) (Some 1) server_streaming
       = (command_default, [Str ''ack'', Endl], st') \<and>
     to_client 1 (srv_log (receivedFrequentData clock_example 2 255 (f_int 7) st')) = []"
proof -
  have "streams_ok server_streaming"
    by (simp add: streams_ok_def server_streaming_def map_sorted_def)
  moreover have "client_flags 2 (Some 1) server_streaming = (False, True)"
    by (simp add: client_flags_def map_at_def server_streaming_def)
  moreover have "srv_log server_streaming = []" "srv_nodeIds server_streaming = [2, 3]"
    by (simp_all add: server_streaming_def server_boot_def)
  ultimately show ?thesis
    using stream_command_delivery [of server_streaming 2 "CHR ''I''" stof_none 0 "Some 1" 1 clock_example 2 255 "f_int 7"]
    by (auto simp: flag_def flip_def streamed_to_def to_client_def)
qed

end
