(* ===== verification/Spec2Isabelle.thy ===== *)
theory Spec2Isabelle
  imports Node_Bus Mcp_Init Pc_Client Pc_Streams
begin

text \<open>
  The SCDTR luminaire network: desk luminaires (Arduino nodes) that regulate the illuminance at their desks,
  talk to each other over a CAN bus, agree on their duty cycles by a distributed optimisation
  (consensus), and are commanded from a PC. One node at a time is the hub, the node with the PC on its
  serial port. The repository has two programs, the firmware under \<open>src/src\<close> and \<open>src/include\<close> and the
  PC program under \<open>src/SCDTR-PC/SCDTR-PC\<close>, and its driver for the MCP2515 CAN chip
  (\<open>src/lib/arduino-mcp2515\<close>); all three are modelled here.

  \<^bold>\<open>How the program is modelled.\<close> Every class is a record with the members of the class, every method a
  definition with the name of the method that takes the record and returns it updated. An operation
  that C++ leaves undefined (an access outside an array, a conversion of a float that does not fit, a
  signed overflow, \<open>pop\<close> of an empty queue) is \<^term>\<open>None\<close>; a theorem with \<^term>\<open>Some\<close> in its
  conclusion is therefore a memory-safety statement. An uninitialised reply of the firmware is
  \<^term>\<open>None\<close> too. Integers are words of their width; \<open>int\<close> of the AVR is an \<^typ>\<open>int\<close> with the
  16 bit bounds written out. \<open>float\<close> is binary32, executable, with the rounding of IEEE 754.
  Effects (frames sent, serial bytes, LED, EEPROM, text) go to a log in order. Values read from the
  hardware (clock, LDR) are arguments.

  \<^bold>\<open>Parameters.\<close> \<open>log\<close>, \<open>log10\<close>, \<open>exp\<close> and \<open>pow\<close> of the C library (record \<open>libm\<close>), the result of
  the driver for each frame in the model of a node (\<open>driver\<close>), the acceptance test of the CAN chip, and
  \<open>std::stof\<close>. The driver itself has the operations of the Arduino core as a parameter (record \<open>spi\<close>:
  chip select, \<open>SPI.transfer\<close>, \<open>millis\<close>, \<open>delay\<close>, over a device state). All appear as arguments; what a
  theorem relies on is a hypothesis of it. For the chip that is \<open>mcp_chip\<close>, the rules of its data sheet
  on what a transaction reads and writes, what the chip may change by itself and how long it takes;
  \<open>Mcp_Memory\<close> has a chip that satisfies them, on which the witnesses run.

  \<^bold>\<open>The library.\<close>
  \<^item> \<open>Prelude\<close>: integer types, arrays with bounds, the collections \<open>array_simps\<close>, \<open>wire_simps\<close>, \<open>inv_intros\<close>.
  \<^item> \<open>Float32\<close>: binary32 numbers; ordering, error bounds of the operations, evaluation (\<open>f_eval\<close>).

  \<^bold>\<open>The firmware.\<close>
  \<^item> \<open>Can_Stream\<close> (\<open>can_frame_stream.h\<close>): the ring buffer of received frames, an instance of the locale
    \<open>bounded_fifo\<close>: \<open>stream_put\<close> and \<open>stream_get\<close> implement a queue of at most ten frames.
  \<^item> \<open>Wire\<close> (\<open>command.cpp\<close>, \<open>convertion.h\<close>, \<open>serialComm.h\<close>): byte formats, instances of the locale \<open>codec\<close>.
  \<^item> \<open>Registry\<close> (\<open>main.cpp\<close>: \<open>registerNewNode\<close>, \<open>resetGlob\<close>): the list of nodes and its index; the
    insertion loops implement sorted insertion, so the order does not depend on the order of registration.
  \<^item> \<open>Controller\<close> (\<open>controller.cpp\<close>, \<open>simulador.cpp\<close>), \<open>Lpf\<close> (\<open>lpf.cpp\<close>), \<open>Luminaire\<close> (\<open>luminaire.cpp\<close>),
    \<open>Metrics\<close> (\<open>metrics.cpp\<close>): the control loop; ranges and boundedness, the window of the filter, the metrics.
  \<^item> \<open>Can_Send\<close>, \<open>Duty_Wire\<close>, \<open>Communication\<close> (\<open>communication.cpp\<close>): identifiers and their addressing, sending,
    the encoding of the consensus vector, and \<open>received\<close>.
  \<^item> \<open>Calibration\<close> (\<open>calibrationFSM.cpp\<close>): the state machine that measures the gains, an event relation with the
    frames of the peers; its schedule of two readings for each node.
  \<^item> \<open>Consensus\<close> (\<open>consensus.cpp\<close>): the candidates of the local optimisation, the choice of the best, the
    averaging and the fifty iterations.
  \<^item> \<open>Node_State\<close>, \<open>Serial_Comm\<close> (\<open>serialComm.cpp\<close>), \<open>Node_Loop\<close> (\<open>main.cpp\<close>, \<open>mainFSM.cpp\<close>): the state of a
    node, the commands of the PC, the main loop with its interrupt handler; \<open>reachable\<close> is the
    relation of all states of a node, under any input.
  \<^item> \<open>Node_Types\<close>: the declared sizes of the arrays and the form of the frames as a typing of the state of
    a node, which every operation keeps.

  \<^bold>\<open>The CAN driver.\<close>
  \<^item> \<open>Mcp_Tables\<close> (\<open>mcp2515.h\<close>, the switch of \<open>setBitrate\<close>): registers, bit masks and bit timing; \<open>Mcp2515\<close>
    (\<open>mcp2515.cpp\<close>, \<open>Communication::init\<close>, the device side of \<open>irqHandler\<close>): every method, as a program of
    the state monad over the device.
  \<^item> \<open>Mcp_Chip\<close>: the rules of the data sheet and correctness triples of driver programs; \<open>Mcp_Memory\<close>: a
    chip that keeps them.
  \<^item> \<open>Mcp_Modes\<close>: changing the mode ends; \<open>Mcp_Init\<close>: what the setup leaves in the registers and which
    messages pass; \<open>Mcp_Messages\<close>: sending, receiving, and a frame from one chip to another;
    \<open>Mcp_Interrupt\<close>: the interrupt line, and the way of a frame into the queue of the node.
  \<^item> \<open>Node_Bus\<close>: two running nodes on one bus.

  \<^bold>\<open>The PC program.\<close>
  \<^item> \<open>Pc_Text\<close>: what is used of the C++ library: \<open>std::map\<close> (locale \<open>ordered_dictionary\<close>), \<open>stoi\<close>, strings.
  \<^item> \<open>Pc_Buffer\<close> (\<open>LastMinuteBuffer.cpp\<close>): the values of the last minute of each node.
  \<^item> \<open>Pc_Server\<close> (\<open>Server.cpp\<close>, \<open>ServerConnection.cpp\<close>): the queue of commands and its timeout, the clients,
    the messages of the hub, streaming and recording.
  \<^item> \<open>Pc_Commands\<close> (\<open>commands.cpp\<close>): the language of the console and of the clients.
  \<^item> \<open>Pc_Streams\<close>: streaming from the toggles to the delivery.
  \<^item> \<open>Pc_Link\<close>: the serial line, from the bytes the firmware writes to what the PC recognises.
  \<^item> \<open>Pc_System\<close>: the PC program as an event system (\<open>pc_reachable\<close>), the invariant of its queue, and
    a command from the keyboard to the node and back.
  \<^item> \<open>Pc_Client\<close> (\<open>Client.cpp\<close>, \<open>main.cpp\<close>, \<open>command.cpp\<close>): the client and its exchange with the server, the
    choice between the two, and the PC program's copy of \<open>Command\<close>, which agrees with the firmware's.

  \<^bold>\<open>Fuel and bounds.\<close> Loops are recursions with a measure. Two have fuel. \<open>drain\<close>, which
  empties the receive buffer, needs one more than the capacity of the buffer, which is proved to be enough
  (the buffer holds at most ten frames and the interrupt is a step of its own). \<open>poll_mode\<close>, the loop of
  \<open>setMode\<close> that waits up to ten milliseconds, needs 10001, because a round takes at least a microsecond;
  that it then ends is proved too. At most seven nodes are
  supported by the arrays (\<open>MAX_NUM_NODES\<close>), node ids by an array of 21; where the code does not check
  these bounds, a theorem says when it leaves them.

  \<^bold>\<open>Concurrency.\<close> In a node the interrupt handler runs between the operations of the loop; the code masks
  interrupts while it takes a frame out of the receive buffer. In the PC program four threads run the
  handlers, which hold the mutexes of what they touch; each handler is one step. A timer wait that
  has expired runs its handler even when the timer is restarted before it does.

  \<^bold>\<open>Not modelled.\<close> The Arduino core and the chip are not part of the sources. Pin modes, timer registers,
  the set-up of SPI and of the interrupt pin have no state the program reads. Of the boost.asio library
  the model has the events and the handlers, not the scheduling. The arbitration of the bus is not
  modelled: \<open>delivered\<close> says what a bus that delivers a buffer has done. The digits with which a float is
  printed are left to the library: the printed item is the float.
\<close>

end
